(* ===== verification/Prelude.thy ===== *)
theory Prelude
  imports
    Main
    "HOL-Library.Word"
    "HOL-Library.List_Lexorder"
    "HOL-Library.Char_ord"
    "HOL-Library.Product_Lexorder"
    "HOL-Library.Multiset"
begin

text \<open>
  What the component theories share.
  \<^item> The model's base types: Go's unsigned integers as words, keys and addresses as strings.
  \<^item> Results: a Go function that returns an error or panics is a function into
    \<open>error + 'a\<close>; \<open>bindR\<close>, \<open>guardR\<close> and \<open>foldR\<close> sequence such
    functions the way early returns and loops do.
  \<^item> Ordered stores: a prefix of a module's KVStore is an association list sorted by key, so
    that an iterator is the list itself. The locale \<open>ordered_store\<close> is the interface the
    keepers rely on; \<open>kv\<close> is its interpretation.
  \<^item> Go's \<open>sort.SliceStable\<close> (locale \<open>slice_order\<close>) and \<open>sort.Search\<close>.
\<close>

named_theorems result_simps \<open>rewriting of results\<close>
named_theorems kv_simps \<open>reading an ordered store after an update\<close>

subsection \<open>Base types\<close>

type_synonym u32 = "32 word"
type_synonym u64 = "64 word"
type_synonym bytes = "char list"
type_synonym btcpk = "char list"
type_synonym addr = "char list"

text \<open>A Go loop \<open>for i := a; i <= b; i++\<close> over unsigned heights, for \<open>b\<close> below the
  largest value of the type (where the Go loop would not end).\<close>

definition heights_upto :: "'a::len word \<Rightarrow> 'a word \<Rightarrow> 'a word list" where
  "heights_upto a b = map word_of_nat [unat a ..< Suc (unat b)]"

lemma unat_word_of_nat_le:
  assumes "n \<le> unat (b :: 'a::len word)"
  shows "unat (word_of_nat n :: 'a word) = n"
proof -
  from assms have "n < 2 ^ LENGTH('a)" by (rule le_less_trans) (rule unsigned_less)
  then show ?thesis by (simp add: unat_of_nat)
qed

lemma unat_Suc_word:
  assumes "a < (b :: 'a::len word)"
  shows "unat (a + 1) = Suc (unat a)"
proof -
  have "a \<noteq> - 1" using assms by auto
  then have "1 + a \<noteq> 0" by (simp add: eq_neg_iff_add_eq_0 add.commute)
  from unatSuc [OF this] show ?thesis by (simp add: add.commute)
qed

text \<open>The guard \<open>a \<le> a + b\<close> excludes overflow.\<close>

lemma unat_add_no_wrap:
  assumes "a \<le> a + (b :: 'a::len word)"
  shows "unat (a + b) = unat a + unat b"
proof (rule ccontr)
  assume ne: "unat (a + b) \<noteq> unat a + unat b"
  have "unat (a + b) = (unat a + unat b) mod 2 ^ LENGTH('a)" by (simp add: unat_word_ariths)
  with ne have ge: "2 ^ LENGTH('a) \<le> unat a + unat b" by (metis mod_less not_le)
  have "unat a + unat b < 2 ^ LENGTH('a) + 2 ^ LENGTH('a)" by (intro add_strict_mono unsigned_less)
  with ge have "(unat a + unat b) mod 2 ^ LENGTH('a) = unat a + unat b - 2 ^ LENGTH('a)"
    by (simp add: le_mod_geq)
  then have "unat (a + b) = unat a + unat b - 2 ^ LENGTH('a)" by (simp add: unat_word_ariths)
  moreover have "unat b < 2 ^ LENGTH('a)" by (rule unsigned_less)
  ultimately have "unat (a + b) < unat a" using ge by linarith
  with assms show False by (simp add: word_le_nat_alt)
qed

lemma set_heights_upto [simp]: "set (heights_upto a b) = {a..b}"
proof (rule set_eqI, rule iffI)
  fix w assume "w \<in> set (heights_upto a b)"
  then obtain n where "unat a \<le> n" "n \<le> unat b" "w = word_of_nat n"
    by (auto simp: heights_upto_def)
  then show "w \<in> {a..b}" by (simp add: word_le_nat_alt unat_word_of_nat_le)
next
  fix w assume "w \<in> {a..b}"
  then have "unat w \<in> {unat a..<Suc (unat b)}" by (simp add: word_le_nat_alt)
  then have "word_of_nat (unat w) \<in> set (heights_upto a b)"
    unfolding heights_upto_def set_map set_upt by (rule imageI)
  then show "w \<in> set (heights_upto a b)" by simp
qed

lemma heights_upto_empty: "b < a \<Longrightarrow> heights_upto a b = []"
  by (simp add: heights_upto_def word_less_nat_alt)

lemma heights_upto_last: "heights_upto a a = [a]"
  by (simp add: heights_upto_def)

lemma heights_upto_Cons:
  assumes "a < b"
  shows "heights_upto a b = a # heights_upto (a + 1) b"
proof -
  have "unat a < Suc (unat b)" using assms by (simp add: word_less_nat_alt)
  then show ?thesis
    unfolding heights_upto_def unat_Suc_word [OF assms] by (subst upt_conv_Cons) simp_all
qed

subsection \<open>Results\<close>

text \<open>A Go function returns an error or panics; both end a transaction and undo its writes.
  The constructors of \<open>'e\<close> are the sentinel errors of the modules (theory Errors).\<close>

definition bindR :: "'e + 'a \<Rightarrow> ('a \<Rightarrow> 'e + 'b) \<Rightarrow> 'e + 'b" where
  "bindR m f = (case m of Inl e \<Rightarrow> Inl e | Inr x \<Rightarrow> f x)"

text \<open>\<open>if err then return e\<close>, before the rest of the function.\<close>

definition guardR :: "bool \<Rightarrow> 'e \<Rightarrow> 'e + 'a \<Rightarrow> 'e + 'a" where
  "guardR bad e m = (if bad then Inl e else m)"

text \<open>A loop whose body may fail.\<close>

fun foldR :: "('s \<Rightarrow> 'a \<Rightarrow> 'e + 's) \<Rightarrow> 's \<Rightarrow> 'a list \<Rightarrow> 'e + 's" where
  "foldR f s [] = Inr s"
| "foldR f s (x # xs) = bindR (f s x) (\<lambda>s'. foldR f s' xs)"

definition option_to_result :: "'e \<Rightarrow> 'a option \<Rightarrow> 'e + 'a" where
  "option_to_result e m = (case m of None \<Rightarrow> Inl e | Some x \<Rightarrow> Inr x)"

lemma bindR_Inl [simp, result_simps]: "bindR (Inl e) f = Inl e"
  and bindR_Inr [simp, result_simps]: "bindR (Inr x) f = f x"
  by (simp_all add: bindR_def)

lemma bindR_eq_Inr [result_simps]: "bindR m f = Inr y \<longleftrightarrow> (\<exists>x. m = Inr x \<and> f x = Inr y)"
  by (cases m) auto

lemma bindR_eq_Inl [result_simps]:
  "bindR m f = Inl e \<longleftrightarrow> m = Inl e \<or> (\<exists>x. m = Inr x \<and> f x = Inl e)"
  by (cases m) auto

lemma guardR_simps [simp, result_simps]:
  "guardR True e m = Inl e" "guardR False e m = m"
  by (simp_all add: guardR_def)

lemma guardR_eq_Inr [result_simps]: "guardR bad e m = Inr y \<longleftrightarrow> \<not> bad \<and> m = Inr y"
  by (simp add: guardR_def)

lemma guardR_eq_Inl [result_simps]: "guardR bad e m = Inl e' \<longleftrightarrow> bad \<and> e = e' \<or> \<not> bad \<and> m = Inl e'"
  by (simp add: guardR_def)

lemma option_to_result_simps [simp, result_simps]:
  "option_to_result e None = Inl e" "option_to_result e (Some x) = Inr x"
  by (simp_all add: option_to_result_def)

lemma option_to_result_eq_Inr [result_simps]: "option_to_result e m = Inr x \<longleftrightarrow> m = Some x"
  by (cases m) auto

lemma foldR_append: "foldR f s (xs @ ys) = bindR (foldR f s xs) (\<lambda>s'. foldR f s' ys)"
  by (induction xs arbitrary: s) (auto simp: bindR_def split: sum.splits)

text \<open>An invariant of the loop body is an invariant of the loop.\<close>

lemma foldR_invariant:
  assumes "foldR f s xs = Inr s'" and "I s"
    and step: "\<And>s x s'. I s \<Longrightarrow> x \<in> set xs \<Longrightarrow> f s x = Inr s' \<Longrightarrow> I s'"
  shows "I s'"
  using assms
proof (induction xs arbitrary: s)
  case Nil
  then show ?case by simp
next
  case (Cons x xs)
  obtain s1 where s1: "f s x = Inr s1" "foldR f s1 xs = Inr s'"
    using Cons.prems(1) by (auto simp: bindR_eq_Inr)
  have "I s1" by (rule Cons.prems(3) [OF Cons.prems(2) _ s1(1)]) simp
  show ?case
  proof (rule Cons.IH [OF s1(2) \<open>I s1\<close>])
    fix s y s' assume "I s" "y \<in> set xs" "f s y = Inr s'"
    then show "I s'" by (intro Cons.prems(3) [of s y s']) simp_all
  qed
qed

text \<open>A loop whose body cannot fail under its invariant does not fail.\<close>

lemma foldR_total:
  assumes "I s"
    and "\<And>s x. I s \<Longrightarrow> x \<in> set xs \<Longrightarrow> \<exists>s'. f s x = Inr s' \<and> I s'"
  shows "\<exists>s'. foldR f s xs = Inr s' \<and> I s'"
  using assms
proof (induction xs arbitrary: s)
  case Nil
  then show ?case by simp
next
  case (Cons x xs)
  obtain s1 where "f s x = Inr s1" "I s1" using Cons.prems(2) [OF Cons.prems(1), of x] by auto
  moreover obtain s2 where "foldR f s1 xs = Inr s2" "I s2"
    using Cons.IH [OF \<open>I s1\<close>] Cons.prems(2) by auto
  ultimately show ?case by auto
qed

text \<open>A loop whose body never fails is a fold.\<close>

lemma foldR_Inr: "foldR (\<lambda>s x. Inr (f s x)) s xs = Inr (foldl f s xs)"
  by (induction xs arbitrary: s) auto

subsection \<open>Ordered stores\<close>

text \<open>A KVStore prefix with its entries in key order; \<open>kv_set\<close> replaces or inserts.\<close>

type_synonym ('k, 'v) kv = "('k \<times> 'v) list"

fun kv_get :: "('k, 'v) kv \<Rightarrow> 'k \<Rightarrow> 'v option" where
  "kv_get [] k = None"
| "kv_get ((k', v) # s) k = (if k = k' then Some v else kv_get s k)"

fun kv_set :: "'k::linorder \<Rightarrow> 'v \<Rightarrow> ('k, 'v) kv \<Rightarrow> ('k, 'v) kv" where
  "kv_set k v [] = [(k, v)]"
| "kv_set k v ((k', v') # s) =
     (if k < k' then (k, v) # (k', v') # s
      else if k = k' then (k, v) # s
      else (k', v') # kv_set k v s)"

definition kv_del :: "'k \<Rightarrow> ('k, 'v) kv \<Rightarrow> ('k, 'v) kv" where
  "kv_del k s = filter (\<lambda>e. fst e \<noteq> k) s"

definition kv_has :: "('k, 'v) kv \<Rightarrow> 'k \<Rightarrow> bool" where
  "kv_has s k = (kv_get s k \<noteq> None)"

definition kv_wf :: "('k::linorder, 'v) kv \<Rightarrow> bool" where
  "kv_wf s = sorted_wrt (<) (map fst s)"

text \<open>The store under a prefix: keys are pairs (prefix, rest), entries keep their order.\<close>

fun kv_sub :: "'p \<Rightarrow> ('p \<times> 'k, 'v) kv \<Rightarrow> ('k, 'v) kv" where
  "kv_sub p [] = []"
| "kv_sub p (((p', k), v) # s) = (if p' = p then (k, v) # kv_sub p s else kv_sub p s)"

lemma kv_get_set [simp, kv_simps]:
  "kv_get (kv_set k v s) k' = (if k' = k then Some v else kv_get s k')"
  by (induction k v s rule: kv_set.induct) auto

lemma kv_get_del [simp, kv_simps]:
  "kv_get (kv_del k s) k' = (if k' = k then None else kv_get s k')"
  by (induction s) (auto simp: kv_del_def)

lemma kv_has_set [simp, kv_simps]: "kv_has (kv_set k v s) k' \<longleftrightarrow> k' = k \<or> kv_has s k'"
  by (simp add: kv_has_def)

lemma kv_get_SomeD: "kv_get s k = Some v \<Longrightarrow> (k, v) \<in> set s"
  by (induction s k rule: kv_get.induct) (auto split: if_splits)

lemma kv_get_None: "kv_get s k = None \<longleftrightarrow> k \<notin> fst ` set s"
  by (induction s k rule: kv_get.induct) auto

lemma kv_wf_Nil [simp]: "kv_wf []"
  by (simp add: kv_wf_def)

lemma kv_wf_Cons: "kv_wf ((k, v) # s) \<longleftrightarrow> (\<forall>k'\<in>fst ` set s. k < k') \<and> kv_wf s"
  by (auto simp: kv_wf_def)

lemma keys_kv_set: "fst ` set (kv_set k v s) = insert k (fst ` set s)"
  by (induction k v s rule: kv_set.induct) auto

lemma kv_wf_set [simp, kv_simps]: "kv_wf s \<Longrightarrow> kv_wf (kv_set k v s)"
  by (induction k v s rule: kv_set.induct) (auto simp: kv_wf_Cons keys_kv_set)

lemma kv_wf_del [simp, kv_simps]: "kv_wf s \<Longrightarrow> kv_wf (kv_del k s)"
  by (simp add: kv_wf_def kv_del_def sorted_wrt_map sorted_wrt_filter)

lemma kv_entries: "kv_wf s \<Longrightarrow> (k, v) \<in> set s \<longleftrightarrow> kv_get s k = Some v"
proof (induction s)
  case (Cons e s)
  obtain k' v' where e: "e = (k', v')" by fastforce
  show ?case using Cons by (auto simp: e kv_wf_Cons image_iff dest: kv_get_SomeD)
qed simp

lemma kv_wf_distinct: "kv_wf s \<Longrightarrow> distinct (map fst s)"
  by (simp add: kv_wf_def strict_sorted_iff)

lemma kv_get_sub [simp, kv_simps]: "kv_get (kv_sub p s) k = kv_get s (p, k)"
  by (induction p s rule: kv_sub.induct) auto

lemma keys_kv_sub: "fst ` set (kv_sub p s) = {k. (p, k) \<in> fst ` set s}"
  using kv_get_None [of "kv_sub p s"] kv_get_None [of s] by auto

lemma kv_wf_sub [simp, kv_simps]: "kv_wf s \<Longrightarrow> kv_wf (kv_sub p s)"
proof (induction p s rule: kv_sub.induct)
  case (2 p p' k v s)
  then have "\<forall>q\<in>fst ` set s. (p', k) < q" "kv_wf (kv_sub p s)" by (auto simp: kv_wf_Cons)
  then show ?case by (auto simp: kv_wf_Cons keys_kv_sub)
qed simp

lemma kv_set_front: "\<forall>k'\<in>fst ` set s. k < k' \<Longrightarrow> kv_set k v s = (k, v) # s"
  by (cases s) auto

lemma kv_set_last: "\<forall>k'\<in>fst ` set s. k' < k \<Longrightarrow> kv_set k v s = s @ [(k, v)]"
  by (induction k v s rule: kv_set.induct) auto

lemma kv_sub_set:
  "kv_wf s \<Longrightarrow> kv_sub p (kv_set (p', k) v s) = (if p' = p then kv_set k v (kv_sub p s) else kv_sub p s)"
proof (induction p s rule: kv_sub.induct)
  case (2 p q l w s)
  then have above: "\<forall>r\<in>fst ` set s. (q, l) < r" and wf: "kv_wf s" by (auto simp: kv_wf_Cons)
  show ?case
  proof (cases "(p', k) < (q, l)")
    case True
    have "\<forall>k'\<in>fst ` set (kv_sub p s). k < k'" if "p' = p" "q \<noteq> p"
    proof
      fix k' assume "k' \<in> fst ` set (kv_sub p s)"
      then have "(p, k') \<in> fst ` set s" by (simp only: keys_kv_sub mem_Collect_eq)
      with above have "(q, l) < (p, k')" by (rule bspec)
      with True that show "k < k'" by (auto simp: less_prod_simp)
    qed
    then show ?thesis using True by (auto simp: kv_set_front less_prod_simp)
  next
    case False
    with 2 wf show ?thesis by (cases "q = p"; cases "(p', k) = (q, l)") auto
  qed
qed simp

lemma kv_sub_del:
  "kv_sub p (kv_del (p', k) s) = (if p' = p then kv_del k (kv_sub p s) else kv_sub p s)"
  by (induction p s rule: kv_sub.induct) (auto simp: kv_del_def)

text \<open>What a keeper relies on: reads see the last write, the iterator gives every entry once
  and in ascending key order.\<close>

locale ordered_store =
  fixes store_get :: "'s \<Rightarrow> 'k::linorder \<Rightarrow> 'v option"
    and store_set :: "'k \<Rightarrow> 'v \<Rightarrow> 's \<Rightarrow> 's"
    and store_del :: "'k \<Rightarrow> 's \<Rightarrow> 's"
    and store_iter :: "'s \<Rightarrow> ('k \<times> 'v) list"
    and store_wf :: "'s \<Rightarrow> bool"
  assumes get_after_set: "store_get (store_set k v s) k' = (if k' = k then Some v else store_get s k')"
    and get_after_del: "store_get (store_del k s) k' = (if k' = k then None else store_get s k')"
    and wf_set: "store_wf s \<Longrightarrow> store_wf (store_set k v s)"
    and wf_del: "store_wf s \<Longrightarrow> store_wf (store_del k s)"
    and iter_ordered: "store_wf s \<Longrightarrow> sorted_wrt (<) (map fst (store_iter s))"
    and iter_entries: "store_wf s \<Longrightarrow> (k, v) \<in> set (store_iter s) \<longleftrightarrow> store_get s k = Some v"
begin

lemma iter_keys: "store_wf s \<Longrightarrow> k \<in> fst ` set (store_iter s) \<longleftrightarrow> store_get s k \<noteq> None"
proof -
  assume "store_wf s"
  then have "k \<in> fst ` set (store_iter s) \<longleftrightarrow> (\<exists>v. store_get s k = Some v)"
    by (simp add: image_iff Bex_def iter_entries)
  then show ?thesis by simp
qed

lemma iter_after_set:
  "store_wf s \<Longrightarrow> set (store_iter (store_set k v s)) =
     insert (k, v) {e \<in> set (store_iter s). fst e \<noteq> k}"
  by (auto simp: iter_entries wf_set get_after_set split: if_splits)

lemma iter_empty_iff: "store_wf s \<Longrightarrow> store_iter s = [] \<longleftrightarrow> (\<forall>k. store_get s k = None)"
  using iter_keys by (metis image_is_empty set_empty all_not_in_conv)

text \<open>The first entry of an iterator has the least key, the first of a reverse iterator (the last
  entry) the greatest.\<close>

lemma iter_first:
  assumes "store_wf s" "store_iter s = (k, v) # es"
  shows "store_get s k = Some v \<and> (\<forall>k'. store_get s k' \<noteq> None \<longrightarrow> k \<le> k')"
proof -
  have "store_get s k = Some v" using assms by (auto simp: iter_entries [symmetric])
  moreover have "k \<le> k'" if "store_get s k' \<noteq> None" for k'
    using that assms iter_ordered [OF assms(1)] iter_keys [OF assms(1), of k'] by force
  ultimately show ?thesis by blast
qed

lemma iter_last:
  assumes "store_wf s" "store_iter s = es @ [(k, v)]"
  shows "store_get s k = Some v \<and> (\<forall>k'. store_get s k' \<noteq> None \<longrightarrow> k' \<le> k)"
proof -
  have "store_get s k = Some v" using assms by (auto simp: iter_entries [symmetric])
  moreover have "k' \<le> k" if "store_get s k' \<noteq> None" for k'
    using that assms iter_ordered [OF assms(1)] iter_keys [OF assms(1), of k']
    by (force simp: sorted_wrt_append)
  ultimately show ?thesis by blast
qed

text \<open>A sum over an iterator is a sum over the keys that are present.\<close>

lemma sum_iter:
  fixes g :: "'k \<Rightarrow> 'v \<Rightarrow> nat"
  assumes "store_wf s"
  shows "sum_list (map (\<lambda>(k, v). g k v) (store_iter s)) =
    (\<Sum>k\<in>{k. store_get s k \<noteq> None}. g k (the (store_get s k)))"
proof -
  have d: "distinct (map fst (store_iter s))"
    using iter_ordered [OF assms] by (simp add: strict_sorted_iff)
  have keys: "{k. store_get s k \<noteq> None} = fst ` set (store_iter s)"
    using iter_keys [OF assms] by blast
  have "sum_list (map (\<lambda>(k, v). g k v) (store_iter s)) =
      (\<Sum>e\<in>set (store_iter s). g (fst e) (snd e))"
    using d by (simp add: sum_list_distinct_conv_sum_set distinct_map case_prod_beta)
  also have "\<dots> = (\<Sum>e\<in>set (store_iter s). g (fst e) (the (store_get s (fst e))))"
    using iter_entries [OF assms] by (intro sum.cong) auto
  also have "\<dots> = (\<Sum>k\<in>fst ` set (store_iter s). g k (the (store_get s k)))"
    using d by (simp add: sum.reindex distinct_map)
  finally show ?thesis unfolding keys .
qed

end

interpretation kv: ordered_store kv_get kv_set kv_del "\<lambda>s. s" kv_wf
  by unfold_locales (simp_all add: kv_entries, simp add: kv_wf_def)

subsection \<open>Sorting slices\<close>

text \<open>Go's \<open>sort.SliceStable(xs, lt)\<close>: the sorted permutation in which elements that
  \<open>lt\<close> does not separate keep their order.\<close>

fun insert_stable :: "('a \<Rightarrow> 'a \<Rightarrow> bool) \<Rightarrow> 'a \<Rightarrow> 'a list \<Rightarrow> 'a list" where
  "insert_stable lt x [] = [x]"
| "insert_stable lt x (y # ys) =
     (if lt y x then y # insert_stable lt x ys else x # y # ys)"

definition sort_slice_stable :: "('a \<Rightarrow> 'a \<Rightarrow> bool) \<Rightarrow> 'a list \<Rightarrow> 'a list" where
  "sort_slice_stable lt xs = foldr (insert_stable lt) xs []"

lemma mset_insert_stable [simp]: "mset (insert_stable lt x ys) = add_mset x (mset ys)"
  by (induction lt x ys rule: insert_stable.induct) auto

lemma set_insert_stable [simp]: "set (insert_stable lt x ys) = insert x (set ys)"
  by (induction lt x ys rule: insert_stable.induct) auto

lemma mset_sort_slice [simp]: "mset (sort_slice_stable lt xs) = mset xs"
  by (induction xs) (auto simp: sort_slice_stable_def)

lemma set_sort_slice [simp]: "set (sort_slice_stable lt xs) = set xs"
  by (induction xs) (auto simp: sort_slice_stable_def)

lemma length_sort_slice [simp]: "length (sort_slice_stable lt xs) = length xs"
  by (metis mset_sort_slice size_mset)

lemma distinct_sort_slice [simp]: "distinct (sort_slice_stable lt xs) = distinct xs"
  by (metis mset_sort_slice mset_eq_imp_distinct_iff)

lemma sort_slice_Nil [simp]: "sort_slice_stable lt [] = []"
  by (simp add: sort_slice_stable_def)

lemma sort_slice_Cons: "sort_slice_stable lt (x # xs) = insert_stable lt x (sort_slice_stable lt xs)"
  by (simp add: sort_slice_stable_def)

text \<open>What \<open>sort.SliceStable\<close> asks of a comparison: a strict weak order.\<close>

locale slice_order =
  fixes lt :: "'a \<Rightarrow> 'a \<Rightarrow> bool"
  assumes less_irrefl: "\<not> lt x x"
    and less_trans: "lt x y \<Longrightarrow> lt y z \<Longrightarrow> lt x z"
    and less_neg_trans: "\<not> lt x y \<Longrightarrow> \<not> lt y z \<Longrightarrow> \<not> lt x z"
begin

abbreviation in_order :: "'a list \<Rightarrow> bool" where
  "in_order \<equiv> sorted_wrt (\<lambda>x y. \<not> lt y x)"

lemma less_asym: "lt x y \<Longrightarrow> \<not> lt y x"
  using less_irrefl less_trans by blast

lemma in_order_insert: "in_order ys \<Longrightarrow> in_order (insert_stable lt x ys)"
proof (induction ys)
  case (Cons y ys)
  have "\<not> lt z x" if "\<not> lt y x" "z \<in> set ys" for z
    using that Cons.prems less_neg_trans [of z y x] by simp
  with Cons show ?case by (auto dest: less_asym)
qed simp

lemma sort_in_order: "in_order (sort_slice_stable lt xs)"
  by (induction xs) (simp_all add: sort_slice_Cons in_order_insert)

lemma filter_insert:
  "in_order ys \<Longrightarrow> filter P (insert_stable lt x ys) =
     (if P x then insert_stable lt x (filter P ys) else filter P ys)"
proof (induction ys)
  case (Cons y ys)
  have "\<not> lt z x" if "\<not> lt y x" "z \<in> set ys" for z
    using that Cons.prems less_neg_trans [of z y x] by simp
  then have "insert_stable lt x (filter P ys) = x # filter P ys" if "\<not> lt y x"
    using that by (cases "filter P ys") (auto dest: filter_eq_ConsD)
  with Cons show ?case by auto
qed simp

lemma filter_sort: "filter P (sort_slice_stable lt xs) = sort_slice_stable lt (filter P xs)"
  by (induction xs) (simp_all add: sort_slice_Cons filter_insert sort_in_order)

text \<open>When every element with \<open>P\<close> comes before every element without it, sorting is sorting
  the two groups apart.\<close>

lemma sort_partition:
  assumes "\<And>x y. x \<in> set xs \<Longrightarrow> y \<in> set xs \<Longrightarrow> P x \<Longrightarrow> \<not> P y \<Longrightarrow> lt x y"
  shows "sort_slice_stable lt xs =
    sort_slice_stable lt (filter P xs) @ sort_slice_stable lt (filter (\<lambda>x. \<not> P x) xs)"
proof -
  have "ys = filter P ys @ filter (\<lambda>x. \<not> P x) ys"
    if "in_order ys" "\<And>x y. x \<in> set ys \<Longrightarrow> y \<in> set ys \<Longrightarrow> P x \<Longrightarrow> \<not> P y \<Longrightarrow> lt x y" for ys
    using that
  proof (induction ys)
    case (Cons y ys)
    have IH: "ys = filter P ys @ filter (\<lambda>x. \<not> P x) ys"
      using Cons by simp
    show ?case
    proof (cases "P y")
      case True
      then show ?thesis using IH by simp
    next
      case False
      have "\<not> P z" if "z \<in> set ys" for z
        using Cons.prems(1) Cons.prems(2) [of z y] that False by auto
      then show ?thesis using False by (simp add: filter_empty_conv filter_id_conv)
    qed
  qed simp
  from this [OF sort_in_order] assms show ?thesis by (simp add: filter_sort)
qed

end

text \<open>Go's \<open>sort.Search(n, f)\<close>.\<close>

function search_loop :: "(nat \<Rightarrow> bool) \<Rightarrow> nat \<Rightarrow> nat \<Rightarrow> nat" where
  "search_loop f i j =
     (if i < j
      then let h = (i + j) div 2 in if \<not> f h then search_loop f (h + 1) j else search_loop f i h
      else i)"
  by pat_completeness auto
termination
  by (relation "measure (\<lambda>(f, i, j). j - i)") auto

declare search_loop.simps [simp del]

definition sort_search :: "nat \<Rightarrow> (nat \<Rightarrow> bool) \<Rightarrow> nat" where
  "sort_search n f = search_loop f 0 n"

lemma search_loop_correct:
  assumes "i \<le> j" "\<And>a b. a \<le> b \<Longrightarrow> b < j \<Longrightarrow> f a \<Longrightarrow> f b"
  shows "i \<le> search_loop f i j \<and> search_loop f i j \<le> j \<and>
    (\<forall>k. i \<le> k \<and> k < search_loop f i j \<longrightarrow> \<not> f k) \<and>
    (search_loop f i j < j \<longrightarrow> f (search_loop f i j))"
  using assms
proof (induction f i j rule: search_loop.induct)
  case (1 f i j)
  define h where "h = (i + j) div 2"
  show ?case
  proof (cases "i < j")
    case True
    then have h: "i \<le> h" "h < j" by (auto simp: h_def)
    show ?thesis
    proof (cases "f h")
      case fh: True
      have eq: "search_loop f i j = search_loop f i h"
        using True fh by (simp add: search_loop.simps [of f i j] h_def Let_def)
      have "i \<le> search_loop f i h \<and> search_loop f i h \<le> h \<and>
          (\<forall>k. i \<le> k \<and> k < search_loop f i h \<longrightarrow> \<not> f k) \<and>
          (search_loop f i h < h \<longrightarrow> f (search_loop f i h))"
        using 1(2) [OF True h_def] fh h 1(4) by fastforce
      then show ?thesis using h fh unfolding eq by (metis le_eq_less_or_eq le_less_trans less_imp_le)
    next
      case fh: False
      have eq: "search_loop f i j = search_loop f (h + 1) j"
        using True fh by (simp add: search_loop.simps [of f i j] h_def Let_def)
      have IH: "h + 1 \<le> search_loop f (h + 1) j \<and> search_loop f (h + 1) j \<le> j \<and>
          (\<forall>k. h + 1 \<le> k \<and> k < search_loop f (h + 1) j \<longrightarrow> \<not> f k) \<and>
          (search_loop f (h + 1) j < j \<longrightarrow> f (search_loop f (h + 1) j))"
        using 1(1) [OF True h_def] fh h 1(4) by fastforce
      have "\<not> f k" if "k \<le> h" for k
        using 1(4) [OF that h(2)] fh by blast
      then show ?thesis using IH h unfolding eq
        by (metis Suc_eq_plus1 Suc_leI le_trans less_or_eq_imp_le not_less)
    qed
  next
    case False
    then have "search_loop f i j = i" by (simp add: search_loop.simps [of f i j])
    with False 1(3) show ?thesis by auto
  qed
qed

text \<open>On a monotone predicate \<open>sort.Search\<close> gives the least index where it holds, or \<open>n\<close>.\<close>

lemma sort_search_correct:
  assumes "\<And>a b. a \<le> b \<Longrightarrow> b < n \<Longrightarrow> f a \<Longrightarrow> f b"
  shows "sort_search n f \<le> n" "\<And>k. k < sort_search n f \<Longrightarrow> \<not> f k"
    "sort_search n f < n \<Longrightarrow> f (sort_search n f)"
  using search_loop_correct [of 0 n f] assms by (auto simp: sort_search_def)

end
