(* ===== verification/Data_Model.thy ===== *)
theory Data_Model
  imports Prelude
begin

text \<open>
  The data the keepers store and exchange, as records and datatypes with the fields and
  constructors of the generated Go structs, the modules' sentinel errors, the emitted events, and
  the two things every keeper method is given: the block context and the code that is not part of
  the repository.

  Conventions. A BIP-340 public key is its lower-case hexadecimal text (the result of
  \<open>MarshalHex\<close>), which identifies and orders keys as the 32 bytes do. An account address is
  its bytes (\<open>addr\<close>) or its bech32 text (\<open>string\<close>). Other byte strings are lists of characters. A \<open>LegacyDec\<close> is the integer number
  of \<open>10^(-18)\<close> units it holds. Times and durations are integers of nanoseconds, a time
  counted from the Unix epoch. A pointer or slice that the code compares with nil is an option.
\<close>

subsection \<open>Errors\<close>

datatype finality_error =
    ErrBlockNotFound | ErrVoteNotFound | ErrHeightTooHigh | ErrPubRandNotFound | ErrNoPubRandYet
  | ErrTooFewPubRand | ErrInvalidPubRand | ErrEvidenceNotFound | ErrInvalidFinalitySig
  | ErrDuplicatedFinalitySig | ErrNoSlashableEvidence | ErrPubRandCommitNotBTCTimestamped
  | ErrJailingPeriodNotPassed | ErrVotingPowerTableNotUpdated | ErrBTCStakingNotActivated
  | ErrFinalityNotActivated | ErrSigHeightOutdated | ErrOverflowInBlockHeight
  | ErrInvalidPubRandCommit | ErrInvalidResumeFinality | ErrFinalityProviderIsDeleted
  | ErrInvalidSats | ErrVotingPowerTableNotFound

datatype btcstaking_error =
    ErrFpNotFound | ErrBTCDelegatorNotFound | ErrBTCDelegationNotFound | ErrFpRegistered
  | ErrFpAlreadySlashed | ErrBTCHeightNotFound | ErrReusedStakingTx | ErrInvalidCovenantPK
  | ErrInvalidStakingTx | ErrInvalidSlashingTx | ErrInvalidCovenantSig | ErrCommissionLTMinRate
  | ErrCommissionGTMaxRate | ErrInvalidDelegationState | ErrInvalidUnbondingTx | ErrEmptyFpList
  | ErrTooManyFpKeys | ErrInvalidProofOfPossession | ErrDuplicatedFp | ErrInvalidBTCUndelegateReq
  | ErrParamsNotFound | ErrFpAlreadyJailed | ErrFpNotJailed | ErrDuplicatedCovenantSig
  | ErrStakingTxIncludedTooEarly | ErrEmptyCommissionRates | ErrLargestBtcReorgNotFound
  | ErrInvalidStakeExpansion | ErrBsFinalityProviderIsDeleted

text \<open>\<open>Lib\<close> is an error of a library the code calls, named by what failed; \<open>Errorf\<close> one
  that the code makes with \<open>fmt.Errorf\<close>; \<open>Panic\<close> a panic.\<close>

datatype error =
    Finality finality_error
  | BTCStaking btcstaking_error
  | Lib string
  | Errorf string
  | Panic string

type_synonym 'a result = "error + 'a"

subsection \<open>BTC staking\<close>

type_synonym dec = int

definition dec_one :: dec where
  "dec_one = 10 ^ 18"

datatype FinalityProviderStatus = FP_INACTIVE | FP_ACTIVE | FP_JAILED | FP_SLASHED

datatype BTCDelegationStatus = PENDING | VERIFIED | ACTIVE | UNBONDED | EXPIRED | ANY

record CommissionInfo =
  ci_MaxRate :: dec
  ci_MaxChangeRate :: dec
  ci_UpdateTime :: int

record FinalityProvider =
  fp_Addr :: string
  fp_Description :: "string option"
  fp_Commission :: "dec option"
  fp_BtcPk :: btcpk
  fp_Pop :: "bytes option"
  fp_SlashedBabylonHeight :: u64
  fp_SlashedBtcHeight :: u32
  fp_Jailed :: bool
  fp_HighestVotedHeight :: u32
  fp_CommissionInfo :: "CommissionInfo option"

record SignatureInfo =
  si_Pk :: btcpk
  si_Sig :: bytes

record CovenantAdaptorSignatures =
  cov_CovPk :: btcpk
  cov_AdaptorSigs :: "bytes list"

record DelegatorUnbondingInfo =
  dui_SpendStakeTx :: bytes

record BTCUndelegation =
  ud_UnbondingTx :: bytes
  ud_SlashingTx :: "bytes option"
  ud_DelegatorSlashingSig :: "bytes option"
  ud_CovenantSlashingSigs :: "CovenantAdaptorSignatures list"
  ud_CovenantUnbondingSigList :: "SignatureInfo list"
  ud_DelegatorUnbondingInfo :: "DelegatorUnbondingInfo option"

record StakeExpansion =
  se_PreviousStakingTxHash :: bytes
  se_OtherFundingTxOut :: bytes
  se_PreviousStkCovenantSigs :: "SignatureInfo list"

record BTCDelegation =
  bd_StakerAddr :: string
  bd_BtcPk :: btcpk
  bd_Pop :: "bytes option"
  bd_FpBtcPkList :: "btcpk list"
  bd_StakingTime :: u32
  bd_StartHeight :: u32
  bd_EndHeight :: u32
  bd_TotalSat :: u64
  bd_StakingTx :: bytes
  bd_StakingOutputIdx :: u32
  bd_SlashingTx :: "bytes option"
  bd_DelegatorSig :: "bytes option"
  bd_CovenantSigs :: "CovenantAdaptorSignatures list"
  bd_UnbondingTime :: u32
  bd_BtcUndelegation :: BTCUndelegation
  bd_ParamsVersion :: u32
  bd_BtcTipHeight :: u32
  bd_StkExp :: "StakeExpansion option"

text \<open>The oneof \<open>EventPowerDistUpdate\<close>: what changes the voting power distribution.\<close>

datatype EventPowerDistUpdate =
    BtcDelStateUpdate string BTCDelegationStatus
  | SlashedFp btcpk
  | JailedFp btcpk
  | UnjailedFp btcpk

record HeightVersionPair =
  hv_StartHeight :: u64
  hv_Version :: u32

text \<open>The module parameters, kept by version. A nil \<open>LegacyDec\<close> is None.\<close>

record BSParams =
  bp_CovenantPks :: "btcpk list"
  bp_CovenantQuorum :: u32
  bp_MinStakingValueSat :: int
  bp_MaxStakingValueSat :: int
  bp_MinStakingTimeBlocks :: u32
  bp_MaxStakingTimeBlocks :: u32
  bp_SlashingPkScript :: bytes
  bp_MinSlashingTxFeeSat :: int
  bp_SlashingRate :: dec
  bp_UnbondingTimeBlocks :: u32
  bp_UnbondingFeeSat :: int
  bp_MinCommissionRate :: "dec option"
  bp_DelegationCreationBaseGasFee :: u64
  bp_AllowListExpirationHeight :: u64
  bp_BtcActivationHeight :: u32

record StoredParams =
  sp_Version :: u32
  sp_Params :: BSParams

record CommissionRates =
  cr_Rate :: dec
  cr_MaxRate :: dec
  cr_MaxChangeRate :: dec

record MsgCreateFinalityProvider =
  mcfp_Addr :: string
  mcfp_Description :: "string option"
  mcfp_Commission :: CommissionRates
  mcfp_BtcPk :: btcpk
  mcfp_Pop :: "bytes option"

record MsgEditFinalityProvider =
  mefp_Addr :: string
  mefp_BtcPk :: btcpk
  mefp_Description :: "string option"
  mefp_Commission :: "dec option"

subsection \<open>Finality\<close>

record FinalityProviderDistInfo =
  di_BtcPk :: btcpk
  di_Addr :: addr
  di_Commission :: "dec option"
  di_TotalBondedSat :: u64
  di_IsTimestamped :: bool
  di_IsJailed :: bool
  di_IsSlashed :: bool

record VotingPowerDistCache =
  dc_TotalVotingPower :: u64
  dc_FinalityProviders :: "FinalityProviderDistInfo list"
  dc_NumActiveFps :: u32

record IndexedBlock =
  ib_Height :: u64
  ib_AppHash :: bytes
  ib_Finalized :: bool

record PubRandCommit =
  prc_StartHeight :: u64
  prc_NumPubRand :: u64
  prc_Commitment :: bytes
  prc_EpochNum :: u64

record Evidence =
  ev_FpBtcPk :: "btcpk option"
  ev_BlockHeight :: u64
  ev_PubRand :: "bytes option"
  ev_CanonicalAppHash :: bytes
  ev_ForkAppHash :: bytes
  ev_CanonicalFinalitySig :: "bytes option"
  ev_ForkFinalitySig :: "bytes option"

record FinalityProviderSigningInfo =
  fsi_FpBtcPk :: btcpk
  fsi_StartHeight :: int
  fsi_MissedBlocksCounter :: int
  fsi_JailedUntil :: int

record FinalityParams =
  fpar_MaxActiveFinalityProviders :: u32
  fpar_SignedBlocksWindow :: int
  fpar_FinalitySigTimeout :: int
  fpar_MinSignedPerWindow :: "dec option"
  fpar_MinPubRand :: u64
  fpar_JailDuration :: int
  fpar_FinalityActivationHeight :: u64

text \<open>The Merkle inclusion proof: the library's proof value with the two fields the code reads.\<close>

record Proof =
  pf_Total :: u64
  pf_Index :: u64
  pf_Bytes :: bytes

record MsgAddFinalitySig =
  mafs_Signer :: addr
  mafs_FpBtcPk :: "btcpk option"
  mafs_BlockHeight :: u64
  mafs_PubRand :: "bytes option"
  mafs_Proof :: "Proof option"
  mafs_BlockAppHash :: bytes
  mafs_FinalitySig :: "bytes option"

record MsgCommitPubRandList =
  mcpr_Signer :: addr
  mcpr_FpBtcPk :: "btcpk option"
  mcpr_StartHeight :: u64
  mcpr_NumPubRand :: u64
  mcpr_Commitment :: bytes
  mcpr_Sig :: "bytes option"

subsection \<open>Emitted events\<close>

datatype emitted =
    EventFinalityProviderStatusChange btcpk FinalityProviderStatus
  | EventBTCDelegationExpired string
  | EventSlashedFinalityProvider Evidence
  | EventJailedFinalityProvider btcpk
  | EventFinalityProviderCreated FinalityProvider
  | EventFinalityProviderEdited FinalityProvider
  | EventSelectiveSlashing btcpk
  | EventBTCDelegationCreated string
  | EventBTCDelegationInclusionProofReceived string u32 u32 BTCDelegationStatus
  | EventCovenantSignatureReceived string btcpk
  | EventCovenantQuorumReached string BTCDelegationStatus

subsection \<open>Block context and external code\<close>

text \<open>What a method reads from its context: the header of the current block, the tip and base
  heights of the BTC light client, and the epoching and checkpointing state that
  \<open>CheckpointingKeeper\<close> exposes.\<close>

record ctx =
  cx_Height :: int
  cx_Time :: int
  cx_AppHash :: bytes
  cx_BtcTip :: "u32 option"
  cx_BtcBase :: u32
  cx_LastFinalizedEpoch :: u64
  cx_CurrentEpoch :: "u64 option"
  cx_EpochByHeight :: "u64 \<Rightarrow> u64"

text \<open>\<open>uint64(HeaderInfo().Height)\<close>\<close>

definition cx_height :: "ctx \<Rightarrow> u64" where
  "cx_height c = word_of_int (cx_Height c)"

text \<open>Functions of libraries outside the repository, as parameters:
  \<open>sdk.AccAddressFromBech32\<close> and its inverse \<open>AccAddress.String\<close>, \<open>schnorr.ParsePubKey\<close>
  (whether it accepts), \<open>chainhash.NewHashFromStr\<close> and its inverse \<open>String\<close>, the hash of a serialised BTC transaction,
  \<open>merkle.Proof.Verify\<close>, the EOTS verification of \<open>crypto/eots\<close> over the curve library,
  the Schnorr verification, \<open>tmhash\<close>, \<open>LegacyDec.RoundInt64\<close>, the floating-point product of
  an amount and a rate (\<open>LegacyDec.Float64\<close> and \<open>Amount.MulF64\<close>, None when the conversion
  fails), and \<open>mempool.IsDust\<close> of an output.\<close>

record ext =
  ext_bech32 :: "string \<Rightarrow> addr option"
  ext_bech32_str :: "addr \<Rightarrow> string"
  ext_pubkey_ok :: "btcpk \<Rightarrow> bool"
  ext_hash_from_str :: "string \<Rightarrow> bytes option"
  ext_hash_str :: "bytes \<Rightarrow> string"
  ext_tx_hash :: "bytes \<Rightarrow> bytes option"
  ext_merkle_verify :: "Proof \<Rightarrow> bytes \<Rightarrow> bytes \<Rightarrow> bool"
  ext_eots_verify :: "btcpk \<Rightarrow> bytes \<Rightarrow> bytes \<Rightarrow> bytes \<Rightarrow> bool"
  ext_schnorr_verify :: "bytes \<Rightarrow> bytes \<Rightarrow> btcpk \<Rightarrow> bool"
  ext_tmhash :: "bytes \<Rightarrow> bytes"
  ext_round_int :: "dec \<Rightarrow> int"
  ext_mul_f64 :: "int \<Rightarrow> dec \<Rightarrow> int option"
  ext_is_dust :: "int \<Rightarrow> bytes \<Rightarrow> bool"
  ext_pop_verify :: "bytes option \<Rightarrow> addr \<Rightarrow> btcpk \<Rightarrow> bool"

subsection \<open>Keys\<close>

definition is_hex_digit :: "char \<Rightarrow> bool" where
  "is_hex_digit ch \<longleftrightarrow> ch \<in> set ''0123456789abcdefABCDEF''"

text \<open>ASCII lower case, and \<open>strings.EqualFold\<close> on ASCII text.\<close>

definition to_lower :: "char \<Rightarrow> char" where
  "to_lower ch = (let n = of_char ch :: nat in if 65 \<le> n \<and> n \<le> 90 then char_of (n + 32) else ch)"

definition EqualFold :: "string \<Rightarrow> string \<Rightarrow> bool" where
  "EqualFold s t \<longleftrightarrow> map to_lower s = map to_lower t"

text \<open>\<open>BIP340PubKeyLen\<close> bytes are twice as many digits. \<open>hex.DecodeString\<close> takes digits of
  either case.\<close>

definition BIP340PubKeyLen :: nat where
  "BIP340PubKeyLen = 32"

definition pk_size :: "btcpk \<Rightarrow> nat" where
  "pk_size pk = length pk div 2"

definition NewBIP340PubKeyFromHex :: "string \<Rightarrow> btcpk result" where
  "NewBIP340PubKeyFromHex s =
     (if odd (length s) \<or> \<not> list_all is_hex_digit s then Inl (Lib ''hex.DecodeString'')
      else if length s div 2 \<noteq> BIP340PubKeyLen
        then Inl (Errorf ''malformed data for BIP340 public key'')
      else Inr (map to_lower s))"

subsection \<open>Sample values\<close>

text \<open>External code that accepts what it is given, and a context with a BTC tip: the inputs of the
  witnesses.\<close>

definition sample_ext :: ext where
  "sample_ext = \<lparr>ext_bech32 = Some, ext_bech32_str = id, ext_pubkey_ok = (\<lambda>_. True),
     ext_hash_from_str = Some, ext_hash_str = id, ext_tx_hash = Some,
     ext_merkle_verify = (\<lambda>_ _ _. True), ext_eots_verify = (\<lambda>_ _ _ _. True),
     ext_schnorr_verify = (\<lambda>_ _ _. True), ext_tmhash = id,
     ext_round_int = (\<lambda>d. d div dec_one),
     ext_mul_f64 = (\<lambda>a r. Some (a * r div dec_one)), ext_is_dust = (\<lambda>a _. a < 546),
     ext_pop_verify = (\<lambda>_ _ _. True)\<rparr>"

definition sample_ctx :: "int \<Rightarrow> ctx" where
  "sample_ctx h = \<lparr>cx_Height = h, cx_Time = 0, cx_AppHash = ''hash'', cx_BtcTip = Some 100,
     cx_BtcBase = 1, cx_LastFinalizedEpoch = 5, cx_CurrentEpoch = Some 6,
     cx_EpochByHeight = (\<lambda>_. 1)\<rparr>"

end
