(* ===== verification/BTCStaking_Params.thy ===== *)
theory BTCStaking_Params
  imports Data_Model
begin

text \<open>
  The versioned parameters of \<open>x/btcstaking\<close>: \<open>Params.Validate\<close>, the height-to-version map
  (\<open>types/params.go\<close>) and the keeper's parameter store (\<open>keeper/params.go\<close>). A governance proposal
  adds a version that takes effect at a BTC height; a delegation is validated under the version in
  force at its inclusion height. The invariant \<open>params_inv\<close> ties the map to the store; the last
  lemmas show that a height reads the parameters with the latest activation at or below it.
\<close>

subsection \<open>Validation\<close>

definition MaxUint16 :: u32 where
  "MaxUint16 = 65535"

definition validateMinSlashingTxFeeSat :: "int \<Rightarrow> unit result" where
  "validateMinSlashingTxFeeSat fee =
     (if fee \<le> 0 then Inl (Errorf ''minimum slashing tx fee has to be positive'') else Inr ())"

definition validateMinCommissionRate :: "dec option \<Rightarrow> unit result" where
  "validateMinCommissionRate rate = (case rate of
       None \<Rightarrow> Inl (Errorf ''minimum commission rate cannot be nil'')
     | Some r \<Rightarrow>
         if r < 0 then Inl (Errorf ''minimum commission rate cannot be negative'')
         else if r > dec_one then Inl (Errorf ''minimum commission rate cannot be greater than 100%'')
         else Inr ())"

text \<open>\<open>seen\<close> is the Go map of the keys met so far.\<close>

fun ExistsDup_loop :: "ext \<Rightarrow> btcpk list \<Rightarrow> btcpk list \<Rightarrow> bool result" where
  "ExistsDup_loop x seen [] = Inr False"
| "ExistsDup_loop x seen (pk # pks) =
     (if \<not> ext_pubkey_ok x pk then Inl (Lib ''ToBTCPK'')
      else if pk \<in> set seen then Inr True
      else ExistsDup_loop x (pk # seen) pks)"

definition ExistsDup :: "ext \<Rightarrow> btcpk list \<Rightarrow> bool result" where
  "ExistsDup x pks = ExistsDup_loop x [] pks"

definition validateCovenantPks :: "ext \<Rightarrow> btcpk list \<Rightarrow> unit result" where
  "validateCovenantPks x pks = bindR (ExistsDup x pks) (\<lambda>dup.
     if dup then Inl (Errorf ''duplicate covenant key'') else Inr ())"

definition validateUnbondingTime :: "u32 \<Rightarrow> unit result" where
  "validateUnbondingTime t =
     (if t > MaxUint16 then Inl (Errorf ''minimum unbonding time blocks cannot be greater than 65535'')
      else Inr ())"

definition validateStakingAmout :: "int \<Rightarrow> int \<Rightarrow> unit result" where
  "validateStakingAmout mn mx =
     (if mn \<le> 0 then Inl (Errorf ''minimum staking amount has to be positive'')
      else if mx \<le> 0 then Inl (Errorf ''maximum staking amount has to be positive'')
      else if mn > mx
        then Inl (Errorf ''minimum staking amount cannot be greater than maximum staking amount'')
      else Inr ())"

definition validateStakingTime :: "u32 \<Rightarrow> u32 \<Rightarrow> unit result" where
  "validateStakingTime mn mx =
     (if mn = 0 then Inl (Errorf ''minimum staking time has to be positive'')
      else if mn > MaxUint16 then Inl (Errorf ''minimum staking time cannot be greater than 65535'')
      else if mx = 0 then Inl (Errorf ''maximum staking time has to be positive'')
      else if mx > MaxUint16 then Inl (Errorf ''maximum staking time cannot be greater than 65535'')
      else if mn > mx
        then Inl (Errorf ''minimum staking time cannot be greater than maximum staking time'')
      else Inr ())"

text \<open>\<open>txscript.OP_RETURN\<close> is the byte 0x6a.\<close>

definition validateNoDustSlashingOutput :: "ext \<Rightarrow> BSParams \<Rightarrow> unit result" where
  "validateNoDustSlashingOutput x p =
     (if bp_SlashingPkScript p \<noteq> [] \<and> hd (bp_SlashingPkScript p) = CHR 0x6A then Inr ()
      else bindR
        (option_to_result (Errorf ''error converting slashing rate to float64'')
          (ext_mul_f64 x (bp_MinStakingValueSat p - bp_UnbondingFeeSat p) (bp_SlashingRate p)))
        (\<lambda>amount. if ext_is_dust x amount (bp_SlashingPkScript p)
           then Inl (Errorf ''invalid parameters configuration. Minimum slashing output is dust'')
           else Inr ()))"

text \<open>\<open>btcstaking.IsSlashingRateValid\<close>: between 0 and 1, with at most four decimals. Multiplying
  a \<open>LegacyDec\<close> by the whole number 10000 is exact.\<close>

definition IsSlashingRateValid :: "dec \<Rightarrow> bool" where
  "IsSlashingRateValid rate =
     (if rate \<le> 0 \<or> rate \<ge> dec_one then False
      else let multipliedRate = rate * 10000;
               truncatedRate = (multipliedRate div dec_one) * dec_one
           in multipliedRate = truncatedRate)"

definition Params_Validate :: "ext \<Rightarrow> BSParams \<Rightarrow> unit result" where
  "Params_Validate x p =
     guardR (bp_CovenantQuorum p = 0) (Errorf ''covenant quorum size has to be positive'')
    (guardR (unat (bp_CovenantQuorum p) * 2 \<le> length (bp_CovenantPks p))
       (Errorf ''covenant quorum size has to be more than 1/2 of the covenant committee size'')
    (bindR (validateStakingAmout (bp_MinStakingValueSat p) (bp_MaxStakingValueSat p)) (\<lambda>_.
     bindR (validateStakingTime (bp_MinStakingTimeBlocks p) (bp_MaxStakingTimeBlocks p)) (\<lambda>_.
     bindR (validateCovenantPks x (bp_CovenantPks p)) (\<lambda>_.
     bindR (validateMinSlashingTxFeeSat (bp_MinSlashingTxFeeSat p)) (\<lambda>_.
     bindR (validateMinCommissionRate (bp_MinCommissionRate p)) (\<lambda>_.
     guardR (\<not> IsSlashingRateValid (bp_SlashingRate p)) (Lib ''ErrInvalidSlashingRate'')
    (guardR (bp_UnbondingFeeSat p \<le> 0 \<or> bp_UnbondingFeeSat p \<ge> bp_MinStakingValueSat p)
       (Lib ''ErrInvalidUnbondingFee'')
    (bindR (validateNoDustSlashingOutput x p) (\<lambda>_.
     validateUnbondingTime (bp_UnbondingTimeBlocks p)))))))))))"

definition HasCovenantPK :: "BSParams \<Rightarrow> btcpk \<Rightarrow> bool" where
  "HasCovenantPK p pk = list_ex (\<lambda>pk2. pk2 = pk) (bp_CovenantPks p)"

subsection \<open>The height-to-version map\<close>

type_synonym HeightToVersionMap = "HeightVersionPair list"

definition NewHeightVersionPair :: "u64 \<Rightarrow> u32 \<Rightarrow> HeightVersionPair" where
  "NewHeightVersionPair h v = \<lparr>hv_StartHeight = h, hv_Version = v\<rparr>"

definition NewHeightToVersionMap :: HeightToVersionMap where
  "NewHeightToVersionMap = []"

definition GetLastPair :: "HeightToVersionMap \<Rightarrow> HeightVersionPair option" where
  "GetLastPair m = (if m = [] then None else Some (m ! (length m - 1)))"

definition AddPair :: "HeightToVersionMap \<Rightarrow> HeightVersionPair \<Rightarrow> HeightToVersionMap result" where
  "AddPair m newPair = (case GetLastPair m of
       None \<Rightarrow>
         if hv_Version newPair \<noteq> 0 then Inl (Errorf ''version must be 0 for the first pair'')
         else Inr (m @ [newPair])
     | Some lastPair \<Rightarrow>
         if hv_StartHeight newPair \<le> hv_StartHeight lastPair
           then Inl (Errorf ''pairs must be sorted by start height in ascending order'')
         else if hv_Version newPair \<noteq> hv_Version lastPair + 1
           then Inl (Errorf ''versions must be strictly increasing'')
         else Inr (m @ [newPair]))"

definition AddNewPair :: "HeightToVersionMap \<Rightarrow> u64 \<Rightarrow> u32 \<Rightarrow> HeightToVersionMap result" where
  "AddNewPair m h v = AddPair m (NewHeightVersionPair h v)"

definition NewHeightToVersionMapFromPairs :: "HeightVersionPair list \<Rightarrow> HeightToVersionMap result" where
  "NewHeightToVersionMapFromPairs ps =
     (if ps = []
      then Inl (Errorf ''can't construct HeightToVersionMap from empty list of HeightVersionPair'')
      else foldR AddPair NewHeightToVersionMap ps)"

text \<open>\<open>sort.Search(...) - 1\<close> may be negative in Go; here the comparison is made before.\<close>

definition GetVersionForHeight :: "HeightToVersionMap \<Rightarrow> u64 \<Rightarrow> u32 result" where
  "GetVersionForHeight m height =
     (if m = [] then Inl (Errorf ''height to version map is empty'')
      else let idx = sort_search (length m) (\<lambda>i. hv_StartHeight (m ! i) > height)
           in if idx = 0 then Inl (Errorf ''no parameters found for block height'')
              else Inr (hv_Version (m ! (idx - 1))))"

fun validate_pairs :: "HeightVersionPair \<Rightarrow> HeightVersionPair list \<Rightarrow> unit result" where
  "validate_pairs prev [] = Inr ()"
| "validate_pairs prev (pair # ps) =
     (if hv_StartHeight pair \<le> hv_StartHeight prev
        then Inl (Errorf ''pairs must be sorted by start height in ascending order'')
      else if hv_Version pair \<noteq> hv_Version prev + 1
        then Inl (Errorf ''versions must be strictly increasing'')
      else validate_pairs pair ps)"

definition HeightToVersionMap_Validate :: "HeightToVersionMap \<Rightarrow> unit result" where
  "HeightToVersionMap_Validate m = (case m of
       [] \<Rightarrow> Inl (Errorf ''height to version map is empty'')
     | [p] \<Rightarrow> if hv_Version p \<noteq> 0 then Inl (Errorf ''version must be 0 for the first pair'') else Inr ()
     | p # ps \<Rightarrow> validate_pairs p ps)"

subsection \<open>The parameter store\<close>

record params_state =
  ps_params :: "(u32, StoredParams) kv"
  ps_height_to_version :: "HeightToVersionMap option"

definition nextParamsVersion :: "params_state \<Rightarrow> u32" where
  "nextParamsVersion s = (if ps_params s = [] then 0 else fst (last (ps_params s)) + 1)"

definition getLastParams :: "params_state \<Rightarrow> StoredParams option" where
  "getLastParams s = (if ps_params s = [] then None else Some (snd (last (ps_params s))))"

definition SetHeightToVersionMap :: "HeightToVersionMap \<Rightarrow> params_state \<Rightarrow> params_state result" where
  "SetHeightToVersionMap m s =
     bindR (HeightToVersionMap_Validate m) (\<lambda>_. Inr (s\<lparr>ps_height_to_version := Some m\<rparr>))"

definition GetHeightToVersionMap :: "params_state \<Rightarrow> HeightToVersionMap option" where
  "GetHeightToVersionMap s = ps_height_to_version s"

definition SetParams :: "ext \<Rightarrow> BSParams \<Rightarrow> params_state \<Rightarrow> params_state result" where
  "SetParams x p s =
     bindR (Params_Validate x p) (\<lambda>_.
     let m = (case GetHeightToVersionMap s of None \<Rightarrow> NewHeightToVersionMap | Some m \<Rightarrow> m);
         nextVersion = nextParamsVersion s
     in bindR (AddNewPair m (ucast (bp_BtcActivationHeight p)) nextVersion) (\<lambda>m'.
        let sp = \<lparr>sp_Version = nextVersion, sp_Params = p\<rparr>
        in SetHeightToVersionMap m' (s\<lparr>ps_params := kv_set nextVersion sp (ps_params s)\<rparr>)))"

text \<open>Used by upgrades and genesis. The versions of a valid map are distinct, so that the unstable
  \<open>sort.Slice\<close> of the code and a stable sort agree.\<close>

definition OverwriteParamsAtVersion :: "ext \<Rightarrow> u32 \<Rightarrow> BSParams \<Rightarrow> params_state \<Rightarrow> params_state result" where
  "OverwriteParamsAtVersion x v p s =
     bindR (Params_Validate x p) (\<lambda>_.
     let sp = \<lparr>sp_Version = v, sp_Params = p\<rparr>;
         m = (case GetHeightToVersionMap s of None \<Rightarrow> NewHeightToVersionMap | Some m \<Rightarrow> m);
         m1 = sort_slice_stable (\<lambda>a b. hv_Version a < hv_Version b) m
     in bindR
          (if v \<ge> word_of_nat (length m1) then AddNewPair m1 (ucast (bp_BtcActivationHeight p)) v
           else Inr (m1[unat v := NewHeightVersionPair (ucast (bp_BtcActivationHeight p)) v]))
          (\<lambda>m2. SetHeightToVersionMap m2 (s\<lparr>ps_params := kv_set v sp (ps_params s)\<rparr>)))"

definition GetAllParams :: "params_state \<Rightarrow> BSParams list" where
  "GetAllParams s = map (sp_Params \<circ> snd) (ps_params s)"

definition GetParamsByVersion :: "params_state \<Rightarrow> u32 \<Rightarrow> BSParams option" where
  "GetParamsByVersion s v = map_option sp_Params (kv_get (ps_params s) v)"

definition mustGetLastParams :: "params_state \<Rightarrow> StoredParams result" where
  "mustGetLastParams s = option_to_result (Panic ''last params not found'') (getLastParams s)"

definition GetParams :: "params_state \<Rightarrow> BSParams result" where
  "GetParams s = bindR (mustGetLastParams s) (\<lambda>sp. Inr (sp_Params sp))"

definition GetParamsWithVersion :: "params_state \<Rightarrow> StoredParams result" where
  "GetParamsWithVersion s = mustGetLastParams s"

definition MinCommissionRate :: "params_state \<Rightarrow> dec option result" where
  "MinCommissionRate s = bindR (GetParams s) (\<lambda>p. Inr (bp_MinCommissionRate p))"

definition GetParamsForBtcHeight :: "params_state \<Rightarrow> u64 \<Rightarrow> (BSParams option \<times> u32) result" where
  "GetParamsForBtcHeight s height = (case GetHeightToVersionMap s of
       None \<Rightarrow> Inl (Panic ''height to version map not found'')
     | Some m \<Rightarrow> bindR (GetVersionForHeight m height) (\<lambda>version.
         Inr (GetParamsByVersion s version, version)))"

subsection \<open>The invariant of the versions\<close>

definition htv_inv :: "HeightToVersionMap \<Rightarrow> bool" where
  "htv_inv m \<longleftrightarrow> sorted_wrt (\<lambda>a b. hv_StartHeight a < hv_StartHeight b) m \<and>
     map hv_Version m = map word_of_nat [0..<length m]"

definition versions_of :: "params_state \<Rightarrow> HeightToVersionMap" where
  "versions_of s = (case ps_height_to_version s of None \<Rightarrow> [] | Some m \<Rightarrow> m)"

text \<open>The pair of a version has the activation height of the parameters stored under it.\<close>

definition stored_as :: "HeightVersionPair \<Rightarrow> u32 \<times> StoredParams \<Rightarrow> bool" where
  "stored_as pair e \<longleftrightarrow> hv_Version pair = fst e \<and> sp_Version (snd e) = fst e \<and>
     hv_StartHeight pair = ucast (bp_BtcActivationHeight (sp_Params (snd e)))"

definition params_inv :: "params_state \<Rightarrow> bool" where
  "params_inv s \<longleftrightarrow> htv_inv (versions_of s) \<and> length (versions_of s) \<le> 2 ^ 32 \<and>
     list_all2 stored_as (versions_of s) (ps_params s)"

lemma htv_inv_version:
  assumes "htv_inv m" "i < length m"
  shows "hv_Version (m ! i) = word_of_nat i"
proof -
  have "map hv_Version m ! i = map word_of_nat [0..<length m] ! i"
    using assms(1) by (simp add: htv_inv_def)
  with assms(2) show ?thesis by simp
qed

lemma AddPair_htv_inv:
  assumes "AddPair m p = Inr m'" "htv_inv m"
  shows "htv_inv m'" "m' = m @ [p]"
proof -
  show m': "m' = m @ [p]"
    using assms(1) by (auto simp: AddPair_def split: option.splits if_splits)
  show "htv_inv m'"
  proof (cases "m = []")
    case True
    then show ?thesis
      using assms(1) by (auto simp: m' htv_inv_def AddPair_def GetLastPair_def split: if_splits)
  next
    case False
    then have "0 < length m" by simp
    then have v: "hv_Version (m ! (length m - 1)) = word_of_nat (length m - 1)"
      by (intro htv_inv_version [OF assms(2)]) simp
    have last: "hv_StartHeight (last m) < hv_StartHeight p" "hv_Version p = word_of_nat (length m)"
      using assms(1) False v of_nat_Suc [of "length m - 1", where 'a = u32] \<open>0 < length m\<close>
      by (auto simp: AddPair_def GetLastPair_def last_conv_nth not_le add.commute split: if_splits)
    have "hv_StartHeight a \<le> hv_StartHeight (last m)" if "a \<in> set m" for a
      using assms(2) that False unfolding htv_inv_def
      by (cases m rule: rev_cases) (auto simp: sorted_wrt_append intro: less_imp_le)
    with last(1) have "hv_StartHeight a < hv_StartHeight p" if "a \<in> set m" for a
      using that by (meson le_less_trans)
    with last(2) assms(2) show ?thesis
      by (simp add: m' htv_inv_def sorted_wrt_append)
  qed
qed

text \<open>The binary search finds the last pair that starts at or below the height.\<close>

lemma sorted_wrt_filter_prefix:
  assumes "sorted_wrt (\<lambda>a b. f a < (f b :: 'b::linorder)) xs" "n \<le> length xs"
    and "\<And>k. k < n \<Longrightarrow> f (xs ! k) \<le> h" "\<And>k. n \<le> k \<Longrightarrow> k < length xs \<Longrightarrow> h < f (xs ! k)"
  shows "filter (\<lambda>a. f a \<le> h) xs = take n xs"
proof -
  have "filter (\<lambda>a. f a \<le> h) (take n xs) = take n xs"
    using assms(2,3) by (auto simp: filter_id_conv in_set_conv_nth)
  moreover have "filter (\<lambda>a. f a \<le> h) (drop n xs) = []"
    using assms(2,4) by (auto simp: filter_empty_conv in_set_conv_nth not_le)
  ultimately have "filter (\<lambda>a. f a \<le> h) (take n xs @ drop n xs) = take n xs"
    by (simp only: filter_append append_Nil2)
  then show ?thesis by simp
qed

lemma search_prefix:
  fixes m :: HeightToVersionMap and h :: u64
  assumes "sorted_wrt (\<lambda>a b. hv_StartHeight a < hv_StartHeight b) m"
  defines "idx \<equiv> sort_search (length m) (\<lambda>i. hv_StartHeight (m ! i) > h)"
  shows "idx \<le> length m" "filter (\<lambda>a. hv_StartHeight a \<le> h) m = take idx m"
proof -
  have mono: "hv_StartHeight (m ! a) > h \<Longrightarrow> hv_StartHeight (m ! b) > h"
    if "a \<le> b" "b < length m" for a b
    using that assms(1) by (cases "a = b") (auto simp: sorted_wrt_iff_nth_less intro: less_trans)
  note search = sort_search_correct [of "length m" "\<lambda>i. hv_StartHeight (m ! i) > h", OF mono]
  show le: "idx \<le> length m" unfolding idx_def by (rule search(1))
  show "filter (\<lambda>a. hv_StartHeight a \<le> h) m = take idx m"
  proof (rule sorted_wrt_filter_prefix [OF assms(1) le])
    show "hv_StartHeight (m ! k) \<le> h" if "k < idx" for k
      using search(2) that by (simp add: idx_def not_less)
    show "h < hv_StartHeight (m ! k)" if "idx \<le> k" "k < length m" for k
      using search(3) mono [of idx k] that by (simp add: idx_def)
  qed
qed

lemma GetVersionForHeight_spec:
  assumes "htv_inv m" "m \<noteq> []"
  shows "GetVersionForHeight m h =
    (let n = length (filter (\<lambda>a. hv_StartHeight a \<le> h) m)
     in if n = 0 then Inl (Errorf ''no parameters found for block height'')
        else Inr (word_of_nat (n - 1)))"
proof -
  define idx where "idx = sort_search (length m) (\<lambda>i. hv_StartHeight (m ! i) > h)"
  have le: "idx \<le> length m" and f: "filter (\<lambda>a. hv_StartHeight a \<le> h) m = take idx m"
    using search_prefix [of m h] assms(1) by (auto simp: htv_inv_def idx_def)
  have "length (filter (\<lambda>a. hv_StartHeight a \<le> h) m) = idx"
    using le by (simp add: f)
  moreover have "hv_Version (m ! (idx - 1)) = word_of_nat (idx - 1)" if "idx \<noteq> 0"
    using that le by (intro htv_inv_version [OF assms(1)]) simp
  ultimately show ?thesis
    using assms(2) by (simp add: GetVersionForHeight_def idx_def [symmetric] Let_def)
qed

lemma params_inv_keys:
  assumes "params_inv s"
  shows "map fst (ps_params s) = map word_of_nat [0..<length (ps_params s)]"
    "length (versions_of s) = length (ps_params s)"
proof -
  have l: "list_all2 stored_as (versions_of s) (ps_params s)"
    using assms by (simp add: params_inv_def)
  then show len: "length (versions_of s) = length (ps_params s)" by (rule list_all2_lengthD)
  have "map hv_Version (versions_of s) = map fst (ps_params s)"
    using l by (auto simp: list_all2_conv_all_nth stored_as_def intro: nth_equalityI)
  with len show "map fst (ps_params s) = map word_of_nat [0..<length (ps_params s)]"
    using assms by (simp add: params_inv_def htv_inv_def)
qed

lemma word_of_nat_less: "a < b \<Longrightarrow> b < 2 ^ 32 \<Longrightarrow> (word_of_nat a :: u32) < word_of_nat b"
  by (simp add: word_less_nat_alt unat_of_nat)

lemma params_inv_wf:
  assumes "params_inv s"
  shows "kv_wf (ps_params s)"
proof -
  have "length (ps_params s) \<le> 2 ^ 32"
    using assms params_inv_keys(2) [OF assms] by (simp add: params_inv_def)
  then show ?thesis
    unfolding kv_wf_def params_inv_keys(1) [OF assms]
    by (simp add: sorted_wrt_iff_nth_less word_of_nat_less)
qed

lemma GetParamsByVersion_nth:
  assumes "params_inv s" "i < length (ps_params s)"
  shows "GetParamsByVersion s (word_of_nat i) = Some (GetAllParams s ! i)"
proof -
  have "fst (ps_params s ! i) = map fst (ps_params s) ! i" using assms(2) by simp
  also have "\<dots> = word_of_nat i"
    unfolding params_inv_keys(1) [OF assms(1)] using assms(2) by simp
  finally have "(word_of_nat i, snd (ps_params s ! i)) \<in> set (ps_params s)"
    using assms(2) by (metis nth_mem prod.collapse)
  then have "kv_get (ps_params s) (word_of_nat i) = Some (snd (ps_params s ! i))"
    by (simp add: kv_entries [OF params_inv_wf [OF assms(1)]])
  then show ?thesis using assms(2) by (simp add: GetParamsByVersion_def GetAllParams_def)
qed

lemma filter_le_prefix:
  fixes f :: "'a \<Rightarrow> 'b::linorder"
  assumes "sorted_wrt (\<lambda>a b. f a < f b) xs"
  shows "filter (\<lambda>a. f a \<le> h) xs = take (length (filter (\<lambda>a. f a \<le> h) xs)) xs"
  using assms
proof (induction xs)
  case (Cons a xs)
  have "filter (\<lambda>a. f a \<le> h) xs = []" if "\<not> f a \<le> h"
    using Cons.prems that by (auto simp: filter_empty_conv)
  with Cons show ?case by auto
qed simp

text \<open>The activation height of parameters, as the heights of the map.\<close>

abbreviation activation :: "BSParams \<Rightarrow> u64" where
  "activation p \<equiv> ucast (bp_BtcActivationHeight p)"

lemma params_inv_heights:
  assumes "params_inv s"
  shows "map hv_StartHeight (versions_of s) = map activation (GetAllParams s)"
    "sorted_wrt (\<lambda>a b. activation a < activation b) (GetAllParams s)"
proof -
  show eq: "map hv_StartHeight (versions_of s) = map activation (GetAllParams s)"
    using assms by (auto simp: params_inv_def list_all2_conv_all_nth stored_as_def GetAllParams_def
      intro!: nth_equalityI)
  have "sorted_wrt (<) (map hv_StartHeight (versions_of s))"
    using assms by (simp add: params_inv_def htv_inv_def sorted_wrt_map)
  then show "sorted_wrt (\<lambda>a b. activation a < activation b) (GetAllParams s)"
    unfolding eq by (simp add: sorted_wrt_map)
qed

lemma versions_of_Some: "versions_of s \<noteq> [] \<Longrightarrow> GetHeightToVersionMap s = Some (versions_of s)"
  by (auto simp: versions_of_def GetHeightToVersionMap_def split: option.splits)

text \<open>A height reads the last version that is active at it.\<close>

lemma GetParamsForBtcHeight_spec:
  assumes inv: "params_inv s" and "GetAllParams s \<noteq> []"
  shows "GetParamsForBtcHeight s h =
    (let older = filter (\<lambda>p. activation p \<le> h) (GetAllParams s)
     in if older = [] then Inl (Errorf ''no parameters found for block height'')
        else Inr (Some (last older), word_of_nat (length older - 1)))"
proof -
  define older where "older = filter (\<lambda>p. activation p \<le> h) (GetAllParams s)"
  have len: "length (versions_of s) = length (GetAllParams s)"
    using params_inv_keys(2) [OF inv] by (simp add: GetAllParams_def)
  then have ne: "versions_of s \<noteq> []" using assms(2) by auto
  have htv: "htv_inv (versions_of s)" using inv by (simp add: params_inv_def)
  have "length (filter (\<lambda>a. hv_StartHeight a \<le> h) (versions_of s)) =
      length (filter (\<lambda>k. k \<le> h) (map hv_StartHeight (versions_of s)))"
    by (simp add: filter_map comp_def)
  also have "\<dots> = length older"
    unfolding params_inv_heights(1) [OF inv] older_def by (simp add: filter_map comp_def)
  finally have n: "length (filter (\<lambda>a. hv_StartHeight a \<le> h) (versions_of s)) = length older" .
  have pre: "older = take (length older) (GetAllParams s)"
    unfolding older_def by (rule filter_le_prefix [OF params_inv_heights(2) [OF inv]])
  have "length older \<le> length (GetAllParams s)" "0 < length (GetAllParams s)"
    using assms(2) by (simp_all add: older_def)
  then have lt: "length older - 1 < length (GetAllParams s)" by linarith
  have "GetParamsByVersion s (word_of_nat (length older - 1)) = Some (last older)" if "older \<noteq> []"
  proof -
    have "last older = older ! (length older - 1)" by (rule last_conv_nth [OF that])
    also have "\<dots> = GetAllParams s ! (length older - 1)"
      using that by (subst pre) simp
    finally show ?thesis
      using GetParamsByVersion_nth [OF inv, of "length older - 1"] lt by (simp add: GetAllParams_def)
  qed
  then show ?thesis
    by (auto simp: GetParamsForBtcHeight_def versions_of_Some [OF ne]
      GetVersionForHeight_spec [OF htv ne] n older_def [symmetric] Let_def)
qed

lemma nextParamsVersion_length:
  assumes "params_inv s"
  shows "nextParamsVersion s = word_of_nat (length (ps_params s))"
proof (cases "ps_params s" rule: rev_cases)
  case (snoc es e)
  have "map fst (ps_params s) ! length es = word_of_nat (length es)"
    unfolding params_inv_keys(1) [OF assms] by (simp add: snoc del: upt_Suc)
  then have "fst e = word_of_nat (length es)" by (simp add: snoc nth_append)
  then show ?thesis by (simp add: nextParamsVersion_def snoc add.commute)
qed (simp add: nextParamsVersion_def)

lemma SetParams_appends:
  assumes inv: "params_inv s" and bound: "length (GetAllParams s) < 2 ^ 32"
    and ok: "SetParams x p s = Inr s'"
  shows "params_inv s'" "GetAllParams s' = GetAllParams s @ [p]"
proof -
  let ?v = "nextParamsVersion s"
  let ?pair = "NewHeightVersionPair (activation p) ?v"
  have m: "(case GetHeightToVersionMap s of None \<Rightarrow> NewHeightToVersionMap | Some m \<Rightarrow> m) = versions_of s"
    by (simp add: versions_of_def GetHeightToVersionMap_def NewHeightToVersionMap_def split: option.splits)
  obtain m' where add: "AddPair (versions_of s) ?pair = Inr m'"
    and s': "s' = s\<lparr>ps_params := kv_set ?v \<lparr>sp_Version = ?v, sp_Params = p\<rparr> (ps_params s),
      ps_height_to_version := Some m'\<rparr>"
    using ok by (auto simp: SetParams_def m SetHeightToVersionMap_def AddNewPair_def Let_def bindR_eq_Inr)
  have htv: "htv_inv m'" and m': "m' = versions_of s @ [?pair]"
    using AddPair_htv_inv [OF add] inv by (auto simp: params_inv_def)
  have len: "length (ps_params s) < 2 ^ 32" using bound by (simp add: GetAllParams_def)
  have "\<forall>k\<in>fst ` set (ps_params s). k < ?v"
  proof
    fix k assume "k \<in> fst ` set (ps_params s)"
    then have "k \<in> set (map fst (ps_params s))" by simp
    then obtain i where "i < length (ps_params s)" "k = word_of_nat i"
      unfolding params_inv_keys(1) [OF inv] by auto
    then show "k < ?v"
      unfolding nextParamsVersion_length [OF inv] using len by (simp add: word_of_nat_less)
  qed
  then have ps: "ps_params s' = ps_params s @ [(?v, \<lparr>sp_Version = ?v, sp_Params = p\<rparr>)]"
    by (simp add: s' kv_set_last)
  show "GetAllParams s' = GetAllParams s @ [p]" by (simp add: GetAllParams_def ps)
  have "versions_of s' = m'" by (simp add: versions_of_def s')
  then show "params_inv s'"
    using htv inv len params_inv_keys(2) [OF inv]
    by (simp add: params_inv_def ps m' stored_as_def NewHeightVersionPair_def list_all2_appendI)
qed

text \<open>C30. A successful parameter update keeps the invariant, becomes the latest version, is what
  every BTC height at or above its activation reads, and changes nothing for the heights below.\<close>

theorem SetParams_upgrade:
  assumes "params_inv s" "length (GetAllParams s) < 2 ^ 32" "SetParams x p s = Inr s'"
  shows "params_inv s' \<and> GetAllParams s' = GetAllParams s @ [p] \<and> GetParams s' = Inr p \<and>
    (\<forall>h. activation p \<le> h \<longrightarrow>
       GetParamsForBtcHeight s' h = Inr (Some p, word_of_nat (length (GetAllParams s)))) \<and>
    (\<forall>h. h < activation p \<longrightarrow> GetAllParams s \<noteq> [] \<longrightarrow>
       GetParamsForBtcHeight s' h = GetParamsForBtcHeight s h)"
proof -
  note inv' = SetParams_appends(1) [OF assms] and all' = SetParams_appends(2) [OF assms]
  have "ps_params s' \<noteq> []" using all' by (auto simp: GetAllParams_def)
  then have "GetParams s' = Inr (last (GetAllParams s'))"
    by (simp add: GetParams_def mustGetLastParams_def getLastParams_def GetAllParams_def last_map)
  moreover have "GetParamsForBtcHeight s' h = Inr (Some p, word_of_nat (length (GetAllParams s)))"
    if "activation p \<le> h" for h
  proof -
    have "activation q < activation p" if "q \<in> set (GetAllParams s)" for q
      using params_inv_heights(2) [OF inv'] that by (simp add: all' sorted_wrt_append)
    then have "filter (\<lambda>q. activation q \<le> h) (GetAllParams s) = GetAllParams s"
      using that by (auto simp: filter_id_conv intro: less_imp_le less_le_trans)
    then show ?thesis
      using that by (simp add: GetParamsForBtcHeight_spec [OF inv'] all')
  qed
  moreover have "GetParamsForBtcHeight s' h = GetParamsForBtcHeight s h"
    if "h < activation p" "GetAllParams s \<noteq> []" for h
    using that by (simp add: GetParamsForBtcHeight_spec [OF inv'] GetParamsForBtcHeight_spec [OF assms(1)] all'
      flip: not_less)
  ultimately show ?thesis using inv' all' by simp
qed

definition sample_params :: BSParams where
  "sample_params = \<lparr>bp_CovenantPks = [''c1'', ''c2'', ''c3''], bp_CovenantQuorum = 2,
     bp_MinStakingValueSat = 100000, bp_MaxStakingValueSat = 1000000, bp_MinStakingTimeBlocks = 400,
     bp_MaxStakingTimeBlocks = 65535, bp_SlashingPkScript = ''s'', bp_MinSlashingTxFeeSat = 1000,
     bp_SlashingRate = 10 ^ 17, bp_UnbondingTimeBlocks = 200, bp_UnbondingFeeSat = 1000,
     bp_MinCommissionRate = Some 0, bp_DelegationCreationBaseGasFee = 1000,
     bp_AllowListExpirationHeight = 0, bp_BtcActivationHeight = 10\<rparr>"

definition empty_params :: params_state where
  "empty_params = \<lparr>ps_params = [], ps_height_to_version = None\<rparr>"

lemma empty_params_inv: "params_inv empty_params"
  by (simp add: params_inv_def htv_inv_def versions_of_def empty_params_def)

lemma SetParams_sample:
  "SetParams sample_ext sample_params empty_params =
     Inr \<lparr>ps_params = [(0, \<lparr>sp_Version = 0, sp_Params = sample_params\<rparr>)],
       ps_height_to_version = Some [\<lparr>hv_StartHeight = 10, hv_Version = 0\<rparr>]\<rparr>"
  by code_simp

theorem SetParams_upgrade_witness:
  "\<exists>s'. SetParams sample_ext sample_params empty_params = Inr s' \<and> params_inv s' \<and>
     GetParams s' = Inr sample_params \<and> GetParamsForBtcHeight s' 12 = Inr (Some sample_params, 0)"
proof -
  have "length (GetAllParams empty_params) < 2 ^ 32" "activation sample_params \<le> 12"
    by (simp_all add: GetAllParams_def empty_params_def sample_params_def)
  with SetParams_upgrade [OF empty_params_inv _ SetParams_sample] show ?thesis
    unfolding SetParams_sample by (auto simp: GetAllParams_def empty_params_def)
qed

end
