(* ===== verification/BTCStaking.thy ===== *)
theory BTCStaking
  imports BTCStaking_Params
begin

text \<open>
  The finality providers of \<open>x/btcstaking\<close> (\<open>keeper/finality_providers.go\<close>, the messages
  \<open>CreateFinalityProvider\<close> and \<open>EditFinalityProvider\<close>), the store of events that change the voting
  power distribution (\<open>keeper/power_dist_change.go\<close>), the index of BTC heights
  (\<open>keeper/btc_height_index.go\<close>) and the guard against deep BTC reorganisations
  (\<open>keeper/btc_reorg.go\<close>).

  The locale \<open>fp_keeper\<close> states what the finality module relies on when it slashes, jails and unjails
  a provider; the interpretation \<open>bsk\<close> discharges it for the keeper.
\<close>

subsection \<open>State\<close>

record LargestBtcReOrg =
  lr_BlockDiff :: u32
  lr_RollbackFrom :: u32
  lr_RollbackTo :: u32

text \<open>The event store is keyed by BTC height and index. The BTC height store holds the value that
  was written, a 64-bit number.\<close>

record bs_state =
  bs_fps :: "(btcpk, FinalityProvider) kv"
  bs_fp_addrs :: "addr set"
  bs_deleted :: "btcpk set"
  bs_delegations :: "(bytes, BTCDelegation) kv"
  bs_delegator_index :: "(btcpk \<times> btcpk, bytes list) kv"
  bs_events :: "(u32 \<times> u64, EventPowerDistUpdate) kv"
  bs_btc_height :: "u64 \<rightharpoonup> u64"
  bs_largest_reorg :: "LargestBtcReOrg option"
  bs_allowed_txs :: "bytes set"
  bs_pstate :: params_state

subsection \<open>Finality providers\<close>

definition IsSlashed :: "FinalityProvider \<Rightarrow> bool" where
  "IsSlashed fp \<longleftrightarrow> fp_SlashedBabylonHeight fp > 0"

definition IsJailed :: "FinalityProvider \<Rightarrow> bool" where
  "IsJailed fp \<longleftrightarrow> fp_Jailed fp"

definition HasFinalityProvider :: "bs_state \<Rightarrow> btcpk \<Rightarrow> bool" where
  "HasFinalityProvider s pk = kv_has (bs_fps s) pk"

definition GetFinalityProvider :: "bs_state \<Rightarrow> btcpk \<Rightarrow> FinalityProvider result" where
  "GetFinalityProvider s pk = option_to_result (BTCStaking ErrFpNotFound) (kv_get (bs_fps s) pk)"

definition SetFinalityProvider :: "FinalityProvider \<Rightarrow> bs_state \<Rightarrow> bs_state" where
  "SetFinalityProvider fp s = s\<lparr>bs_fps := kv_set (fp_BtcPk fp) fp (bs_fps s)\<rparr>"

definition SetFpBbnAddr :: "addr \<Rightarrow> bs_state \<Rightarrow> bs_state" where
  "SetFpBbnAddr a s = s\<lparr>bs_fp_addrs := insert a (bs_fp_addrs s)\<rparr>"

definition HasFpRegistered :: "bs_state \<Rightarrow> addr \<Rightarrow> bool" where
  "HasFpRegistered s a \<longleftrightarrow> a \<in> bs_fp_addrs s"

definition UpdateFinalityProvider :: "FinalityProvider \<Rightarrow> bs_state \<Rightarrow> bs_state result" where
  "UpdateFinalityProvider fp s =
     (if \<not> HasFinalityProvider s (fp_BtcPk fp) then Inl (BTCStaking ErrFpNotFound)
      else Inr (SetFinalityProvider fp s))"

definition IterateFinalityProvider ::
  "(FinalityProvider \<Rightarrow> 'a \<Rightarrow> 'a result) \<Rightarrow> 'a \<Rightarrow> bs_state \<Rightarrow> 'a result" where
  "IterateFinalityProvider f a s = foldR (\<lambda>a e. f (snd e) a) a (bs_fps s)"

definition IsFinalityProviderDeleted :: "bs_state \<Rightarrow> btcpk \<Rightarrow> bool" where
  "IsFinalityProviderDeleted s pk \<longleftrightarrow> pk \<in> bs_deleted s"

definition SoftDeleteFinalityProvider :: "btcpk \<Rightarrow> bs_state \<Rightarrow> bs_state" where
  "SoftDeleteFinalityProvider pk s = s\<lparr>bs_deleted := insert pk (bs_deleted s)\<rparr>"

definition CheckDuplicatedFpBbnAddr :: "bs_state \<Rightarrow> addr \<Rightarrow> unit result" where
  "CheckDuplicatedFpBbnAddr s a =
     (if HasFpRegistered s a then Inl (BTCStaking ErrFpRegistered) else Inr ())"

definition NewCommissionInfoWithTime :: "dec \<Rightarrow> dec \<Rightarrow> int \<Rightarrow> CommissionInfo" where
  "NewCommissionInfoWithTime maxRate maxChangeRate t =
     \<lparr>ci_MaxRate = maxRate, ci_MaxChangeRate = maxChangeRate, ci_UpdateTime = t\<rparr>"

definition CommissionInfo_Validate :: "CommissionInfo \<Rightarrow> unit result" where
  "CommissionInfo_Validate cr =
     (if ci_MaxRate cr < 0 then Inl (Lib ''ErrCommissionNegative'')
      else if ci_MaxRate cr > dec_one then Inl (Lib ''ErrCommissionHuge'')
      else if ci_MaxChangeRate cr < 0 then Inl (Lib ''ErrCommissionChangeRateNegative'')
      else if ci_MaxChangeRate cr > ci_MaxRate cr then Inl (Lib ''ErrCommissionChangeRateGTMaxRate'')
      else Inr ())"

text \<open>Comparing with a nil \<open>LegacyDec\<close> is a nil dereference.\<close>

definition AddFinalityProvider ::
  "ext \<Rightarrow> ctx \<Rightarrow> MsgCreateFinalityProvider \<Rightarrow> bs_state \<Rightarrow> (bs_state \<times> emitted list) result" where
  "AddFinalityProvider x c msg s =
     bindR (GetParams (bs_pstate s)) (\<lambda>params.
     bindR (option_to_result (Lib ''AccAddressFromBech32'') (ext_bech32 x (mcfp_Addr msg))) (\<lambda>fpAddr.
     bindR (CheckDuplicatedFpBbnAddr s fpAddr) (\<lambda>_.
     bindR (option_to_result (Panic ''nil MinCommissionRate'') (bp_MinCommissionRate params)) (\<lambda>minRate.
     let rates = mcfp_Commission msg;
         commissionInfo = NewCommissionInfoWithTime (cr_MaxRate rates) (cr_MaxChangeRate rates) (cx_Time c)
     in guardR (cr_Rate rates < minRate) (BTCStaking ErrCommissionLTMinRate)
       (bindR (CommissionInfo_Validate commissionInfo) (\<lambda>_.
        guardR (cr_Rate rates > cr_MaxRate rates) (BTCStaking ErrCommissionGTMaxRate)
       (guardR (HasFinalityProvider s (mcfp_BtcPk msg)) (BTCStaking ErrFpRegistered)
       (let fp = \<lparr>fp_Addr = mcfp_Addr msg, fp_Description = mcfp_Description msg,
                  fp_Commission = Some (cr_Rate rates), fp_BtcPk = mcfp_BtcPk msg,
                  fp_Pop = mcfp_Pop msg, fp_SlashedBabylonHeight = 0, fp_SlashedBtcHeight = 0,
                  fp_Jailed = False, fp_HighestVotedHeight = 0,
                  fp_CommissionInfo = Some commissionInfo\<rparr>
        in Inr (SetFinalityProvider fp (SetFpBbnAddr fpAddr s),
                [EventFinalityProviderCreated fp])))))))))"

definition hour :: int where
  "hour = 3600 * 10 ^ 9"

definition UpdateFinalityProviderCommission ::
  "ctx \<Rightarrow> dec option \<Rightarrow> FinalityProvider \<Rightarrow> bs_state \<Rightarrow> FinalityProvider result" where
  "UpdateFinalityProviderCommission c newCommission fp s = (case newCommission of
       None \<Rightarrow> Inr fp
     | Some new \<Rightarrow> (case fp_CommissionInfo fp of
         None \<Rightarrow> Inl (Errorf ''finality provider does not have commission info defined'')
       | Some info \<Rightarrow>
           guardR (new < 0) (Lib ''ErrCommissionNegative'')
          (guardR (cx_Time c - ci_UpdateTime info < 24 * hour) (Lib ''ErrCommissionUpdateTime'')
          (bindR (MinCommissionRate (bs_pstate s)) (\<lambda>mr.
           bindR (option_to_result (Panic ''nil MinCommissionRate'') mr) (\<lambda>minCommission.
           guardR (new < minCommission) (BTCStaking ErrCommissionLTMinRate)
          (guardR (new > ci_MaxRate info) (Lib ''ErrCommissionGTMaxRate'')
          (bindR (option_to_result (Panic ''nil Commission'') (fp_Commission fp)) (\<lambda>old.
           guardR (\<bar>new - old\<bar> > ci_MaxChangeRate info) (Lib ''ErrCommissionGTMaxChangeRate'')
          (Inr (fp\<lparr>fp_Commission := Some new,
                    fp_CommissionInfo := Some (info\<lparr>ci_UpdateTime := cx_Time c\<rparr>)\<rparr>)))))))))))"

subsubsection \<open>Messages\<close>

definition CreateFinalityProvider ::
  "ext \<Rightarrow> ctx \<Rightarrow> MsgCreateFinalityProvider \<Rightarrow> bs_state \<Rightarrow> (bs_state \<times> emitted list) result" where
  "CreateFinalityProvider x c req s =
     bindR (option_to_result (Errorf ''invalid address'') (ext_bech32 x (mcfp_Addr req))) (\<lambda>fpAddr.
     guardR (\<not> ext_pop_verify x (mcfp_Pop req) fpAddr (mcfp_BtcPk req))
       (Errorf ''invalid proof of possession'')
     (AddFinalityProvider x c req s))"

definition EditFinalityProvider ::
  "ext \<Rightarrow> ctx \<Rightarrow> MsgEditFinalityProvider \<Rightarrow> bs_state \<Rightarrow> (bs_state \<times> emitted list) result" where
  "EditFinalityProvider x c req s =
     bindR (option_to_result (Errorf ''invalid address'') (ext_bech32 x (mefp_Addr req))) (\<lambda>fpAddr.
     bindR (GetFinalityProvider s (mefp_BtcPk req)) (\<lambda>fp.
     guardR (\<not> EqualFold (ext_bech32_str x fpAddr) (fp_Addr fp))
       (Errorf ''the signer does not correspond to the finality provider's Babylon address'')
    (bindR (UpdateFinalityProviderCommission c (mefp_Commission req) fp s) (\<lambda>fp1.
     let fp2 = fp1\<lparr>fp_Description := mefp_Description req\<rparr>
     in Inr (SetFinalityProvider fp2 s, [EventFinalityProviderEdited fp2])))))"

subsection \<open>Events that change the voting power distribution\<close>

definition PowerDistUpdateEventBtcHeightStoreIterator ::
  "bs_state \<Rightarrow> u32 \<Rightarrow> (u64, EventPowerDistUpdate) kv" where
  "PowerDistUpdateEventBtcHeightStoreIterator s btcHeight = kv_sub btcHeight (bs_events s)"

definition addPowerDistUpdateEvent :: "u32 \<Rightarrow> EventPowerDistUpdate \<Rightarrow> bs_state \<Rightarrow> bs_state" where
  "addPowerDistUpdateEvent btcHeight event s =
     (let store = kv_sub btcHeight (bs_events s);
          eventIdx = (if store = [] then 0 else fst (last store) + 1)
      in s\<lparr>bs_events := kv_set (btcHeight, eventIdx) event (bs_events s)\<rparr>)"

definition ClearPowerDistUpdateEvents :: "u32 \<Rightarrow> bs_state \<Rightarrow> bs_state" where
  "ClearPowerDistUpdateEvents btcHeight s =
     (let keys = map fst (kv_sub btcHeight (bs_events s))
      in s\<lparr>bs_events := fold (\<lambda>key st. kv_del (btcHeight, key) st) keys (bs_events s)\<rparr>)"

definition GetAllPowerDistUpdateEvents :: "bs_state \<Rightarrow> u32 \<Rightarrow> u32 \<Rightarrow> EventPowerDistUpdate list" where
  "GetAllPowerDistUpdateEvents s lastBTCTip curBTCTip =
     concat (map (\<lambda>i. map snd (PowerDistUpdateEventBtcHeightStoreIterator s i))
       (heights_upto lastBTCTip curBTCTip))"

subsection \<open>Slashing, jailing and unjailing\<close>

definition SlashFinalityProvider :: "ctx \<Rightarrow> btcpk \<Rightarrow> bs_state \<Rightarrow> bs_state result" where
  "SlashFinalityProvider c pk s =
     bindR (GetFinalityProvider s pk) (\<lambda>fp.
     guardR (IsSlashed fp) (BTCStaking ErrFpAlreadySlashed)
    (case cx_BtcTip c of
       None \<Rightarrow> Inl (Errorf ''failed to get current BTC tip'')
     | Some tip \<Rightarrow>
         let fp1 = fp\<lparr>fp_SlashedBabylonHeight := cx_height c, fp_SlashedBtcHeight := tip\<rparr>
         in Inr (addPowerDistUpdateEvent tip (SlashedFp (fp_BtcPk fp1)) (SetFinalityProvider fp1 s))))"

definition JailFinalityProvider :: "ctx \<Rightarrow> btcpk \<Rightarrow> bs_state \<Rightarrow> bs_state result" where
  "JailFinalityProvider c pk s =
     bindR (GetFinalityProvider s pk) (\<lambda>fp.
     guardR (IsSlashed fp) (BTCStaking ErrFpAlreadySlashed)
    (guardR (IsJailed fp) (BTCStaking ErrFpAlreadyJailed)
    (let fp1 = fp\<lparr>fp_Jailed := True\<rparr>; s1 = SetFinalityProvider fp1 s
     in case cx_BtcTip c of
          None \<Rightarrow> Inl (Errorf ''failed to get current BTC tip'')
        | Some tip \<Rightarrow> Inr (addPowerDistUpdateEvent tip (JailedFp (fp_BtcPk fp1)) s1))))"

definition UnjailFinalityProvider :: "ctx \<Rightarrow> btcpk \<Rightarrow> bs_state \<Rightarrow> bs_state result" where
  "UnjailFinalityProvider c pk s =
     bindR (GetFinalityProvider s pk) (\<lambda>fp.
     guardR (IsSlashed fp) (BTCStaking ErrFpAlreadySlashed)
    (guardR (\<not> IsJailed fp) (BTCStaking ErrFpNotJailed)
    (let fp1 = fp\<lparr>fp_Jailed := False\<rparr>; s1 = SetFinalityProvider fp1 s
     in case cx_BtcTip c of
          None \<Rightarrow> Inl (Errorf ''failed to get current BTC tip'')
        | Some tip \<Rightarrow> Inr (addPowerDistUpdateEvent tip (UnjailedFp (fp_BtcPk fp1)) s1))))"

subsection \<open>BTC heights\<close>

definition IndexBTCHeight :: "ctx \<Rightarrow> bs_state \<Rightarrow> bs_state" where
  "IndexBTCHeight c s = (case cx_BtcTip c of
       None \<Rightarrow> s
     | Some tip \<Rightarrow> s\<lparr>bs_btc_height := (bs_btc_height s)(cx_height c \<mapsto> ucast tip)\<rparr>)"

definition GetBTCHeightAtBabylonHeight :: "ctx \<Rightarrow> bs_state \<Rightarrow> u64 \<Rightarrow> u32 result" where
  "GetBTCHeightAtBabylonHeight c s babylonHeight = (case bs_btc_height s babylonHeight of
       None \<Rightarrow> Inr (cx_BtcBase c)
     | Some h \<Rightarrow>
         if h > 0xFFFFFFFF
           then Inl (Panic ''Storage involves a btc height that is larger than math.MaxUint32'')
         else Inr (ucast h))"

definition GetCurrentBTCHeight :: "ctx \<Rightarrow> bs_state \<Rightarrow> u32 result" where
  "GetCurrentBTCHeight c s = GetBTCHeightAtBabylonHeight c s (cx_height c)"

definition BTCStaking_BeginBlocker :: "ctx \<Rightarrow> bs_state \<Rightarrow> bs_state" where
  "BTCStaking_BeginBlocker c s = IndexBTCHeight c s"

subsection \<open>Deep reorganisations\<close>

definition NewLargestBtcReOrg :: "u32 \<Rightarrow> u32 \<Rightarrow> LargestBtcReOrg" where
  "NewLargestBtcReOrg rollbackFrom rollbackTo =
     \<lparr>lr_BlockDiff = rollbackFrom - rollbackTo, lr_RollbackFrom = rollbackFrom,
      lr_RollbackTo = rollbackTo\<rparr>"

definition SetLargestBtcReorg :: "LargestBtcReOrg \<Rightarrow> bs_state \<Rightarrow> bs_state" where
  "SetLargestBtcReorg new s = (case bs_largest_reorg s of
       None \<Rightarrow> s\<lparr>bs_largest_reorg := Some new\<rparr>
     | Some cur \<Rightarrow>
         if lr_BlockDiff cur \<ge> lr_BlockDiff new then s else s\<lparr>bs_largest_reorg := Some new\<rparr>)"

definition GetLargestBtcReorg :: "bs_state \<Rightarrow> LargestBtcReOrg option" where
  "GetLargestBtcReorg s = bs_largest_reorg s"

definition AfterBTCRollBack :: "u32 \<Rightarrow> u32 \<Rightarrow> bs_state \<Rightarrow> bs_state" where
  "AfterBTCRollBack rollbackFrom rollbackTo s =
     SetLargestBtcReorg (NewLargestBtcReOrg rollbackFrom rollbackTo) s"

text \<open>The argument is the confirmation depth of the btccheckpoint parameters.\<close>

definition HaltIfBtcReorgLargerThanConfirmationDepth :: "u32 \<Rightarrow> bs_state \<Rightarrow> unit result" where
  "HaltIfBtcReorgLargerThanConfirmationDepth depth s = (case GetLargestBtcReorg s of
       None \<Rightarrow> Inr ()
     | Some r \<Rightarrow>
         if lr_BlockDiff r \<ge> depth then Inl (Panic ''Reorg is larger than BTC confirmation Depth'')
         else Inr ())"

definition BTCStaking_EndBlocker :: "u32 \<Rightarrow> bs_state \<Rightarrow> unit result" where
  "BTCStaking_EndBlocker depth s = HaltIfBtcReorgLargerThanConfirmationDepth depth s"

subsection \<open>The event store\<close>

text \<open>The events of a BTC height are numbered from 0 without gaps.\<close>

definition events_inv :: "bs_state \<Rightarrow> bool" where
  "events_inv s \<longleftrightarrow> kv_wf (bs_events s) \<and>
     (\<forall>h. length (kv_sub h (bs_events s)) \<le> 2 ^ 64 \<and> map fst (kv_sub h (bs_events s)) =
        map word_of_nat [0..<length (kv_sub h (bs_events s))])"

definition events_at :: "bs_state \<Rightarrow> u32 \<Rightarrow> EventPowerDistUpdate list" where
  "events_at s h = map snd (PowerDistUpdateEventBtcHeightStoreIterator s h)"

lemma next_event_index:
  assumes "events_inv s"
  shows "(if kv_sub h (bs_events s) = [] then 0 else fst (last (kv_sub h (bs_events s))) + 1) =
    word_of_nat (length (kv_sub h (bs_events s)))"
proof (cases "kv_sub h (bs_events s)" rule: rev_cases)
  case (snoc es e)
  have "map fst (kv_sub h (bs_events s)) = map word_of_nat [0..<length (kv_sub h (bs_events s))]"
    using assms by (simp add: events_inv_def)
  then have "map fst (kv_sub h (bs_events s)) ! length es = word_of_nat (length es)"
    by (simp only:) (simp add: snoc del: upt_Suc)
  then have "fst e = word_of_nat (length es)" by (simp add: snoc nth_append)
  then show ?thesis by (simp add: snoc add.commute)
qed simp

lemma kv_sub_add_event:
  assumes "events_inv s" "length (kv_sub h (bs_events s)) < 2 ^ 64"
  shows "kv_sub h' (bs_events (addPowerDistUpdateEvent h ev s)) =
    (if h' = h then kv_sub h (bs_events s) @ [(word_of_nat (length (kv_sub h (bs_events s))), ev)]
     else kv_sub h' (bs_events s))"
proof -
  let ?st = "kv_sub h (bs_events s)"
  let ?n = "word_of_nat (length ?st) :: u64"
  have wf: "kv_wf (bs_events s)" using assms(1) by (simp add: events_inv_def)
  have "\<forall>k\<in>fst ` set ?st. k < ?n"
  proof
    fix k assume "k \<in> fst ` set ?st"
    then have "k \<in> set (map fst ?st)" by simp
    then obtain i where i: "i < length ?st" and k: "k = word_of_nat i"
      using assms(1) unfolding events_inv_def by auto
    have "unat (word_of_nat i :: u64) = i" "unat ?n = length ?st"
      using i assms(2) by (simp_all add: unat_of_nat)
    then show "k < ?n" using i by (simp add: k word_less_nat_alt)
  qed
  then have "kv_set ?n ev ?st = ?st @ [(?n, ev)]" by (rule kv_set_last)
  then show ?thesis
    by (auto simp: addPowerDistUpdateEvent_def Let_def next_event_index [OF assms(1)] kv_sub_set [OF wf])
qed

lemma events_inv_add:
  assumes "events_inv s" "length (kv_sub h (bs_events s)) < 2 ^ 64"
  shows "events_inv (addPowerDistUpdateEvent h ev s)"
proof -
  have "kv_wf (bs_events (addPowerDistUpdateEvent h ev s))"
    using assms(1) by (simp add: addPowerDistUpdateEvent_def Let_def events_inv_def)
  moreover have "length (kv_sub k (bs_events s)) \<le> 2 ^ 64 \<and> map fst (kv_sub k (bs_events s)) =
      map word_of_nat [0..<length (kv_sub k (bs_events s))]" for k
    using assms(1) by (simp add: events_inv_def)
  ultimately show ?thesis
    using assms(2) by (simp add: events_inv_def kv_sub_add_event [OF assms])
qed

lemma filter_kv_del:
  "filter (\<lambda>e. fst e \<notin> set ks) (kv_del a st) = filter (\<lambda>e. fst e \<noteq> a \<and> fst e \<notin> set ks) st"
  by (simp add: kv_del_def conj_commute)

lemma fold_kv_del:
  "kv_sub h (fold (\<lambda>key st. kv_del (h', key) st) ks st) =
     (if h = h' then filter (\<lambda>e. fst e \<notin> set ks) (kv_sub h st) else kv_sub h st)"
  by (induction ks arbitrary: st) (auto simp: kv_sub_del filter_kv_del)

lemma kv_wf_fold_del: "kv_wf st \<Longrightarrow> kv_wf (fold (\<lambda>key st. kv_del (h', key) st) ks st)"
  by (induction ks arbitrary: st) auto

lemma kv_sub_clear:
  "kv_sub h' (bs_events (ClearPowerDistUpdateEvents h s)) =
     (if h' = h then [] else kv_sub h' (bs_events s))"
  by (auto simp: ClearPowerDistUpdateEvents_def Let_def fold_kv_del filter_empty_conv)

lemma events_inv_clear: "events_inv s \<Longrightarrow> events_inv (ClearPowerDistUpdateEvents h s)"
  unfolding events_inv_def
  by (simp add: kv_sub_clear) (simp add: ClearPowerDistUpdateEvents_def Let_def kv_wf_fold_del)

text \<open>The event store is a queue per BTC height: adding an event appends it to the events of its
  height, clearing a height empties it, and neither touches another height.\<close>

theorem event_store_queue:
  assumes "events_inv s" "length (events_at s h) < 2 ^ 64"
  shows "events_inv (addPowerDistUpdateEvent h ev s) \<and>
    events_at (addPowerDistUpdateEvent h ev s) h' =
      (if h' = h then events_at s h @ [ev] else events_at s h') \<and>
    events_inv (ClearPowerDistUpdateEvents h s) \<and>
    events_at (ClearPowerDistUpdateEvents h s) h' = (if h' = h then [] else events_at s h')"
proof -
  have "length (kv_sub h (bs_events s)) < 2 ^ 64"
    using assms(2) by (simp add: events_at_def PowerDistUpdateEventBtcHeightStoreIterator_def)
  with assms(1) show ?thesis
    by (simp add: events_inv_add events_inv_clear events_at_def
      PowerDistUpdateEventBtcHeightStoreIterator_def kv_sub_add_event kv_sub_clear)
qed

definition empty_bs :: bs_state where
  "empty_bs = \<lparr>bs_fps = [], bs_fp_addrs = {}, bs_deleted = {}, bs_delegations = [],
     bs_delegator_index = [], bs_events = [], bs_btc_height = Map.empty, bs_largest_reorg = None,
     bs_allowed_txs = {}, bs_pstate = empty_params\<rparr>"

lemma empty_bs_events: "events_inv empty_bs"
  by (simp add: events_inv_def empty_bs_def)

theorem event_store_queue_witness:
  "events_at (addPowerDistUpdateEvent 7 (SlashedFp ''a'') (addPowerDistUpdateEvent 7 (JailedFp ''a'') empty_bs)) 7
     = [JailedFp ''a'', SlashedFp ''a'']"
proof -
  let ?s = "addPowerDistUpdateEvent 7 (JailedFp ''a'') empty_bs"
  have 0: "length (events_at empty_bs 7) < 2 ^ 64"
    by (simp add: events_at_def PowerDistUpdateEventBtcHeightStoreIterator_def empty_bs_def)
  have s: "events_inv ?s" "events_at ?s 7 = [JailedFp ''a'']"
    using event_store_queue [OF empty_bs_events 0, of "JailedFp ''a''" 7]
    by (simp_all add: events_at_def PowerDistUpdateEventBtcHeightStoreIterator_def empty_bs_def)
  then show ?thesis using event_store_queue [OF s(1), of 7 "SlashedFp ''a''" 7] by simp
qed

subsection \<open>Provider life cycle\<close>

definition fps_inv :: "bs_state \<Rightarrow> bool" where
  "fps_inv s \<longleftrightarrow> kv_wf (bs_fps s) \<and> (\<forall>pk fp. kv_get (bs_fps s) pk = Some fp \<longrightarrow> fp_BtcPk fp = pk)"

lemma bs_fps_add_event [simp]: "bs_fps (addPowerDistUpdateEvent h ev s) = bs_fps s"
  by (simp add: addPowerDistUpdateEvent_def Let_def)

lemma bs_events_set_fp [simp]: "bs_events (SetFinalityProvider fp s) = bs_events s"
  by (simp add: SetFinalityProvider_def)

lemma fps_inv_add_event [simp]: "fps_inv (addPowerDistUpdateEvent h ev s) = fps_inv s"
  by (simp add: fps_inv_def)

lemma GetFinalityProvider_add_event [simp]:
  "GetFinalityProvider (addPowerDistUpdateEvent h ev s) pk = GetFinalityProvider s pk"
  by (simp add: GetFinalityProvider_def)

lemma GetFinalityProvider_set [simp]:
  "GetFinalityProvider (SetFinalityProvider fp s) pk =
     (if pk = fp_BtcPk fp then Inr fp else GetFinalityProvider s pk)"
  by (simp add: GetFinalityProvider_def SetFinalityProvider_def)

lemma fps_inv_set [simp]: "fps_inv s \<Longrightarrow> fps_inv (SetFinalityProvider fp s)"
  by (simp add: fps_inv_def SetFinalityProvider_def)

lemma fps_inv_key: "fps_inv s \<Longrightarrow> GetFinalityProvider s pk = Inr fp \<Longrightarrow> fp_BtcPk fp = pk"
  by (simp add: fps_inv_def GetFinalityProvider_def option_to_result_eq_Inr)

lemma events_at_add_set:
  "events_at (addPowerDistUpdateEvent h ev (SetFinalityProvider fp s)) h' =
     events_at (addPowerDistUpdateEvent h ev s) h'"
  by (simp add: events_at_def PowerDistUpdateEventBtcHeightStoreIterator_def
    addPowerDistUpdateEvent_def Let_def)

text \<open>What the callers of the keeper rely on, with \<open>upd\<close> the change each operation makes to the
  provider.\<close>

locale fp_keeper =
  fixes get :: "'s \<Rightarrow> btcpk \<Rightarrow> FinalityProvider result"
    and slash :: "ctx \<Rightarrow> btcpk \<Rightarrow> 's \<Rightarrow> 's result"
    and jail :: "ctx \<Rightarrow> btcpk \<Rightarrow> 's \<Rightarrow> 's result"
    and unjail :: "ctx \<Rightarrow> btcpk \<Rightarrow> 's \<Rightarrow> 's result"
    and inv :: "'s \<Rightarrow> bool"
  assumes slash_effect: "inv s \<Longrightarrow> slash c pk s = Inr s' \<Longrightarrow>
      inv s' \<and> (\<exists>fp tip. get s pk = Inr fp \<and> \<not> IsSlashed fp \<and> cx_BtcTip c = Some tip \<and> (\<forall>q. get s' q =
        (if q = pk then Inr (fp\<lparr>fp_SlashedBabylonHeight := cx_height c, fp_SlashedBtcHeight := tip\<rparr>)
         else get s q)))"
    and jail_effect: "inv s \<Longrightarrow> jail c pk s = Inr s' \<Longrightarrow>
      inv s' \<and> (\<exists>fp. get s pk = Inr fp \<and> \<not> IsSlashed fp \<and> \<not> IsJailed fp \<and>
        (\<forall>q. get s' q = (if q = pk then Inr (fp\<lparr>fp_Jailed := True\<rparr>) else get s q)))"
    and unjail_effect: "inv s \<Longrightarrow> unjail c pk s = Inr s' \<Longrightarrow>
      inv s' \<and> (\<exists>fp. get s pk = Inr fp \<and> \<not> IsSlashed fp \<and> IsJailed fp \<and>
        (\<forall>q. get s' q = (if q = pk then Inr (fp\<lparr>fp_Jailed := False\<rparr>) else get s q)))"
    and slashed_refused: "get s pk = Inr fp \<Longrightarrow> IsSlashed fp \<Longrightarrow>
      slash c pk s = Inl (BTCStaking ErrFpAlreadySlashed) \<and>
      jail c pk s = Inl (BTCStaking ErrFpAlreadySlashed) \<and>
      unjail c pk s = Inl (BTCStaking ErrFpAlreadySlashed)"
begin

text \<open>Slashing is final: no operation on the provider succeeds any more.\<close>

lemma slash_final:
  assumes "inv s" "slash c pk s = Inr s'" "0 < cx_height c"
  shows "slash c' pk s' = Inl (BTCStaking ErrFpAlreadySlashed)"
    "jail c' pk s' = Inl (BTCStaking ErrFpAlreadySlashed)"
    "unjail c' pk s' = Inl (BTCStaking ErrFpAlreadySlashed)"
proof -
  obtain fp tip where "get s' pk =
      Inr (fp\<lparr>fp_SlashedBabylonHeight := cx_height c, fp_SlashedBtcHeight := tip\<rparr>)"
    using slash_effect [OF assms(1,2)] by auto
  from slashed_refused [OF this, of c'] assms(3)
  show "slash c' pk s' = Inl (BTCStaking ErrFpAlreadySlashed)"
    "jail c' pk s' = Inl (BTCStaking ErrFpAlreadySlashed)"
    "unjail c' pk s' = Inl (BTCStaking ErrFpAlreadySlashed)"
    by (auto simp: IsSlashed_def)
qed

text \<open>Unjailing undoes jailing.\<close>

lemma jail_unjail:
  assumes "inv s" "jail c pk s = Inr s1" "unjail c' pk s1 = Inr s2"
  shows "get s2 q = get s q"
proof -
  obtain fp where fp: "get s pk = Inr fp" "\<not> IsJailed fp"
    "\<And>q. get s1 q = (if q = pk then Inr (fp\<lparr>fp_Jailed := True\<rparr>) else get s q)" and "inv s1"
    using jail_effect [OF assms(1,2)] by auto
  obtain fp1 where "get s1 pk = Inr fp1"
    "\<And>q. get s2 q = (if q = pk then Inr (fp1\<lparr>fp_Jailed := False\<rparr>) else get s1 q)"
    using unjail_effect [OF \<open>inv s1\<close> assms(3)] by auto
  with fp show ?thesis by (auto simp: IsJailed_def)
qed

end

interpretation bsk: fp_keeper GetFinalityProvider SlashFinalityProvider JailFinalityProvider
  UnjailFinalityProvider fps_inv
proof
  fix s c pk s' assume inv: "fps_inv s"
  show "fps_inv s' \<and> (\<exists>fp tip. GetFinalityProvider s pk = Inr fp \<and> \<not> IsSlashed fp \<and> cx_BtcTip c = Some tip \<and>
      (\<forall>q. GetFinalityProvider s' q = (if q = pk
        then Inr (fp\<lparr>fp_SlashedBabylonHeight := cx_height c, fp_SlashedBtcHeight := tip\<rparr>)
        else GetFinalityProvider s q)))"
    if "SlashFinalityProvider c pk s = Inr s'"
    using that inv
    by (auto simp: SlashFinalityProvider_def bindR_eq_Inr guardR_eq_Inr Let_def fps_inv_key
      split: option.splits)
  show "fps_inv s' \<and> (\<exists>fp. GetFinalityProvider s pk = Inr fp \<and> \<not> IsSlashed fp \<and> \<not> IsJailed fp \<and>
      (\<forall>q. GetFinalityProvider s' q =
        (if q = pk then Inr (fp\<lparr>fp_Jailed := True\<rparr>) else GetFinalityProvider s q)))"
    if "JailFinalityProvider c pk s = Inr s'"
    using that inv
    by (auto simp: JailFinalityProvider_def bindR_eq_Inr guardR_eq_Inr Let_def fps_inv_key
      split: option.splits)
  show "fps_inv s' \<and> (\<exists>fp. GetFinalityProvider s pk = Inr fp \<and> \<not> IsSlashed fp \<and> IsJailed fp \<and>
      (\<forall>q. GetFinalityProvider s' q =
        (if q = pk then Inr (fp\<lparr>fp_Jailed := False\<rparr>) else GetFinalityProvider s q)))"
    if "UnjailFinalityProvider c pk s = Inr s'"
    using that inv
    by (auto simp: UnjailFinalityProvider_def bindR_eq_Inr guardR_eq_Inr Let_def fps_inv_key
      split: option.splits)
next
  fix s pk fp c assume "GetFinalityProvider s pk = Inr fp" "IsSlashed fp"
  then show "SlashFinalityProvider c pk s = Inl (BTCStaking ErrFpAlreadySlashed) \<and>
      JailFinalityProvider c pk s = Inl (BTCStaking ErrFpAlreadySlashed) \<and>
      UnjailFinalityProvider c pk s = Inl (BTCStaking ErrFpAlreadySlashed)"
    by (simp add: SlashFinalityProvider_def JailFinalityProvider_def UnjailFinalityProvider_def)
qed

text \<open>C29. A provider can be slashed exactly when it is registered, not slashed, and a BTC tip is known;
  slashing queues one \<open>SlashedFp\<close> event at the tip, leaves every other provider as it was, and no later
  slash, jail or unjail of the provider succeeds.\<close>

theorem slash_terminal:
  assumes "fps_inv s" "0 < cx_height c"
  shows "((\<exists>s'. SlashFinalityProvider c pk s = Inr s') \<longleftrightarrow>
      (\<exists>fp. GetFinalityProvider s pk = Inr fp \<and> \<not> IsSlashed fp) \<and> cx_BtcTip c \<noteq> None) \<and>
    (\<forall>s'. SlashFinalityProvider c pk s = Inr s' \<longrightarrow> fps_inv s' \<and>
      (\<forall>h. events_at s' h =
         events_at (addPowerDistUpdateEvent (the (cx_BtcTip c)) (SlashedFp pk) s) h) \<and>
      (\<forall>q. q \<noteq> pk \<longrightarrow> GetFinalityProvider s' q = GetFinalityProvider s q) \<and>
      (\<forall>c'. SlashFinalityProvider c' pk s' = Inl (BTCStaking ErrFpAlreadySlashed) \<and>
        JailFinalityProvider c' pk s' = Inl (BTCStaking ErrFpAlreadySlashed) \<and>
        UnjailFinalityProvider c' pk s' = Inl (BTCStaking ErrFpAlreadySlashed)))"
proof (intro conjI allI impI)
  show "(\<exists>s'. SlashFinalityProvider c pk s = Inr s') \<longleftrightarrow>
      (\<exists>fp. GetFinalityProvider s pk = Inr fp \<and> \<not> IsSlashed fp) \<and> cx_BtcTip c \<noteq> None"
    by (auto simp: SlashFinalityProvider_def bindR_eq_Inr guardR_eq_Inr Let_def split: option.splits)
  fix s' assume ok: "SlashFinalityProvider c pk s = Inr s'"
  show "fps_inv s'" using bsk.slash_effect [OF assms(1) ok] by blast
  show "events_at s' h = events_at (addPowerDistUpdateEvent (the (cx_BtcTip c)) (SlashedFp pk) s) h" for h
    using ok assms(1) by (auto simp: SlashFinalityProvider_def bindR_eq_Inr guardR_eq_Inr Let_def
      events_at_add_set fps_inv_key split: option.splits)
  show "GetFinalityProvider s' q = GetFinalityProvider s q" if "q \<noteq> pk" for q
    using bsk.slash_effect [OF assms(1) ok] that by auto
  fix c'
  note final = bsk.slash_final [OF assms(1) ok assms(2), of c']
  show "SlashFinalityProvider c' pk s' = Inl (BTCStaking ErrFpAlreadySlashed)" by (rule final)
  show "JailFinalityProvider c' pk s' = Inl (BTCStaking ErrFpAlreadySlashed)" by (rule final)
  show "UnjailFinalityProvider c' pk s' = Inl (BTCStaking ErrFpAlreadySlashed)" by (rule final)
qed

definition sample_fp :: "btcpk \<Rightarrow> FinalityProvider" where
  "sample_fp pk = \<lparr>fp_Addr = ''addr'', fp_Description = None, fp_Commission = Some 0, fp_BtcPk = pk,
     fp_Pop = None, fp_SlashedBabylonHeight = 0, fp_SlashedBtcHeight = 0, fp_Jailed = False,
     fp_HighestVotedHeight = 0, fp_CommissionInfo = None\<rparr>"

definition sample_bs :: bs_state where
  "sample_bs = SetFinalityProvider (sample_fp ''bb'') (SetFinalityProvider (sample_fp ''aa'') empty_bs)"

lemma empty_bs_fps: "fps_inv empty_bs"
  by (simp add: fps_inv_def empty_bs_def)

lemma sample_bs_fps: "fps_inv sample_bs"
  by (simp add: sample_bs_def empty_bs_fps)

theorem slash_terminal_witness:
  "\<exists>s'. SlashFinalityProvider (sample_ctx 5) ''aa'' sample_bs = Inr s' \<and>
     SlashFinalityProvider (sample_ctx 6) ''aa'' s' = Inl (BTCStaking ErrFpAlreadySlashed) \<and>
     GetFinalityProvider s' ''bb'' = Inr (sample_fp ''bb'')"
proof -
  have h: "0 < cx_height (sample_ctx 5)" by (simp add: cx_height_def sample_ctx_def)
  have "GetFinalityProvider sample_bs ''aa'' = Inr (sample_fp ''aa'')" "\<not> IsSlashed (sample_fp ''aa'')"
    "GetFinalityProvider sample_bs ''bb'' = Inr (sample_fp ''bb'')"
    "cx_BtcTip (sample_ctx 5) \<noteq> None"
    by (simp_all add: sample_bs_def sample_fp_def IsSlashed_def sample_ctx_def)
  with slash_terminal [OF sample_bs_fps h, of "''aa''"] show ?thesis by auto
qed

text \<open>Unjailing undoes jailing, and a jailed provider cannot be jailed again.\<close>

theorem jail_unjail_roundtrip:
  assumes "fps_inv s" "JailFinalityProvider c pk s = Inr s1" "UnjailFinalityProvider c' pk s1 = Inr s2"
  shows "GetFinalityProvider s2 q = GetFinalityProvider s q \<and>
    JailFinalityProvider c'' pk s1 = Inl (BTCStaking ErrFpAlreadyJailed)"
proof
  show "GetFinalityProvider s2 q = GetFinalityProvider s q" by (rule bsk.jail_unjail [OF assms])
  obtain fp where "GetFinalityProvider s1 pk = Inr (fp\<lparr>fp_Jailed := True\<rparr>)" "\<not> IsSlashed fp"
    using bsk.jail_effect [OF assms(1,2)] by auto
  then show "JailFinalityProvider c'' pk s1 = Inl (BTCStaking ErrFpAlreadyJailed)"
    by (simp add: JailFinalityProvider_def IsSlashed_def IsJailed_def)
qed

theorem jail_unjail_roundtrip_witness:
  "\<exists>s1 s2. JailFinalityProvider (sample_ctx 5) ''aa'' sample_bs = Inr s1 \<and>
     UnjailFinalityProvider (sample_ctx 6) ''aa'' s1 = Inr s2 \<and>
     GetFinalityProvider s2 ''aa'' = Inr (sample_fp ''aa'')"
proof -
  obtain s1 where s1: "JailFinalityProvider (sample_ctx 5) ''aa'' sample_bs = Inr s1"
    by (simp add: JailFinalityProvider_def sample_bs_def sample_fp_def IsSlashed_def IsJailed_def
      sample_ctx_def)
  then have "GetFinalityProvider s1 ''aa'' = Inr (sample_fp ''aa''\<lparr>fp_Jailed := True\<rparr>)"
    using bsk.jail_effect [OF sample_bs_fps s1] by (auto simp: sample_bs_def sample_fp_def)
  then obtain s2 where s2: "UnjailFinalityProvider (sample_ctx 6) ''aa'' s1 = Inr s2"
    by (simp add: UnjailFinalityProvider_def sample_fp_def IsSlashed_def IsJailed_def sample_ctx_def)
  from s1 s2 jail_unjail_roundtrip [OF sample_bs_fps s1 s2, of "''aa''"] show ?thesis
    by (simp add: sample_bs_def sample_fp_def)
qed

end
