(* ===== verification/Power_Table.thy ===== *)
theory Power_Table
  imports BTCStaking
begin

text \<open>
  The voting power distribution cache of \<open>x/finality\<close> (\<open>types/power_table.go\<close>): the finality
  providers with stake, in the order of their power, the number of active ones and their total power.
  \<open>ApplyActiveFinalityProviders\<close> selects the active set. The comparison functions of the two sorts
  are strict weak orders (interpretations \<open>fp_order\<close> and \<open>pk_order\<close> of \<open>slice_order\<close>), from which the
  selection is shown to be the first \<open>N\<close> of the eligible providers in order.
\<close>

subsection \<open>Slices\<close>

definition slice_to :: "nat \<Rightarrow> 'a list \<Rightarrow> 'a list result" where
  "slice_to n xs = (if n \<le> length xs then Inr (take n xs) else Inl (Panic ''slice bounds out of range''))"

definition slice_from :: "nat \<Rightarrow> 'a list \<Rightarrow> 'a list result" where
  "slice_from n xs = (if n \<le> length xs then Inr (drop n xs) else Inl (Panic ''slice bounds out of range''))"

subsection \<open>The cache\<close>

definition NewVotingPowerDistCache :: VotingPowerDistCache where
  "NewVotingPowerDistCache = \<lparr>dc_TotalVotingPower = 0, dc_FinalityProviders = [], dc_NumActiveFps = 0\<rparr>"

definition AddFinalityProviderDistInfo ::
  "FinalityProviderDistInfo \<Rightarrow> VotingPowerDistCache \<Rightarrow> VotingPowerDistCache" where
  "AddFinalityProviderDistInfo v dc = dc\<lparr>dc_FinalityProviders := dc_FinalityProviders dc @ [v]\<rparr>"

definition NewVotingPowerDistCacheWithFinalityProviders ::
  "FinalityProviderDistInfo list \<Rightarrow> VotingPowerDistCache" where
  "NewVotingPowerDistCacheWithFinalityProviders fps =
     foldl (\<lambda>cache fp. AddFinalityProviderDistInfo fp cache) NewVotingPowerDistCache fps"

definition dc_Empty :: "VotingPowerDistCache \<Rightarrow> bool" where
  "dc_Empty dc \<longleftrightarrow> length (dc_FinalityProviders dc) = 0"

text \<open>A Go map from keys to providers, as a store in key order.\<close>

definition fp_map :: "FinalityProviderDistInfo list \<Rightarrow> (btcpk, FinalityProviderDistInfo) kv" where
  "fp_map fps = foldl (\<lambda>m fp. kv_set (di_BtcPk fp) fp m) [] fps"

definition GetActiveFinalityProviderSet ::
  "VotingPowerDistCache \<Rightarrow> (btcpk, FinalityProviderDistInfo) kv result" where
  "GetActiveFinalityProviderSet dc =
     bindR (slice_to (unat (dc_NumActiveFps dc)) (dc_FinalityProviders dc)) (\<lambda>fps. Inr (fp_map fps))"

definition ActiveFpsByBtcPk :: "VotingPowerDistCache \<Rightarrow> btcpk list result" where
  "ActiveFpsByBtcPk dc =
     bindR (slice_to (unat (dc_NumActiveFps dc)) (dc_FinalityProviders dc)) (\<lambda>fps.
     Inr (map di_BtcPk fps))"

definition GetInactiveFinalityProviderSet ::
  "VotingPowerDistCache \<Rightarrow> (btcpk, FinalityProviderDistInfo) kv result" where
  "GetInactiveFinalityProviderSet dc =
     (if length (dc_FinalityProviders dc) \<le> unat (dc_NumActiveFps dc) then Inr []
      else bindR (slice_from (unat (dc_NumActiveFps dc)) (dc_FinalityProviders dc)) (\<lambda>fps.
        Inr (fp_map fps)))"

definition pk_lt :: "FinalityProviderDistInfo \<Rightarrow> FinalityProviderDistInfo \<Rightarrow> bool" where
  "pk_lt a b \<longleftrightarrow> di_BtcPk a < di_BtcPk b"

definition FindNewActiveFinalityProviders ::
  "VotingPowerDistCache \<Rightarrow> VotingPowerDistCache \<Rightarrow> FinalityProviderDistInfo list result" where
  "FindNewActiveFinalityProviders dc prevDc =
     bindR (GetActiveFinalityProviderSet dc) (\<lambda>activeFps.
     bindR (GetActiveFinalityProviderSet prevDc) (\<lambda>prevActiveFps.
     let newActiveFps = map snd (filter (\<lambda>e. \<not> kv_has prevActiveFps (fst e)) activeFps)
     in Inr (sort_slice_stable pk_lt newActiveFps)))"

definition FindNewInactiveFinalityProviders ::
  "VotingPowerDistCache \<Rightarrow> VotingPowerDistCache \<Rightarrow> FinalityProviderDistInfo list result" where
  "FindNewInactiveFinalityProviders dc prevDc =
     bindR (GetInactiveFinalityProviderSet dc) (\<lambda>inactiveFps.
     bindR (GetInactiveFinalityProviderSet prevDc) (\<lambda>prevInactiveFps.
     bindR (GetActiveFinalityProviderSet prevDc) (\<lambda>prevActiveFps.
     let newInactiveFps = map snd (filter (\<lambda>e. \<not> kv_has prevInactiveFps (fst e)) inactiveFps);
         currFps = map di_BtcPk (dc_FinalityProviders dc);
         removed = map snd (filter (\<lambda>e. fst e \<notin> set currFps) prevActiveFps)
     in Inr (sort_slice_stable pk_lt (newInactiveFps @ removed)))))"

subsection \<open>The order of the providers\<close>

definition ShouldBeZeroed :: "FinalityProviderDistInfo \<Rightarrow> bool" where
  "ShouldBeZeroed fp \<longleftrightarrow> di_IsJailed fp \<or> \<not> di_IsTimestamped fp \<or> di_IsSlashed fp"

definition fp_lt :: "FinalityProviderDistInfo \<Rightarrow> FinalityProviderDistInfo \<Rightarrow> bool" where
  "fp_lt i j =
     (if ShouldBeZeroed i \<and> \<not> ShouldBeZeroed j then False
      else if \<not> ShouldBeZeroed i \<and> ShouldBeZeroed j then True
      else if ShouldBeZeroed i \<and> ShouldBeZeroed j then di_BtcPk i < di_BtcPk j
      else if di_TotalBondedSat i = di_TotalBondedSat j then di_BtcPk i < di_BtcPk j
      else di_TotalBondedSat i > di_TotalBondedSat j)"

definition SortFinalityProvidersWithZeroedVotingPower ::
  "FinalityProviderDistInfo list \<Rightarrow> FinalityProviderDistInfo list" where
  "SortFinalityProvidersWithZeroedVotingPower fps = sort_slice_stable fp_lt fps"

text \<open>The loop of \<open>ApplyActiveFinalityProviders\<close>, with its two counters.\<close>

fun apply_active_loop :: "u32 \<Rightarrow> u32 \<Rightarrow> u64 \<Rightarrow> FinalityProviderDistInfo list \<Rightarrow> u32 \<times> u64" where
  "apply_active_loop maxActiveFPs numActiveFPs totalVotingPower [] = (numActiveFPs, totalVotingPower)"
| "apply_active_loop maxActiveFPs numActiveFPs totalVotingPower (fp # fps) =
     (if numActiveFPs = maxActiveFPs then (numActiveFPs, totalVotingPower)
      else if di_TotalBondedSat fp = 0 then (numActiveFPs, totalVotingPower)
      else if \<not> di_IsTimestamped fp then (numActiveFPs, totalVotingPower)
      else if di_IsJailed fp then (numActiveFPs, totalVotingPower)
      else if di_IsSlashed fp then (numActiveFPs, totalVotingPower)
      else apply_active_loop maxActiveFPs (numActiveFPs + 1) (totalVotingPower + di_TotalBondedSat fp) fps)"

definition ApplyActiveFinalityProviders :: "u32 \<Rightarrow> VotingPowerDistCache \<Rightarrow> VotingPowerDistCache" where
  "ApplyActiveFinalityProviders maxActiveFPs dc =
     (let fps = SortFinalityProvidersWithZeroedVotingPower (dc_FinalityProviders dc);
          (numActiveFPs, totalVotingPower) = apply_active_loop maxActiveFPs 0 0 fps
      in dc\<lparr>dc_FinalityProviders := fps, dc_TotalVotingPower := totalVotingPower,
            dc_NumActiveFps := numActiveFPs\<rparr>)"

subsection \<open>Dist infos\<close>

text \<open>An empty \<open>bytes\<close> field is nil.\<close>

definition FinalityProviderDistInfo_Validate :: "ext \<Rightarrow> FinalityProviderDistInfo \<Rightarrow> unit result" where
  "FinalityProviderDistInfo_Validate x fpdi =
     (if pk_size (di_BtcPk fpdi) \<noteq> BIP340PubKeyLen
        then Inl (Errorf ''invalid fp dist info. finality provider BTC public key length'')
      else if di_Addr fpdi = []
        then Inl (Errorf ''invalid fp dist info. empty finality provider address'')
      else if ext_bech32 x (ext_bech32_str x (di_Addr fpdi)) = None
        then Inl (Errorf ''invalid bech32 address'')
      else case di_Commission fpdi of
        None \<Rightarrow> Inl (Errorf ''invalid fp dist info. commission is nil'')
      | Some r \<Rightarrow>
          if r < 0 then Inl (Errorf ''invalid fp dist info. commission is negative'')
          else if r > dec_one then Inl (Errorf ''invalid fp dist info. commission is greater than 1'')
          else Inr ())"

fun dc_validate_loop ::
  "ext \<Rightarrow> btcpk list \<Rightarrow> u64 \<Rightarrow> u32 \<Rightarrow> FinalityProviderDistInfo list \<Rightarrow> (u64 \<times> u32) result" where
  "dc_validate_loop x fpMap accVP numActiveFPs [] = Inr (accVP, numActiveFPs)"
| "dc_validate_loop x fpMap accVP numActiveFPs (fp # fps) =
     (if di_BtcPk fp \<in> set fpMap
        then Inl (Errorf ''invalid voting power distribution cache. Duplicate finality provider entry'')
      else bindR (FinalityProviderDistInfo_Validate x fp) (\<lambda>_.
        if \<not> di_IsTimestamped fp \<or> di_IsJailed fp \<or> di_IsSlashed fp
        then dc_validate_loop x (di_BtcPk fp # fpMap) accVP numActiveFPs fps
        else dc_validate_loop x (di_BtcPk fp # fpMap) (accVP + di_TotalBondedSat fp) (numActiveFPs + 1) fps))"

definition VotingPowerDistCache_Validate :: "ext \<Rightarrow> VotingPowerDistCache \<Rightarrow> unit result" where
  "VotingPowerDistCache_Validate x dc =
     bindR (dc_validate_loop x [] 0 0
       (SortFinalityProvidersWithZeroedVotingPower (dc_FinalityProviders dc))) (\<lambda>(accVP, numActiveFPs).
     if dc_TotalVotingPower dc \<noteq> accVP
       then Inl (Errorf ''invalid voting power distribution cache. TotalVotingPower'')
     else if dc_NumActiveFps dc \<noteq> numActiveFPs
       then Inl (Errorf ''invalid voting power distribution cache. NumActiveFps'')
     else Inr ())"

text \<open>\<open>MustAccAddressFromBech32\<close> panics on a malformed address.\<close>

definition NewFinalityProviderDistInfo :: "ext \<Rightarrow> FinalityProvider \<Rightarrow> FinalityProviderDistInfo result" where
  "NewFinalityProviderDistInfo x fp =
     bindR (option_to_result (Panic ''MustAccAddressFromBech32'') (ext_bech32 x (fp_Addr fp))) (\<lambda>a.
     Inr \<lparr>di_BtcPk = fp_BtcPk fp, di_Addr = a, di_Commission = fp_Commission fp, di_TotalBondedSat = 0,
          di_IsTimestamped = False, di_IsJailed = fp_Jailed fp, di_IsSlashed = IsSlashed fp\<rparr>)"

definition AddBondedSats :: "u64 \<Rightarrow> FinalityProviderDistInfo \<Rightarrow> FinalityProviderDistInfo" where
  "AddBondedSats sats v = v\<lparr>di_TotalBondedSat := di_TotalBondedSat v + sats\<rparr>"

definition RemoveBondedSats :: "u64 \<Rightarrow> FinalityProviderDistInfo \<Rightarrow> FinalityProviderDistInfo result" where
  "RemoveBondedSats sats v =
     (if di_TotalBondedSat v < sats then Inl (Finality ErrInvalidSats)
      else Inr (v\<lparr>di_TotalBondedSat := di_TotalBondedSat v - sats\<rparr>))"

text \<open>An \<open>int64\<close> is a word read with its sign.\<close>

definition abs_int64 :: "u64 \<Rightarrow> u64" where
  "abs_int64 v = (if sint v < 0 then - v else v)"

definition ChangeDeltaSats :: "u64 \<Rightarrow> FinalityProviderDistInfo \<Rightarrow> FinalityProviderDistInfo result" where
  "ChangeDeltaSats fpDeltaSats v =
     (if sint fpDeltaSats > 0 then Inr (AddBondedSats fpDeltaSats v)
      else if sint fpDeltaSats < 0 then RemoveBondedSats (abs_int64 fpDeltaSats) v
      else Inr v)"

subsection \<open>Order laws\<close>

interpretation fp_order: slice_order fp_lt
proof
  show "\<not> fp_lt x x" for x by (simp add: fp_lt_def)
  show "fp_lt x z" if "fp_lt x y" "fp_lt y z" for x y z
    using that by (auto simp: fp_lt_def split: if_splits)
  show "\<not> fp_lt x z" if "\<not> fp_lt x y" "\<not> fp_lt y z" for x y z
    using that by (auto simp: fp_lt_def not_less split: if_splits)
qed

interpretation pk_order: slice_order pk_lt
  by unfold_locales (auto simp: pk_lt_def)

lemma pk_sorted:
  assumes "distinct (map di_BtcPk fps)"
  shows "sorted_wrt (<) (map di_BtcPk (sort_slice_stable pk_lt fps))"
proof -
  have "sorted (map di_BtcPk (sort_slice_stable pk_lt fps))"
    using pk_order.sort_in_order [of fps] by (simp add: sorted_map pk_lt_def not_less)
  moreover have "distinct (map di_BtcPk (sort_slice_stable pk_lt fps))"
    using assms mset_eq_imp_distinct_iff [of "map di_BtcPk (sort_slice_stable pk_lt fps)" "map di_BtcPk fps"]
    by simp
  ultimately show ?thesis by (simp add: strict_sorted_iff)
qed

subsection \<open>The active set\<close>

text \<open>A provider may vote when it has stake and timestamped randomness and is neither jailed nor
  slashed.\<close>

definition eligible :: "FinalityProviderDistInfo \<Rightarrow> bool" where
  "eligible fp \<longleftrightarrow> di_TotalBondedSat fp \<noteq> 0 \<and> \<not> ShouldBeZeroed fp"

definition active_fps :: "VotingPowerDistCache \<Rightarrow> FinalityProviderDistInfo list" where
  "active_fps dc = take (unat (dc_NumActiveFps dc)) (dc_FinalityProviders dc)"

lemma apply_active_loop_Cons:
  "apply_active_loop mx n tot (fp # fps) =
     (if n = mx \<or> \<not> eligible fp then (n, tot)
      else apply_active_loop mx (n + 1) (tot + di_TotalBondedSat fp) fps)"
  by (simp add: eligible_def ShouldBeZeroed_def)

lemma apply_active_loop_spec:
  "n \<le> mx \<Longrightarrow> apply_active_loop mx n tot fps =
     (let act = takeWhile eligible (take (unat mx - unat n) fps)
      in (n + word_of_nat (length act), tot + sum_list (map di_TotalBondedSat act)))"
proof (induction fps arbitrary: n tot)
  case (Cons fp fps)
  show ?case
  proof (cases "n = mx \<or> \<not> eligible fp")
    case True
    then have "takeWhile eligible (take (unat mx - unat n) (fp # fps)) = []"
      by (cases "unat mx - unat n") auto
    with True show ?thesis by (simp only: apply_active_loop_Cons) simp
  next
    case False
    then have lt: "n < mx" using Cons.prems by (simp add: order_less_le)
    have n1: "unat (n + 1) = Suc (unat n)" by (rule unat_Suc_word [OF lt])
    have "unat n < unat mx" using lt by (simp add: word_less_nat_alt)
    then have "take (unat mx - unat n) (fp # fps) = fp # take (unat mx - unat (n + 1)) fps"
      by (simp add: n1 take_Cons')
    moreover have "n + 1 \<le> mx" using n1 \<open>unat n < unat mx\<close> by (simp add: word_le_nat_alt)
    ultimately show ?thesis
      using Cons.IH [of "n + 1" "tot + di_TotalBondedSat fp"] False
      by (simp only: apply_active_loop_Cons) (simp add: Let_def add.assoc)
  qed
qed simp

lemma sort_eligible_first:
  "sort_slice_stable fp_lt fps =
     sort_slice_stable fp_lt (filter eligible fps) @ sort_slice_stable fp_lt (filter (\<lambda>fp. \<not> eligible fp) fps)"
  by (rule fp_order.sort_partition) (auto simp: eligible_def fp_lt_def word_neq_0_conv)

lemma takeWhile_take_prefix:
  assumes "\<forall>x\<in>set xs. P x" "\<forall>y\<in>set ys. \<not> P y"
  shows "takeWhile P (take n (xs @ ys)) = take n xs"
proof -
  have "takeWhile P (take m ys) = []" for m
  proof -
    have "\<forall>y\<in>set (take m ys). \<not> P y" using assms(2) by (auto dest: in_set_takeD)
    then show ?thesis by (cases "take m ys") auto
  qed
  moreover have "\<forall>x\<in>set (take n xs). P x" using assms(1) by (auto dest: in_set_takeD)
  ultimately show ?thesis by (simp add: takeWhile_append2)
qed

lemma ApplyActive_eq:
  fixes dc :: VotingPowerDistCache and mx :: u32
  defines "dc' \<equiv> ApplyActiveFinalityProviders mx dc"
    and "sel \<equiv> take (unat mx) (sort_slice_stable fp_lt (filter eligible (dc_FinalityProviders dc)))"
  shows "active_fps dc' = sel \<and> unat (dc_NumActiveFps dc') = length sel \<and>
    dc_TotalVotingPower dc' = sum_list (map di_TotalBondedSat sel) \<and>
    mset (dc_FinalityProviders dc') = mset (dc_FinalityProviders dc) \<and>
    sorted_wrt (\<lambda>a b. \<not> fp_lt b a) (dc_FinalityProviders dc')"
proof -
  let ?good = "sort_slice_stable fp_lt (filter eligible (dc_FinalityProviders dc))"
  let ?sorted = "sort_slice_stable fp_lt (dc_FinalityProviders dc)"
  have "takeWhile eligible (take (unat mx) ?sorted) = sel"
    unfolding sel_def
    by (subst sort_eligible_first) (rule takeWhile_take_prefix, auto)
  then have loop: "apply_active_loop mx 0 0 ?sorted =
      (word_of_nat (length sel), sum_list (map di_TotalBondedSat sel))"
    by (simp add: apply_active_loop_spec Let_def)
  have "length sel \<le> unat mx" by (simp add: sel_def)
  then have n: "unat (word_of_nat (length sel) :: u32) = length sel" by (rule unat_word_of_nat_le)
  have dc': "dc_FinalityProviders dc' = ?sorted" "dc_NumActiveFps dc' = word_of_nat (length sel)"
    "dc_TotalVotingPower dc' = sum_list (map di_TotalBondedSat sel)"
    by (simp_all add: dc'_def ApplyActiveFinalityProviders_def
      SortFinalityProvidersWithZeroedVotingPower_def loop Let_def)
  have "length sel \<le> length ?good" by (simp add: sel_def)
  moreover have "active_fps dc' = take (length sel) ?sorted" by (simp add: active_fps_def dc' n)
  ultimately have "active_fps dc' = take (length sel) ?good"
    unfolding sort_eligible_first [of "dc_FinalityProviders dc"] by simp
  also have "\<dots> = sel" by (simp add: sel_def min_def)
  finally show ?thesis by (simp add: dc' n fp_order.sort_in_order)
qed


subsection \<open>Reporting changes of the active set\<close>

lemma kv_get_fp_map: "kv_get (fp_map fps) pk = find (\<lambda>fp. di_BtcPk fp = pk) (rev fps)"
  by (induction fps rule: rev_induct) (auto simp: fp_map_def)

lemma kv_wf_fp_map: "kv_wf (fp_map fps)"
  by (induction fps rule: rev_induct) (auto simp: fp_map_def)

lemma kv_has_fp_map: "kv_has (fp_map fps) pk \<longleftrightarrow> pk \<in> di_BtcPk ` set fps"
  by (auto simp: kv_has_def kv_get_fp_map find_None_iff image_iff)

lemma fp_map_entry: "(pk, fp) \<in> set (fp_map fps) \<Longrightarrow> fp \<in> set fps \<and> di_BtcPk fp = pk"
  by (auto simp: kv_entries [OF kv_wf_fp_map] kv_get_fp_map find_Some_iff)
    (metis length_rev nth_mem set_rev)

lemma fp_map_keys: "fst ` set (fp_map fps) = di_BtcPk ` set fps"
proof -
  have "pk \<in> fst ` set (fp_map fps) \<longleftrightarrow> pk \<in> di_BtcPk ` set fps" for pk
    using kv.iter_keys [OF kv_wf_fp_map, of pk fps] kv_has_fp_map [of fps pk] by (simp add: kv_has_def)
  then show ?thesis by blast
qed

lemma map_pk_fp_map: "map (di_BtcPk \<circ> snd) (filter P (fp_map fps)) = map fst (filter P (fp_map fps))"
proof (rule map_cong [OF refl])
  fix e assume "e \<in> set (filter P (fp_map fps))"
  then show "(di_BtcPk \<circ> snd) e = fst e" using fp_map_entry [of "fst e" "snd e" fps] by simp
qed

lemma distinct_fp_map: "distinct (map di_BtcPk (map snd (filter P (fp_map fps))))"
  unfolding map_map map_pk_fp_map using kv_wf_distinct [OF kv_wf_fp_map, of fps] distinct_map_filter by blast

lemma pks_fp_map:
  "di_BtcPk ` set (map snd (filter (\<lambda>e. P (fst e)) (fp_map fps))) = {pk \<in> di_BtcPk ` set fps. P pk}"
proof -
  have "di_BtcPk ` set (map snd (filter (\<lambda>e. P (fst e)) (fp_map fps))) =
      set (map (di_BtcPk \<circ> snd) (filter (\<lambda>e. P (fst e)) (fp_map fps)))"
    by (simp only: set_map image_comp)
  also have "\<dots> = {pk \<in> fst ` set (fp_map fps). P pk}"
    unfolding map_pk_fp_map by auto
  finally show ?thesis unfolding fp_map_keys .
qed

text \<open>The keys of the active and of the inactive providers of a cache.\<close>

definition active_pks :: "VotingPowerDistCache \<Rightarrow> btcpk set" where
  "active_pks dc = di_BtcPk ` set (active_fps dc)"

definition inactive_pks :: "VotingPowerDistCache \<Rightarrow> btcpk set" where
  "inactive_pks dc = di_BtcPk ` set (drop (unat (dc_NumActiveFps dc)) (dc_FinalityProviders dc))"

definition dc_wf :: "VotingPowerDistCache \<Rightarrow> bool" where
  "dc_wf dc \<longleftrightarrow> distinct (map di_BtcPk (dc_FinalityProviders dc)) \<and>
     unat (dc_NumActiveFps dc) \<le> length (dc_FinalityProviders dc)"

lemma active_inactive:
  assumes "dc_wf dc"
  shows "di_BtcPk ` set (dc_FinalityProviders dc) = active_pks dc \<union> inactive_pks dc"
    "active_pks dc \<inter> inactive_pks dc = {}"
proof -
  let ?n = "unat (dc_NumActiveFps dc)" and ?fps = "dc_FinalityProviders dc"
  have "set ?fps = set (take ?n ?fps) \<union> set (drop ?n ?fps)" by (metis append_take_drop_id set_append)
  then show "di_BtcPk ` set ?fps = active_pks dc \<union> inactive_pks dc"
    by (simp add: active_pks_def inactive_pks_def active_fps_def image_Un)
  have "distinct (map di_BtcPk (take ?n ?fps) @ map di_BtcPk (drop ?n ?fps))"
    using assms by (simp add: dc_wf_def flip: map_append)
  then show "active_pks dc \<inter> inactive_pks dc = {}"
    by (simp add: active_pks_def inactive_pks_def active_fps_def)
qed

lemma GetActive_wf: "dc_wf dc \<Longrightarrow> GetActiveFinalityProviderSet dc = Inr (fp_map (active_fps dc))"
  by (simp add: GetActiveFinalityProviderSet_def slice_to_def dc_wf_def active_fps_def)

lemma GetInactive_wf:
  "dc_wf dc \<Longrightarrow> GetInactiveFinalityProviderSet dc =
     Inr (fp_map (drop (unat (dc_NumActiveFps dc)) (dc_FinalityProviders dc)))"
  by (auto simp: GetInactiveFinalityProviderSet_def slice_from_def dc_wf_def fp_map_def)


lemma ApplyActive_wf:
  assumes "distinct (map di_BtcPk (dc_FinalityProviders dc))"
  shows "dc_wf (ApplyActiveFinalityProviders mx dc)"
proof -
  let ?dc = "ApplyActiveFinalityProviders mx dc"
  let ?el = "filter eligible (dc_FinalityProviders dc)"
  note eq = ApplyActive_eq [of mx dc, THEN conjunct2]
  have n: "unat (dc_NumActiveFps ?dc) = length (take (unat mx) (sort_slice_stable fp_lt ?el))"
    by (rule eq [THEN conjunct1])
  have "mset (dc_FinalityProviders ?dc) = mset (dc_FinalityProviders dc)"
    by (rule eq [THEN conjunct2, THEN conjunct2, THEN conjunct1])
  then have "mset (map di_BtcPk (dc_FinalityProviders ?dc)) = mset (map di_BtcPk (dc_FinalityProviders dc))"
    and len: "length (dc_FinalityProviders ?dc) = length (dc_FinalityProviders dc)"
    by (simp, rule mset_eq_length)
  from mset_eq_imp_distinct_iff [OF this(1)] assms have "distinct (map di_BtcPk (dc_FinalityProviders ?dc))"
    by simp
  moreover have "length ?el \<le> length (dc_FinalityProviders dc)" by simp
  ultimately show ?thesis unfolding dc_wf_def n len length_take length_sort_slice by linarith
qed

definition sample_di :: "btcpk \<Rightarrow> u64 \<Rightarrow> FinalityProviderDistInfo" where
  "sample_di pk sats = \<lparr>di_BtcPk = pk, di_Addr = ''addr'', di_Commission = Some 0, di_TotalBondedSat = sats,
     di_IsTimestamped = True, di_IsJailed = False, di_IsSlashed = False\<rparr>"

definition sample_dc :: "FinalityProviderDistInfo list \<Rightarrow> u32 \<Rightarrow> VotingPowerDistCache" where
  "sample_dc fps n = \<lparr>dc_TotalVotingPower = sum_list (map di_TotalBondedSat (take (unat n) fps)),
     dc_FinalityProviders = fps, dc_NumActiveFps = n\<rparr>"


subsection \<open>Changing the bonded amount\<close>

lemma ChangeDeltaSats_eq:
  "ChangeDeltaSats d v =
     (if sint d < 0 \<and> di_TotalBondedSat v < - d then Inl (Finality ErrInvalidSats)
      else Inr (v\<lparr>di_TotalBondedSat := di_TotalBondedSat v + d\<rparr>))"
proof -
  have "d = 0" if "sint d = 0" using that by (simp add: signed_eq_0_iff)
  then show ?thesis
    by (auto simp: ChangeDeltaSats_def AddBondedSats_def RemoveBondedSats_def abs_int64_def)
qed

lemma uint_word_of_int_64: "0 \<le> k \<Longrightarrow> k < 2 ^ 64 \<Longrightarrow> uint (word_of_int k :: u64) = k"
  by (simp add: uint_word_of_int)

lemma uint_add_sint:
  fixes a d :: u64
  assumes "0 \<le> uint a + sint d" "uint a + sint d < 2 ^ 64"
  shows "uint (a + d) = uint a + sint d"
proof -
  have "uint (a + d) = uint (word_of_int (uint a + sint d) :: u64)" by simp
  also have "\<dots> = uint a + sint d" by (rule uint_word_of_int_64 [OF assms])
  finally show ?thesis .
qed

lemma sint_less_zero:
  assumes "sint (d :: u64) < 0"
  shows "uint (- d) = - sint d"
proof -
  have "- (2 ^ 63) \<le> sint d" using sint_ge [of d] by simp
  then have "uint (word_of_int (- sint d) :: u64) = - sint d"
    using assms by (intro uint_word_of_int_64) simp_all
  moreover have "uint (- d) = uint (word_of_int (- sint d) :: u64)" by simp
  ultimately show ?thesis by (simp only:)
qed

text \<open>The change is exact on integers: it fails exactly when the amount would become negative.\<close>

lemma ChangeDeltaSats_exact:
  assumes "uint (di_TotalBondedSat v) + sint d < 2 ^ 64"
  shows "if uint (di_TotalBondedSat v) + sint d < 0 then ChangeDeltaSats d v = Inl (Finality ErrInvalidSats)
    else \<exists>v'. ChangeDeltaSats d v = Inr v' \<and> v' = v\<lparr>di_TotalBondedSat := di_TotalBondedSat v'\<rparr> \<and>
      uint (di_TotalBondedSat v') = uint (di_TotalBondedSat v) + sint d"
proof -
  have "sint d < 0 \<and> di_TotalBondedSat v < - d \<longleftrightarrow> uint (di_TotalBondedSat v) + sint d < 0"
    using sint_less_zero [of d] uint_ge_0 [of "di_TotalBondedSat v"] unfolding word_less_def by linarith
  then show ?thesis
    using uint_add_sint [OF _ assms] by (auto simp: ChangeDeltaSats_eq not_less)
qed

subsection \<open>Validation of a cache\<close>

lemma dc_validate_loop_spec:
  assumes "distinct (map di_BtcPk fps)" "set (map di_BtcPk fps) \<inter> set seen = {}"
    "\<And>fp. fp \<in> set fps \<Longrightarrow> FinalityProviderDistInfo_Validate x fp = Inr ()"
  shows "dc_validate_loop x seen acc n fps =
    Inr (acc + sum_list (map di_TotalBondedSat (filter (\<lambda>fp. \<not> ShouldBeZeroed fp) fps)),
         n + word_of_nat (length (filter (\<lambda>fp. \<not> ShouldBeZeroed fp) fps)))"
  using assms
proof (induction fps arbitrary: seen acc n)
  case (Cons fp fps)
  have valid: "FinalityProviderDistInfo_Validate x fp = Inr ()"
    "\<And>fp. fp \<in> set fps \<Longrightarrow> FinalityProviderDistInfo_Validate x fp = Inr ()"
    using Cons.prems(3) by simp_all
  have IH: "dc_validate_loop x (di_BtcPk fp # seen) acc' n' fps =
      Inr (acc' + sum_list (map di_TotalBondedSat (filter (\<lambda>fp. \<not> ShouldBeZeroed fp) fps)),
           n' + word_of_nat (length (filter (\<lambda>fp. \<not> ShouldBeZeroed fp) fps)))" for acc' n'
    using Cons.prems valid(2) by (intro Cons.IH) auto
  have "di_BtcPk fp \<notin> set seen" using Cons.prems(2) by simp
  then show ?case
    using valid(1) by (cases "ShouldBeZeroed fp") (auto simp: IH ShouldBeZeroed_def add.assoc)
qed simp

text \<open>C35. Genesis validation of a cache that \<open>ApplyActiveFinalityProviders\<close> made (distinct keys, valid
  entries, every amount positive) accepts it exactly when the number of eligible providers does not
  exceed the maximum: it counts every eligible provider as active and does not know the maximum, so that
  a cache with a full active set and further eligible providers is rejected.\<close>

theorem Validate_rejects_capped_cache:
  assumes dist: "distinct (map di_BtcPk (dc_FinalityProviders dc))"
    and valid: "\<And>fp. fp \<in> set (dc_FinalityProviders dc) \<Longrightarrow> FinalityProviderDistInfo_Validate x fp = Inr ()"
    and pos: "\<And>fp. fp \<in> set (dc_FinalityProviders dc) \<Longrightarrow> di_TotalBondedSat fp \<noteq> 0"
    and len: "length (dc_FinalityProviders dc) < 2 ^ 32"
  shows "VotingPowerDistCache_Validate x (ApplyActiveFinalityProviders mx dc) = Inr () \<longleftrightarrow>
    length (filter eligible (dc_FinalityProviders dc)) \<le> unat mx"
proof -
  let ?dc = "ApplyActiveFinalityProviders mx dc"
  let ?el = "filter eligible (dc_FinalityProviders dc)"
  let ?top = "take (unat mx) (sort_slice_stable fp_lt ?el)"
  let ?sorted = "sort_slice_stable fp_lt (dc_FinalityProviders ?dc)"
  note eq = ApplyActive_eq [of mx dc, THEN conjunct2]
  have n: "unat (dc_NumActiveFps ?dc) = length ?top" by (rule eq [THEN conjunct1])
  have tot: "dc_TotalVotingPower ?dc = sum_list (map di_TotalBondedSat ?top)"
    by (rule eq [THEN conjunct2, THEN conjunct1])
  have ms: "mset ?sorted = mset (dc_FinalityProviders dc)"
    using eq [THEN conjunct2, THEN conjunct2, THEN conjunct1] by simp
  then have set_eq: "set ?sorted = set (dc_FinalityProviders dc)" by (rule mset_eq_setD)
  have "mset (map di_BtcPk ?sorted) = mset (map di_BtcPk (dc_FinalityProviders dc))" using ms by simp
  from mset_eq_imp_distinct_iff [OF this] dist have "distinct (map di_BtcPk ?sorted)" by simp
  then have loop: "dc_validate_loop x [] 0 0 ?sorted =
      Inr (sum_list (map di_TotalBondedSat (filter (\<lambda>fp. \<not> ShouldBeZeroed fp) ?sorted)),
           word_of_nat (length (filter (\<lambda>fp. \<not> ShouldBeZeroed fp) ?sorted)))"
    using dc_validate_loop_spec [of ?sorted "[]" x 0 0] valid set_eq by simp
  have "filter (\<lambda>fp. \<not> ShouldBeZeroed fp) ?sorted = filter eligible ?sorted"
    using pos set_eq by (intro filter_cong) (auto simp: eligible_def)
  then have fms: "mset (filter (\<lambda>fp. \<not> ShouldBeZeroed fp) ?sorted) = mset ?el"
    by (simp only: mset_filter ms)
  then have flen: "length (filter (\<lambda>fp. \<not> ShouldBeZeroed fp) ?sorted) = length ?el"
    by (rule mset_eq_length)
  have "length ?el < 2 ^ 32" using len length_filter_le [of eligible "dc_FinalityProviders dc"] by linarith
  then have un: "unat (word_of_nat (length ?el) :: u32) = length ?el" by (simp add: unat_of_nat)
  have res: "VotingPowerDistCache_Validate x ?dc = Inr () \<longleftrightarrow>
      dc_TotalVotingPower ?dc = sum_list (map di_TotalBondedSat (filter (\<lambda>fp. \<not> ShouldBeZeroed fp) ?sorted)) \<and>
      dc_NumActiveFps ?dc = word_of_nat (length ?el)"
    by (simp add: VotingPowerDistCache_Validate_def SortFinalityProvidersWithZeroedVotingPower_def loop flen)
  show ?thesis
  proof
    assume "VotingPowerDistCache_Validate x ?dc = Inr ()"
    then have "length ?top = length ?el" using res n un by metis
    then show "length ?el \<le> unat mx" by (simp add: min_def split: if_splits)
  next
    assume le: "length ?el \<le> unat mx"
    then have top: "?top = sort_slice_stable fp_lt ?el" by simp
    have "unat (dc_NumActiveFps ?dc) = unat (word_of_nat (length ?el) :: u32)" using n top un by simp
    then have "dc_NumActiveFps ?dc = word_of_nat (length ?el)" by (simp only: word_unat_eq_iff)
    moreover have "mset (map di_TotalBondedSat (sort_slice_stable fp_lt ?el)) =
        mset (map di_TotalBondedSat (filter (\<lambda>fp. \<not> ShouldBeZeroed fp) ?sorted))"
      using fms by simp
    then have "sum_list (map di_TotalBondedSat (sort_slice_stable fp_lt ?el)) =
        sum_list (map di_TotalBondedSat (filter (\<lambda>fp. \<not> ShouldBeZeroed fp) ?sorted))"
      by (metis sum_mset_sum_list)
    ultimately show "VotingPowerDistCache_Validate x ?dc = Inr ()" using res tot top by simp
  qed
qed

definition sample_pk :: "char \<Rightarrow> btcpk" where
  "sample_pk ch = replicate 64 ch"

theorem Validate_rejects_capped_cache_witness:
  "VotingPowerDistCache_Validate sample_ext (ApplyActiveFinalityProviders 1
     (sample_dc [sample_di (sample_pk CHR ''a'') 5, sample_di (sample_pk CHR ''b'') 9] 0)) \<noteq> Inr ()"
proof -
  let ?fps = "[sample_di (sample_pk CHR ''a'') 5, sample_di (sample_pk CHR ''b'') 9]"
  have "distinct (map di_BtcPk ?fps)" "length (filter eligible ?fps) = 2"
    "\<forall>fp\<in>set ?fps. FinalityProviderDistInfo_Validate sample_ext fp = Inr ()"
    "\<forall>fp\<in>set ?fps. di_TotalBondedSat fp \<noteq> 0"
    by code_simp+
  then show ?thesis
    using Validate_rejects_capped_cache [of "sample_dc ?fps 0" sample_ext 1] by (auto simp: sample_dc_def)
qed

end
