(* ===== verification/Finality_State.thy ===== *)
theory Finality_State
  imports Power_Table
begin

text \<open>
  The state of \<open>x/finality\<close> and the accessors of its stores: parameters
  (\<open>keeper/params.go\<close>, \<open>types/params.go\<close>), indexed blocks, votes, evidence
  (\<open>keeper/indexed_blocks.go\<close>, \<open>votes.go\<close>, \<open>evidence.go\<close>), the voting power table and the
  distribution cache (\<open>keeper/power_table.go\<close>), and the activation checks of
  \<open>keeper/keeper.go\<close>. The modules that the keeper calls back, the finality hooks and the
  incentive keeper, are a parameter of the operations that call them: a record of functions on a
  state of their own.
\<close>

subsection \<open>State\<close>

text \<open>A chunk of a missed-block bitmap is the set of its positions that are set. Stores whose keys
  have two parts are keyed by the pair.\<close>

record fin_state =
  fs_params :: "FinalityParams option"
  fs_blocks :: "u64 \<rightharpoonup> IndexedBlock"
  fs_votes :: "(u64 \<times> btcpk, bytes) kv"
  fs_pub_rand :: "(btcpk \<times> u64, bytes) kv"
  fs_pub_rand_commit :: "(btcpk \<times> u64, PubRandCommit) kv"
  fs_pub_rand_commit_index :: "btcpk \<rightharpoonup> u64 list"
  fs_evidence :: "(btcpk \<times> u64, Evidence) kv"
  fs_next_height_to_finalize :: "u64 option"
  fs_next_height_to_reward :: "u64 option"
  fs_voting_power :: "(u64 \<times> btcpk, u64) kv"
  fs_vp_dist_cache :: "u64 \<rightharpoonup> VotingPowerDistCache"
  fs_signing_tracker :: "btcpk \<rightharpoonup> FinalityProviderSigningInfo"
  fs_missed_bitmap :: "(btcpk \<times> u64, nat set) kv"

text \<open>The finality hooks (delegator address after the provider's address, then whether the
  provider is in the previous and in the new active set, and the satoshis) and the methods of the
  incentive keeper.\<close>

record 'h env =
  env_AfterBtcDelegationUnbonded :: "addr \<Rightarrow> addr \<Rightarrow> bool \<Rightarrow> bool \<Rightarrow> u64 \<Rightarrow> 'h \<Rightarrow> 'h result"
  env_AfterBtcDelegationActivated :: "addr \<Rightarrow> addr \<Rightarrow> bool \<Rightarrow> bool \<Rightarrow> u64 \<Rightarrow> 'h \<Rightarrow> 'h result"
  env_AfterBbnFpEntersActiveSet :: "addr \<Rightarrow> 'h \<Rightarrow> 'h result"
  env_AfterBbnFpRemovedFromActiveSet :: "addr \<Rightarrow> 'h \<Rightarrow> 'h result"
  env_BtcDelegationActivated :: "addr \<Rightarrow> addr \<Rightarrow> u64 \<Rightarrow> 'h \<Rightarrow> 'h result"
  env_BtcDelegationUnbonded :: "addr \<Rightarrow> addr \<Rightarrow> u64 \<Rightarrow> 'h \<Rightarrow> 'h result"
  env_RewardBTCStaking :: "u64 \<Rightarrow> VotingPowerDistCache \<Rightarrow> btcpk set \<Rightarrow> 'h \<Rightarrow> 'h"
  env_IndexRefundableMsg :: "'h \<Rightarrow> 'h"

text \<open>Everything that a block changes: the two modules, the modules called back, and the events
  that were emitted.\<close>

record 'h world =
  w_bs :: bs_state
  w_fin :: fin_state
  w_ext :: 'h
  w_events :: "emitted list"

definition emit :: "emitted \<Rightarrow> 'h world \<Rightarrow> 'h world" where
  "emit ev w = w\<lparr>w_events := w_events w @ [ev]\<rparr>"

lemma emit_simps [simp]:
  "w_bs (emit ev w) = w_bs w" "w_fin (emit ev w) = w_fin w" "w_ext (emit ev w) = w_ext w"
  "w_events (emit ev w) = w_events w @ [ev]"
  by (simp_all add: emit_def)

subsection \<open>Parameters\<close>

definition validateMinPubRand :: "u64 \<Rightarrow> unit result" where
  "validateMinPubRand minPubRand =
     (if minPubRand = 0 then Inl (Errorf ''min Pub Rand cannot be 0'') else Inr ())"

definition validateMaxActiveFinalityProviders :: "u32 \<Rightarrow> unit result" where
  "validateMaxActiveFinalityProviders n =
     (if n = 0 then Inl (Errorf ''max finality providers must be positive'') else Inr ())"

definition validateSignedBlocksWindow :: "int \<Rightarrow> unit result" where
  "validateSignedBlocksWindow v =
     (if v \<le> 0 then Inl (Errorf ''signed blocks window must be positive'') else Inr ())"

definition validateFinalitySigTimeout :: "int \<Rightarrow> unit result" where
  "validateFinalitySigTimeout v =
     (if v \<le> 0 then Inl (Errorf ''finality vote delay must be positive'') else Inr ())"

definition validateMinSignedPerWindow :: "dec option \<Rightarrow> unit result" where
  "validateMinSignedPerWindow d = (case d of
       None \<Rightarrow> Inl (Errorf ''min signed per window cannot be nil'')
     | Some v \<Rightarrow>
         if v < 0 then Inl (Errorf ''min signed per window cannot be negative'')
         else if v > dec_one then Inl (Errorf ''min signed per window too large'')
         else Inr ())"

definition fin_Params_Validate :: "FinalityParams \<Rightarrow> unit result" where
  "fin_Params_Validate p =
     bindR (validateMaxActiveFinalityProviders (fpar_MaxActiveFinalityProviders p)) (\<lambda>_.
     bindR (validateSignedBlocksWindow (fpar_SignedBlocksWindow p)) (\<lambda>_.
     bindR (validateFinalitySigTimeout (fpar_FinalitySigTimeout p)) (\<lambda>_.
     bindR (validateMinSignedPerWindow (fpar_MinSignedPerWindow p)) (\<lambda>_.
     validateMinPubRand (fpar_MinPubRand p)))))"

text \<open>\<open>LegacyDec.MulInt64\<close> is exact; \<open>RoundInt64\<close> is code of the library.\<close>

definition MinSignedPerWindowInt :: "ext \<Rightarrow> FinalityParams \<Rightarrow> int result" where
  "MinSignedPerWindowInt x p = (case fpar_MinSignedPerWindow p of
       None \<Rightarrow> Inl (Panic ''nil MinSignedPerWindow'')
     | Some d \<Rightarrow> Inr (ext_round_int x (d * fpar_SignedBlocksWindow p)))"

definition fin_SetParams :: "FinalityParams \<Rightarrow> fin_state \<Rightarrow> fin_state result" where
  "fin_SetParams p f = bindR (fin_Params_Validate p) (\<lambda>_. Inr (f\<lparr>fs_params := Some p\<rparr>))"

definition zero_params :: FinalityParams where
  "zero_params = \<lparr>fpar_MaxActiveFinalityProviders = 0, fpar_SignedBlocksWindow = 0,
     fpar_FinalitySigTimeout = 0, fpar_MinSignedPerWindow = None, fpar_MinPubRand = 0,
     fpar_JailDuration = 0, fpar_FinalityActivationHeight = 0\<rparr>"

definition fin_GetParams :: "fin_state \<Rightarrow> FinalityParams" where
  "fin_GetParams f = (case fs_params f of None \<Rightarrow> zero_params | Some p \<Rightarrow> p)"

subsection \<open>Indexed blocks\<close>

definition SetBlock :: "IndexedBlock \<Rightarrow> fin_state \<Rightarrow> fin_state" where
  "SetBlock b f = f\<lparr>fs_blocks := (fs_blocks f)(ib_Height b \<mapsto> b)\<rparr>"

definition HasBlock :: "fin_state \<Rightarrow> u64 \<Rightarrow> bool" where
  "HasBlock f h \<longleftrightarrow> fs_blocks f h \<noteq> None"

text \<open>The block whose fields are all zero is encoded as no bytes, and reads as missing.\<close>

definition zero_block :: IndexedBlock where
  "zero_block = \<lparr>ib_Height = 0, ib_AppHash = [], ib_Finalized = False\<rparr>"

definition GetBlock :: "fin_state \<Rightarrow> u64 \<Rightarrow> IndexedBlock result" where
  "GetBlock f h = (case fs_blocks f h of
       None \<Rightarrow> Inl (Finality ErrBlockNotFound)
     | Some b \<Rightarrow> if b = zero_block then Inl (Finality ErrBlockNotFound) else Inr b)"

definition IndexBlock :: "ctx \<Rightarrow> fin_state \<Rightarrow> fin_state" where
  "IndexBlock c f =
     SetBlock \<lparr>ib_Height = cx_height c, ib_AppHash = cx_AppHash c, ib_Finalized = False\<rparr> f"

definition ib_Equal :: "IndexedBlock \<Rightarrow> IndexedBlock \<Rightarrow> bool" where
  "ib_Equal ib ib2 =
     (if ib_AppHash ib \<noteq> ib_AppHash ib2 then False
      else if ib_Height ib \<noteq> ib_Height ib2 then False
      else True)"

definition ib_Validate :: "IndexedBlock \<Rightarrow> unit result" where
  "ib_Validate ib =
     (if ib_Height ib > 0 \<and> ib_AppHash ib = []
      then Inl (Errorf ''invalid indexed block. Empty app hash'') else Inr ())"

subsection \<open>Votes\<close>

definition SchnorrEOTSSigLen :: nat where
  "SchnorrEOTSSigLen = 32"

definition NewSchnorrEOTSSig :: "bytes \<Rightarrow> bytes result" where
  "NewSchnorrEOTSSig data =
     (if length data \<noteq> SchnorrEOTSSigLen then Inl (Errorf ''invalid data length'') else Inr data)"

definition SetSig :: "u64 \<Rightarrow> btcpk \<Rightarrow> bytes \<Rightarrow> fin_state \<Rightarrow> fin_state" where
  "SetSig h pk sig f = f\<lparr>fs_votes := kv_set (h, pk) sig (fs_votes f)\<rparr>"

definition HasSig :: "fin_state \<Rightarrow> u64 \<Rightarrow> btcpk \<Rightarrow> bool" where
  "HasSig f h pk = kv_has (fs_votes f) (h, pk)"

definition GetSig :: "ctx \<Rightarrow> fin_state \<Rightarrow> u64 \<Rightarrow> btcpk \<Rightarrow> bytes result" where
  "GetSig c f h pk =
     (if cx_height c < h then Inl (Finality ErrHeightTooHigh)
      else case kv_get (fs_votes f) (h, pk) of
        None \<Rightarrow> Inl (Finality ErrVoteNotFound)
      | Some sigBytes \<Rightarrow>
          if sigBytes = [] then Inl (Finality ErrVoteNotFound)
          else case NewSchnorrEOTSSig sigBytes of
            Inl e \<Rightarrow> Inl (Panic ''failed to unmarshal EOTS signature'')
          | Inr sig \<Rightarrow> Inr sig)"

definition NewBIP340PubKey :: "btcpk \<Rightarrow> btcpk result" where
  "NewBIP340PubKey pk =
     (if pk_size pk \<noteq> BIP340PubKeyLen then Inl (Errorf ''malformed data for BIP340 public key'')
      else Inr pk)"

definition must_pk :: "btcpk \<Rightarrow> btcpk result" where
  "must_pk pk = (case NewBIP340PubKey pk of Inl e \<Rightarrow> Inl (Panic ''ErrUnmarshal'') | Inr p \<Rightarrow> Inr p)"

text \<open>The maps that the code builds from an iterator are the entries it read.\<close>

definition GetSigSet :: "fin_state \<Rightarrow> u64 \<Rightarrow> (btcpk, bytes) kv result" where
  "GetSigSet f h = foldR (\<lambda>sigs (pk, v).
       bindR (must_pk pk) (\<lambda>p.
       case NewSchnorrEOTSSig v of
         Inl e \<Rightarrow> Inl (Panic ''failed to unmarshal EOTS signature'')
       | Inr sig \<Rightarrow> Inr (sigs @ [(p, sig)]))) [] (kv_sub h (fs_votes f))"

definition GetVoters :: "fin_state \<Rightarrow> u64 \<Rightarrow> btcpk set result" where
  "GetVoters f h = foldR (\<lambda>voters e. bindR (must_pk (fst e)) (\<lambda>p. Inr (insert p voters)))
       {} (kv_sub h (fs_votes f))"

subsection \<open>Evidence\<close>

definition Evidence_ValidateBasic :: "ext \<Rightarrow> Evidence \<Rightarrow> unit result" where
  "Evidence_ValidateBasic x e = (case ev_FpBtcPk e of
       None \<Rightarrow> Inl (Errorf ''empty FpBtcPk'')
     | Some pk \<Rightarrow>
         guardR (\<not> ext_pubkey_ok x pk) (Lib ''ParsePubKey'')
        (guardR (ev_PubRand e = None) (Errorf ''empty PubRand'')
        (guardR (length (ev_CanonicalAppHash e) \<noteq> 32) (Errorf ''malformed CanonicalAppHash'')
        (guardR (length (ev_ForkAppHash e) \<noteq> 32) (Errorf ''malformed ForkAppHash'')
        (case ev_ForkFinalitySig e of
           None \<Rightarrow> Inl (Errorf ''empty ForkFinalitySig'')
         | Some sig \<Rightarrow>
             if length sig \<noteq> SchnorrEOTSSigLen then Inl (Errorf ''malformed ForkFinalitySig'')
             else Inr ())))))"

definition IsSlashable :: "ext \<Rightarrow> Evidence \<Rightarrow> bool" where
  "IsSlashable x e = (case Evidence_ValidateBasic x e of
       Inl _ \<Rightarrow> False
     | Inr _ \<Rightarrow> if ev_CanonicalFinalitySig e = None then False else True)"

definition SetEvidence :: "Evidence \<Rightarrow> fin_state \<Rightarrow> fin_state result" where
  "SetEvidence e f = (case ev_FpBtcPk e of
       None \<Rightarrow> Inl (Panic ''nil FpBtcPk'')
     | Some pk \<Rightarrow> Inr (f\<lparr>fs_evidence := kv_set (pk, ev_BlockHeight e) e (fs_evidence f)\<rparr>))"

definition HasEvidence :: "fin_state \<Rightarrow> btcpk \<Rightarrow> u64 \<Rightarrow> bool" where
  "HasEvidence f pk h = kv_has (fs_evidence f) (pk, h)"

definition GetEvidence :: "ctx \<Rightarrow> fin_state \<Rightarrow> btcpk \<Rightarrow> u64 \<Rightarrow> Evidence result" where
  "GetEvidence c f pk h =
     (if cx_height c < h then Inl (Finality ErrHeightTooHigh)
      else option_to_result (Finality ErrEvidenceNotFound) (kv_get (fs_evidence f) (pk, h)))"

definition GetFirstSlashableEvidence :: "ext \<Rightarrow> fin_state \<Rightarrow> btcpk \<Rightarrow> Evidence option" where
  "GetFirstSlashableEvidence x f pk = find (IsSlashable x) (map snd (kv_sub pk (fs_evidence f)))"

subsection \<open>Voting power\<close>

definition SetVotingPower :: "btcpk \<Rightarrow> u64 \<Rightarrow> u64 \<Rightarrow> fin_state \<Rightarrow> fin_state" where
  "SetVotingPower pk h vp f = f\<lparr>fs_voting_power := kv_set (h, pk) vp (fs_voting_power f)\<rparr>"

definition GetVotingPower :: "fin_state \<Rightarrow> btcpk \<Rightarrow> u64 \<Rightarrow> u64" where
  "GetVotingPower f pk h = (case kv_get (fs_voting_power f) (h, pk) of None \<Rightarrow> 0 | Some p \<Rightarrow> p)"

definition GetCurrentVotingPower :: "bs_state \<Rightarrow> fin_state \<Rightarrow> btcpk \<Rightarrow> u64 \<times> u64" where
  "GetCurrentVotingPower b f pk =
     (if fs_voting_power f = [] then (0, 0)
      else let lastHeight = fst (fst (last (fs_voting_power f)));
               storeAtHeight = kv_sub lastHeight (fs_voting_power f)
           in if \<not> HasFinalityProvider b pk then (lastHeight, 0)
              else case kv_get storeAtHeight pk of
                None \<Rightarrow> (lastHeight, 0)
              | Some p \<Rightarrow> (lastHeight, p))"

definition HasVotingPowerTable :: "fin_state \<Rightarrow> u64 \<Rightarrow> bool" where
  "HasVotingPowerTable f h \<longleftrightarrow> kv_sub h (fs_voting_power f) \<noteq> []"

definition GetVotingPowerTable :: "fin_state \<Rightarrow> u64 \<Rightarrow> (btcpk, u64) kv option result" where
  "GetVotingPowerTable f h = (let entries = kv_sub h (fs_voting_power f) in
     if entries = [] then Inr None
     else bindR (foldR (\<lambda>fpSet (pk, v). bindR (must_pk pk) (\<lambda>p. Inr (fpSet @ [(p, v)]))) [] entries)
            (\<lambda>fpSet. Inr (Some fpSet)))"

definition vp_lt :: "btcpk \<times> u64 \<Rightarrow> btcpk \<times> u64 \<Rightarrow> bool" where
  "vp_lt a b = (if snd a = snd b then fst a < fst b else snd a > snd b)"

definition GetVotingPowerTableOrdered :: "fin_state \<Rightarrow> u64 \<Rightarrow> (btcpk \<times> u64) list result" where
  "GetVotingPowerTableOrdered f h =
     bindR (foldR (\<lambda>fps (pk, v). bindR (must_pk pk) (\<lambda>p. Inr (fps @ [(p, v)])))
              [] (kv_sub h (fs_voting_power f)))
       (\<lambda>fps. Inr (sort_slice_stable vp_lt fps))"

definition GetBTCStakingActivatedHeight :: "fin_state \<Rightarrow> u64 result" where
  "GetBTCStakingActivatedHeight f = (case fs_voting_power f of
       [] \<Rightarrow> Inl (Finality ErrBTCStakingNotActivated)
     | e # es \<Rightarrow> Inr (fst (fst e)))"

definition IsBTCStakingActivated :: "fin_state \<Rightarrow> bool" where
  "IsBTCStakingActivated f \<longleftrightarrow> fs_voting_power f \<noteq> []"

definition SetVotingPowerDistCache :: "u64 \<Rightarrow> VotingPowerDistCache \<Rightarrow> fin_state \<Rightarrow> fin_state" where
  "SetVotingPowerDistCache h dc f = f\<lparr>fs_vp_dist_cache := (fs_vp_dist_cache f)(h \<mapsto> dc)\<rparr>"

text \<open>The empty cache is encoded as no bytes, and reads as nil.\<close>

definition GetVotingPowerDistCache :: "fin_state \<Rightarrow> u64 \<Rightarrow> VotingPowerDistCache option" where
  "GetVotingPowerDistCache f h = (case fs_vp_dist_cache f h of
       None \<Rightarrow> None
     | Some dc \<Rightarrow> if dc = NewVotingPowerDistCache then None else Some dc)"

definition RemoveVotingPowerDistCache :: "u64 \<Rightarrow> fin_state \<Rightarrow> fin_state" where
  "RemoveVotingPowerDistCache h f = f\<lparr>fs_vp_dist_cache := (fs_vp_dist_cache f)(h := None)\<rparr>"

subsection \<open>Activation\<close>

definition GetLastFinalizedEpoch :: "ctx \<Rightarrow> u64" where
  "GetLastFinalizedEpoch c = cx_LastFinalizedEpoch c"

definition GetCurrentEpoch :: "ctx \<Rightarrow> u64 result" where
  "GetCurrentEpoch c = option_to_result (Panic ''cannot get the current epoch'') (cx_CurrentEpoch c)"

definition IsFinalityActive :: "ctx \<Rightarrow> fin_state \<Rightarrow> bool" where
  "IsFinalityActive c f =
     (if cx_height c < fpar_FinalityActivationHeight (fin_GetParams f) then False
      else case GetBTCStakingActivatedHeight f of Inl _ \<Rightarrow> False | Inr _ \<Rightarrow> True)"

definition FpStatus :: "FinalityProviderDistInfo \<Rightarrow> bool \<Rightarrow> FinalityProviderStatus" where
  "FpStatus fp canBeActive =
     (if di_IsSlashed fp then FP_SLASHED
      else if di_IsJailed fp then FP_JAILED
      else if canBeActive \<and> di_IsTimestamped fp \<and> di_TotalBondedSat fp > 0 then FP_ACTIVE
      else FP_INACTIVE)"

subsection \<open>Well-formed states\<close>

text \<open>The stores are ordered, and the keys that hold a provider's key have its length.\<close>

definition stores_wf :: "fin_state \<Rightarrow> bool" where
  "stores_wf f \<longleftrightarrow> kv_wf (fs_votes f) \<and> kv_wf (fs_pub_rand f) \<and> kv_wf (fs_pub_rand_commit f) \<and>
     kv_wf (fs_evidence f) \<and> kv_wf (fs_voting_power f) \<and> kv_wf (fs_missed_bitmap f)"

definition keys_ok :: "fin_state \<Rightarrow> bool" where
  "keys_ok f \<longleftrightarrow> (\<forall>e\<in>set (fs_votes f). pk_size (snd (fst e)) = BIP340PubKeyLen) \<and>
     (\<forall>e\<in>set (fs_voting_power f). pk_size (snd (fst e)) = BIP340PubKeyLen)"

lemma must_pk_ok: "pk_size pk = BIP340PubKeyLen \<Longrightarrow> must_pk pk = Inr pk"
  by (simp add: must_pk_def NewBIP340PubKey_def)

lemma kv_sub_SomeD: "(k, v) \<in> set (kv_sub p s) \<Longrightarrow> ((p, k), v) \<in> set s"
  by (induction p s rule: kv_sub.induct) (auto split: if_splits)

lemma foldR_collect:
  assumes "\<And>e. e \<in> set es \<Longrightarrow> g (fst e) = Inr (fst e)"
  shows "foldR (\<lambda>acc (k, v). bindR (g k) (\<lambda>p. Inr (acc @ [(p, v)]))) acc es = Inr (acc @ es)"
  using assms
proof (induction es arbitrary: acc)
  case (Cons e es)
  have "g (fst e) = Inr (fst e)" by (rule Cons.prems) simp
  moreover have "g (fst e') = Inr (fst e')" if "e' \<in> set es" for e'
    by (rule Cons.prems) (simp add: that)
  ultimately show ?case by (cases e) (simp add: Cons.IH)
qed simp

lemma GetVotingPowerTable_ok:
  assumes "keys_ok f"
  shows "GetVotingPowerTable f h =
    Inr (if kv_sub h (fs_voting_power f) = [] then None else Some (kv_sub h (fs_voting_power f)))"
proof -
  have "must_pk (fst e) = Inr (fst e)" if "e \<in> set (kv_sub h (fs_voting_power f))" for e
    using that assms kv_sub_SomeD [of "fst e" "snd e" h "fs_voting_power f"]
    by (intro must_pk_ok) (auto simp: keys_ok_def)
  from foldR_collect [of _ must_pk, OF this] show ?thesis
    by (simp add: GetVotingPowerTable_def Let_def)
qed

lemma foldR_voters:
  assumes "\<And>e. e \<in> set es \<Longrightarrow> must_pk (fst e) = Inr (fst e)"
  shows "foldR (\<lambda>voters e. bindR (must_pk (fst e)) (\<lambda>p. Inr (insert p voters))) acc es =
    Inr (acc \<union> fst ` set es)"
  using assms by (induction es arbitrary: acc) auto

text \<open>The voters of a height are the providers with a vote at that height.\<close>

lemma GetVoters_ok:
  assumes "keys_ok f"
  shows "GetVoters f h = Inr {pk. HasSig f h pk}"
proof -
  have "must_pk (fst e) = Inr (fst e)" if "e \<in> set (kv_sub h (fs_votes f))" for e
    using that assms kv_sub_SomeD [of "fst e" "snd e" h "fs_votes f"]
    by (intro must_pk_ok) (auto simp: keys_ok_def)
  from foldR_voters [OF this] have "GetVoters f h = Inr (fst ` set (kv_sub h (fs_votes f)))"
    by (simp add: GetVoters_def)
  also have "fst ` set (kv_sub h (fs_votes f)) = {pk. HasSig f h pk}"
    by (auto simp: HasSig_def kv_has_def keys_kv_sub kv_get_None)
  finally show ?thesis .
qed

end
