(* ===== verification/Pub_Rand.thy ===== *)
theory Pub_Rand
  imports Finality_State
begin

text \<open>
  Public randomness: the commitments that finality providers make before they vote
  (\<open>keeper/public_randomness.go\<close>, the ranges of \<open>types/finality.go\<close>) and the message
  \<open>CommitPubRandList\<close> (\<open>keeper/msg_server.go\<close>, \<open>types/msg.go\<close>).

  The invariant \<open>pub_rand_inv\<close> says that the start heights in a provider's index are those of its
  commitments and that their height ranges are disjoint and ascending. Under it the binary search
  over the index finds what a linear search over the commitments finds.
\<close>

subsection \<open>Ranges\<close>

definition EndHeight :: "PubRandCommit \<Rightarrow> u64" where
  "EndHeight p = prc_StartHeight p + prc_NumPubRand p - 1"

definition Range :: "PubRandCommit \<Rightarrow> u64 \<times> u64" where
  "Range p = (prc_StartHeight p, EndHeight p)"

definition IsInRange :: "PubRandCommit \<Rightarrow> u64 \<Rightarrow> bool" where
  "IsInRange p height = (let (start, end) = Range p in start \<le> height \<and> height \<le> end)"

definition GetIndex :: "PubRandCommit \<Rightarrow> u64 \<Rightarrow> u64 result" where
  "GetIndex p height = (let (start, end) = Range p in
     if start \<le> height \<and> height \<le> end then Inr (height - start)
     else Inl (Finality ErrPubRandNotFound))"

definition PubRandCommit_Validate :: "PubRandCommit \<Rightarrow> unit result" where
  "PubRandCommit_Validate p =
     (if prc_Commitment p = [] then Inl (Finality ErrInvalidPubRandCommit) else Inr ())"

subsection \<open>Commitments\<close>

definition GetPubRandCommitForHeight :: "fin_state \<Rightarrow> btcpk \<Rightarrow> u64 \<Rightarrow> PubRandCommit result" where
  "GetPubRandCommitForHeight f pk height = (case fs_pub_rand_commit_index f pk of
       None \<Rightarrow> Inl (Lib ''collections.ErrNotFound'')
     | Some heights \<Rightarrow>
         guardR (heights = []) (Finality ErrPubRandNotFound)
        (let i = sort_search (length heights) (\<lambda>i. heights ! i > height)
         in guardR (i = 0) (Finality ErrPubRandNotFound)
        (let startHeight = heights ! (i - 1)
         in case kv_get (kv_sub pk (fs_pub_rand_commit f)) startHeight of
              None \<Rightarrow> Inl (Finality ErrPubRandNotFound)
            | Some prCommit \<Rightarrow>
                if \<not> IsInRange prCommit height then Inl (Finality ErrPubRandNotFound)
                else Inr prCommit)))"

definition GetTimestampedPubRandCommitForHeight ::
  "ctx \<Rightarrow> fin_state \<Rightarrow> btcpk \<Rightarrow> u64 \<Rightarrow> PubRandCommit result" where
  "GetTimestampedPubRandCommitForHeight c f pk height =
     bindR (GetPubRandCommitForHeight f pk height) (\<lambda>prCommit.
     let finalizedEpoch = GetLastFinalizedEpoch c
     in guardR (finalizedEpoch = 0) (Finality ErrPubRandCommitNotBTCTimestamped)
       (guardR (finalizedEpoch < prc_EpochNum prCommit) (Finality ErrPubRandCommitNotBTCTimestamped)
       (Inr prCommit)))"

definition HasTimestampedPubRand :: "ctx \<Rightarrow> fin_state \<Rightarrow> btcpk \<Rightarrow> u64 \<Rightarrow> bool" where
  "HasTimestampedPubRand c f pk height =
     (case GetTimestampedPubRandCommitForHeight c f pk height of Inl _ \<Rightarrow> False | Inr _ \<Rightarrow> True)"

definition upsertPubRandCommitIdx :: "btcpk \<Rightarrow> u64 \<Rightarrow> fin_state \<Rightarrow> fin_state result" where
  "upsertPubRandCommitIdx pk startHeight f =
     (let heights = (case fs_pub_rand_commit_index f pk of None \<Rightarrow> [] | Some hs \<Rightarrow> hs)
      in guardR (heights \<noteq> [] \<and> startHeight \<le> last heights)
           (Errorf ''startHeight must be greater than the last committed height'')
        (Inr (f\<lparr>fs_pub_rand_commit_index :=
                  (fs_pub_rand_commit_index f)(pk \<mapsto> heights @ [startHeight])\<rparr>)))"

definition SetPubRandCommit :: "btcpk \<Rightarrow> PubRandCommit \<Rightarrow> fin_state \<Rightarrow> fin_state result" where
  "SetPubRandCommit pk prCommit f =
     upsertPubRandCommitIdx pk (prc_StartHeight prCommit)
       (f\<lparr>fs_pub_rand_commit :=
            kv_set (pk, prc_StartHeight prCommit) prCommit (fs_pub_rand_commit f)\<rparr>)"

definition GetLastPubRandCommit :: "fin_state \<Rightarrow> btcpk \<Rightarrow> PubRandCommit option" where
  "GetLastPubRandCommit f pk = (let store = kv_sub pk (fs_pub_rand_commit f)
     in if store = [] then None else Some (snd (last store)))"

subsection \<open>Revealed randomness\<close>

definition NewSchnorrPubRand :: "bytes \<Rightarrow> bytes result" where
  "NewSchnorrPubRand data =
     (if length data \<noteq> 32 then Inl (Errorf ''invalid data length'') else Inr data)"

definition SetPubRand :: "btcpk \<Rightarrow> u64 \<Rightarrow> bytes \<Rightarrow> fin_state \<Rightarrow> fin_state" where
  "SetPubRand pk h pubRand f = f\<lparr>fs_pub_rand := kv_set (pk, h) pubRand (fs_pub_rand f)\<rparr>"

definition HasPubRand :: "fin_state \<Rightarrow> btcpk \<Rightarrow> u64 \<Rightarrow> bool" where
  "HasPubRand f pk h = kv_has (fs_pub_rand f) (pk, h)"

definition GetPubRand :: "fin_state \<Rightarrow> btcpk \<Rightarrow> u64 \<Rightarrow> bytes result" where
  "GetPubRand f pk h = (case kv_get (fs_pub_rand f) (pk, h) of
       None \<Rightarrow> Inl (Finality ErrPubRandNotFound)
     | Some prBytes \<Rightarrow>
         if prBytes = [] then Inl (Finality ErrPubRandNotFound) else NewSchnorrPubRand prBytes)"

definition GetLastPubRand :: "fin_state \<Rightarrow> btcpk \<Rightarrow> (u64 \<times> bytes) result" where
  "GetLastPubRand f pk = (let store = kv_sub pk (fs_pub_rand f)
     in if store = [] then Inl (Finality ErrNoPubRandYet)
        else case NewSchnorrPubRand (snd (last store)) of
          Inl e \<Rightarrow> Inl (Panic ''failed to unmarshal public randomness in KVStore'')
        | Inr pubRand \<Rightarrow> Inr (fst (last store), pubRand))"

subsection \<open>The message\<close>

definition MaxPubRandCommitOffset :: u64 where
  "MaxPubRandCommitOffset = 160000"

definition ExpectedCommitmentLengthBytes :: nat where
  "ExpectedCommitmentLengthBytes = 32"

definition validateActivationHeight :: "fin_state \<Rightarrow> u64 \<Rightarrow> u64 result" where
  "validateActivationHeight f height =
     (let activationHeight = fpar_FinalityActivationHeight (fin_GetParams f)
      in guardR (height < activationHeight) (Finality ErrFinalityNotActivated)
           (Inr activationHeight))"

definition Uint64ToBigEndian :: "u64 \<Rightarrow> bytes" where
  "Uint64ToBigEndian w = map (\<lambda>i. char_of (unat (drop_bit (8 * (7 - i)) w) mod 256)) [0..<8]"

definition CommitPubRand_ValidateBasic :: "ext \<Rightarrow> MsgCommitPubRandList \<Rightarrow> unit result" where
  "CommitPubRand_ValidateBasic x m =
     guardR (ext_bech32 x (mcpr_Signer m) = None) (Lib ''ErrInvalidAddress'')
    (guardR (length (mcpr_Commitment m) \<noteq> ExpectedCommitmentLengthBytes) (Finality ErrInvalidPubRand)
    (guardR (mcpr_StartHeight m \<ge> mcpr_StartHeight m + mcpr_NumPubRand m)
       (Finality ErrOverflowInBlockHeight)
    (Inr ())))"

definition HashToSign :: "ext \<Rightarrow> MsgCommitPubRandList \<Rightarrow> bytes" where
  "HashToSign x m = ext_tmhash x (Uint64ToBigEndian (mcpr_StartHeight m) @
     Uint64ToBigEndian (mcpr_NumPubRand m) @ mcpr_Commitment m)"

definition CommitPubRand_VerifySig :: "ext \<Rightarrow> MsgCommitPubRandList \<Rightarrow> unit result" where
  "CommitPubRand_VerifySig x m =
     (let msgHash = HashToSign x m in
      case mcpr_FpBtcPk m of
        None \<Rightarrow> Inl (Panic ''nil FpBtcPk'')
      | Some pk \<Rightarrow>
          guardR (\<not> ext_pubkey_ok x pk) (Lib ''ParsePubKey'')
         (case mcpr_Sig m of
            None \<Rightarrow> Inl (Errorf ''empty signature'')
          | Some sig \<Rightarrow>
              guardR (\<not> ext_schnorr_verify x sig msgHash pk) (Errorf ''failed to verify signature'')
             (Inr ())))"

definition CommitPubRandList ::
  "ext \<Rightarrow> ctx \<Rightarrow> bs_state \<Rightarrow> MsgCommitPubRandList \<Rightarrow> fin_state \<Rightarrow> fin_state result" where
  "CommitPubRandList x c b req f =
     bindR (CommitPubRand_ValidateBasic x req) (\<lambda>_.
     guardR (mcpr_StartHeight req \<ge> cx_height c + MaxPubRandCommitOffset) (Finality ErrInvalidPubRand)
    (bindR (validateActivationHeight f (mcpr_StartHeight req)) (\<lambda>_.
     guardR (mcpr_NumPubRand req < fpar_MinPubRand (fin_GetParams f)) (Finality ErrTooFewPubRand)
    (case mcpr_FpBtcPk req of
       None \<Rightarrow> Inl (Finality ErrInvalidPubRand)
     | Some pk \<Rightarrow>
         guardR (\<not> HasFinalityProvider b pk) (BTCStaking ErrFpNotFound)
        (guardR (IsFinalityProviderDeleted b pk) (Finality ErrFinalityProviderIsDeleted)
        (case CommitPubRand_VerifySig x req of
           Inl e \<Rightarrow> Inl (Finality ErrInvalidPubRand)
         | Inr _ \<Rightarrow>
             bindR (GetCurrentEpoch c) (\<lambda>epoch.
             let prCommit = \<lparr>prc_StartHeight = mcpr_StartHeight req, prc_NumPubRand = mcpr_NumPubRand req,
                             prc_Commitment = mcpr_Commitment req, prc_EpochNum = epoch\<rparr>
             in case GetLastPubRandCommit f pk of
                  None \<Rightarrow> SetPubRandCommit pk prCommit f
                | Some lastPrCommit \<Rightarrow>
                    guardR (mcpr_StartHeight req \<le> EndHeight lastPrCommit) (Finality ErrInvalidPubRand)
                   (SetPubRandCommit pk prCommit f))))))))"

subsection \<open>The invariant\<close>

definition commits_of :: "fin_state \<Rightarrow> btcpk \<Rightarrow> PubRandCommit list" where
  "commits_of f pk = map snd (kv_sub pk (fs_pub_rand_commit f))"

definition commit_ok :: "PubRandCommit \<Rightarrow> bool" where
  "commit_ok p \<longleftrightarrow> prc_StartHeight p < prc_StartHeight p + prc_NumPubRand p"

definition commits_before :: "PubRandCommit \<Rightarrow> PubRandCommit \<Rightarrow> bool" where
  "commits_before p q \<longleftrightarrow> EndHeight p < prc_StartHeight q"

definition pub_rand_inv_at :: "fin_state \<Rightarrow> btcpk \<Rightarrow> bool" where
  "pub_rand_inv_at f pk \<longleftrightarrow>
     map fst (kv_sub pk (fs_pub_rand_commit f)) = map prc_StartHeight (commits_of f pk) \<and>
     list_all commit_ok (commits_of f pk) \<and>
     sorted_wrt commits_before (commits_of f pk) \<and>
     fs_pub_rand_commit_index f pk =
       (if commits_of f pk = [] then None else Some (map prc_StartHeight (commits_of f pk)))"

definition pub_rand_inv :: "fin_state \<Rightarrow> bool" where
  "pub_rand_inv f \<longleftrightarrow> kv_wf (fs_pub_rand_commit f) \<and> (\<forall>pk. pub_rand_inv_at f pk)"

lemma commit_ok_range: "commit_ok p \<Longrightarrow> prc_StartHeight p \<le> EndHeight p"
proof -
  let ?e = "prc_StartHeight p + prc_NumPubRand p"
  assume "commit_ok p"
  then have less: "prc_StartHeight p < ?e" by (simp add: commit_ok_def)
  then have "?e \<noteq> 0" by auto
  then have "unat (?e - 1) = unat ?e - 1" by (simp add: unat_minus_one)
  with less show ?thesis by (simp add: EndHeight_def word_le_nat_alt word_less_nat_alt)
qed

lemma in_range_iff: "IsInRange p h \<longleftrightarrow> prc_StartHeight p \<le> h \<and> h \<le> EndHeight p"
  by (simp add: IsInRange_def Range_def)

lemma starts_ascending:
  assumes "list_all commit_ok cs" "sorted_wrt commits_before cs"
  shows "sorted_wrt (<) (map prc_StartHeight cs)"
proof -
  have "sorted_wrt (\<lambda>p q. prc_StartHeight p < prc_StartHeight q) cs"
    using assms
    by (induction cs) (auto simp: commits_before_def list_all_iff intro: le_less_trans [OF commit_ok_range])
  then show ?thesis by (simp add: sorted_wrt_map)
qed

text \<open>No height is in two ranges.\<close>

lemma range_unique:
  assumes "sorted_wrt commits_before cs" "i < length cs" "j < length cs"
    and "IsInRange (cs ! i) h" "IsInRange (cs ! j) h"
  shows "i = j"
proof (rule ccontr)
  assume "i \<noteq> j"
  then consider "i < j" | "j < i" by linarith
  then show False
  proof cases
    case 1
    then have "commits_before (cs ! i) (cs ! j)" using assms by (simp add: sorted_wrt_nth_less)
    then show False using assms by (auto simp: commits_before_def in_range_iff)
  next
    case 2
    then have "commits_before (cs ! j) (cs ! i)" using assms by (simp add: sorted_wrt_nth_less)
    then show False using assms by (auto simp: commits_before_def in_range_iff)
  qed
qed

subsection \<open>Lookup\<close>

lemma find_in_range:
  assumes "sorted_wrt commits_before cs" "i < length cs" "IsInRange (cs ! i) h"
  shows "find (\<lambda>p. IsInRange p h) cs = Some (cs ! i)"
proof -
  obtain j where "j < length cs" "IsInRange (cs ! j) h"
    and "find (\<lambda>p. IsInRange p h) cs = Some (cs ! j)"
    using assms(2,3) by (cases "find (\<lambda>p. IsInRange p h) cs")
      (auto simp: find_None_iff find_Some_iff in_set_conv_nth)
  moreover have "j = i" by (rule range_unique [OF assms(1)]) (use assms calculation in auto)
  ultimately show ?thesis by simp
qed

lemma kv_get_nth:
  "kv_wf s \<Longrightarrow> i < length s \<Longrightarrow> kv_get s (map fst s ! i) = Some (map snd s ! i)"
  by (subst kv_entries [symmetric]) (auto simp: set_conv_nth intro!: exI [of _ i])

lemma starts_mono:
  assumes "list_all commit_ok cs" "sorted_wrt commits_before cs"
    and "a \<le> b" "b < length cs" "h < map prc_StartHeight cs ! a"
  shows "h < map prc_StartHeight cs ! b"
  using starts_ascending [OF assms(1,2)] assms(3-5)
  by (cases "a = b") (auto simp: sorted_wrt_iff_nth_less intro: less_trans)

text \<open>Searching for the last start height that is not above \<open>h\<close> finds the only commitment that
  can have \<open>h\<close> in its range.\<close>

lemma search_starts:
  fixes cs h
  defines "n \<equiv> sort_search (length cs) (\<lambda>i. map prc_StartHeight cs ! i > h)"
  assumes "list_all commit_ok cs" "sorted_wrt commits_before cs"
  shows "n \<le> length cs" "\<And>k. k < n \<Longrightarrow> \<not> h < map prc_StartHeight cs ! k"
    "n < length cs \<Longrightarrow> h < map prc_StartHeight cs ! n"
  unfolding n_def
  using sort_search_correct [where f = "\<lambda>i. h < map prc_StartHeight cs ! i" and n = "length cs"]
    starts_mono [OF assms(2,3)] by blast+

lemma search_in_range:
  fixes cs h
  defines "n \<equiv> sort_search (length cs) (\<lambda>i. map prc_StartHeight cs ! i > h)"
  assumes ok: "list_all commit_ok cs" and asc: "sorted_wrt commits_before cs"
    and j: "j < length cs" "IsInRange (cs ! j) h"
  shows "n \<noteq> 0 \<and> j = n - 1"
proof -
  let ?hs = "map prc_StartHeight cs"
  note search = search_starts [OF ok asc, where h = h, folded n_def]
  have jn: "j < n"
  proof (rule ccontr)
    assume "\<not> j < n"
    then have "n \<le> j" by simp
    then have "h < ?hs ! n" using search(3) j(1) by simp
    then have "h < ?hs ! j" by (rule starts_mono [OF ok asc \<open>n \<le> j\<close> j(1)])
    then show False using j by (auto simp: in_range_iff)
  qed
  have "\<not> j < n - 1"
  proof
    assume less: "j < n - 1"
    have len: "n - 1 < length cs" using search(1) jn by linarith
    have "commits_before (cs ! j) (cs ! (n - 1))"
      using sorted_wrt_nth_less [OF asc less len] .
    moreover have "\<not> h < ?hs ! (n - 1)" by (rule search(2)) (use jn in simp)
    ultimately show False using j(2) len by (auto simp: commits_before_def in_range_iff)
  qed
  with jn show ?thesis by simp
qed

lemma search_nonzero:
  fixes cs h
  defines "n \<equiv> sort_search (length cs) (\<lambda>i. map prc_StartHeight cs ! i > h)"
  assumes "list_all commit_ok cs" "sorted_wrt commits_before cs" "n \<noteq> 0"
  shows "n - 1 < length cs"
  using search_starts(1) [OF assms(2,3), where h = h] assms(4) by (simp add: n_def)

lemma lookup_eq_find:
  assumes "kv_wf (fs_pub_rand_commit f)" "pub_rand_inv_at f pk"
  shows "GetPubRandCommitForHeight f pk h =
    (if commits_of f pk = [] then Inl (Lib ''collections.ErrNotFound'')
     else option_to_result (Finality ErrPubRandNotFound) (find (\<lambda>p. IsInRange p h) (commits_of f pk)))"
proof -
  let ?cs = "commits_of f pk" and ?st = "kv_sub pk (fs_pub_rand_commit f)"
  let ?n = "sort_search (length ?cs) (\<lambda>i. map prc_StartHeight ?cs ! i > h)"
  have keys: "map fst ?st = map prc_StartHeight ?cs" and ok: "list_all commit_ok ?cs"
    and asc: "sorted_wrt commits_before ?cs"
    and idx: "fs_pub_rand_commit_index f pk =
       (if ?cs = [] then None else Some (map prc_StartHeight ?cs))"
    using assms(2) by (auto simp: pub_rand_inv_at_def)
  have get: "kv_get ?st (map prc_StartHeight ?cs ! i) = Some (?cs ! i)" if "i < length ?cs" for i
    using kv_get_nth [of ?st i] that assms(1) by (simp add: keys commits_of_def)
  note found = search_in_range [OF ok asc] and in_cs = search_nonzero [OF ok asc]
  show ?thesis
  proof (cases "find (\<lambda>p. IsInRange p h) ?cs")
    case None
    then have "\<not> IsInRange (?cs ! i) h" if "i < length ?cs" for i
      using that by (auto simp: find_None_iff)
    then show ?thesis using None in_cs [of h] get [of "?n - 1"]
      by (simp add: GetPubRandCommitForHeight_def idx Let_def guardR_def split: option.split)
  next
    case (Some p)
    then obtain j where j: "j < length ?cs" "IsInRange (?cs ! j) h" "p = ?cs ! j"
      by (auto simp: find_Some_iff)
    then have "?n \<noteq> 0" "j = ?n - 1" using found [OF j(1,2)] by auto
    then show ?thesis using Some j get [OF j(1)]
      by (auto simp: GetPubRandCommitForHeight_def idx Let_def guardR_def)
  qed
qed

subsection \<open>Committing\<close>

abbreviation new_commit :: "MsgCommitPubRandList \<Rightarrow> u64 \<Rightarrow> PubRandCommit" where
  "new_commit req epoch \<equiv>
     \<lparr>prc_StartHeight = mcpr_StartHeight req, prc_NumPubRand = mcpr_NumPubRand req,
      prc_Commitment = mcpr_Commitment req, prc_EpochNum = epoch\<rparr>"

lemma CommitPubRandList_cases:
  assumes "CommitPubRandList x c b req f = Inr f'"
  obtains pk epoch where "mcpr_FpBtcPk req = Some pk" "cx_CurrentEpoch c = Some epoch"
    "commit_ok (new_commit req epoch)"
    "\<And>l. GetLastPubRandCommit f pk = Some l \<Longrightarrow> commits_before l (new_commit req epoch)"
    "SetPubRandCommit pk (new_commit req epoch) f = Inr f'"
proof -
  have vb: "CommitPubRand_ValidateBasic x req = Inr ()"
    using assms by (auto simp: CommitPubRandList_def bindR_eq_Inr)
  obtain pk where pk: "mcpr_FpBtcPk req = Some pk"
    using assms by (cases "mcpr_FpBtcPk req") (auto simp: CommitPubRandList_def result_simps)
  obtain epoch where ep: "cx_CurrentEpoch c = Some epoch"
    using assms pk by (cases "cx_CurrentEpoch c")
      (auto simp: CommitPubRandList_def result_simps GetCurrentEpoch_def split: sum.splits)
  have set: "(case GetLastPubRandCommit f pk of
        None \<Rightarrow> SetPubRandCommit pk (new_commit req epoch) f
      | Some l \<Rightarrow> guardR (mcpr_StartHeight req \<le> EndHeight l) (Finality ErrInvalidPubRand)
           (SetPubRandCommit pk (new_commit req epoch) f)) = Inr f'"
    using assms pk ep
    by (auto simp: CommitPubRandList_def result_simps GetCurrentEpoch_def Let_def split: sum.splits)
  show ?thesis
  proof (rule that [OF pk ep])
    show "commit_ok (new_commit req epoch)"
      using vb by (auto simp: CommitPubRand_ValidateBasic_def result_simps commit_ok_def)
    show "commits_before l (new_commit req epoch)" if "GetLastPubRandCommit f pk = Some l" for l
      using set that by (auto simp: result_simps commits_before_def)
    show "SetPubRandCommit pk (new_commit req epoch) f = Inr f'"
      using set by (auto simp: result_simps split: option.splits)
  qed
qed

lemma new_range:
  assumes "commit_ok p" "prc_StartHeight p \<le> h"
    "unat h < unat (prc_StartHeight p) + unat (prc_NumPubRand p)"
  shows "IsInRange p h"
proof -
  let ?e = "prc_StartHeight p + prc_NumPubRand p"
  have "?e \<noteq> 0" using assms(1) by (auto simp: commit_ok_def)
  then have "unat (EndHeight p) = unat ?e - 1" by (simp add: EndHeight_def unat_minus_one)
  moreover have "unat ?e = unat (prc_StartHeight p) + unat (prc_NumPubRand p)"
    by (rule unat_add_no_wrap) (use assms(1) in \<open>simp add: commit_ok_def less_imp_le\<close>)
  ultimately show ?thesis using assms(2,3) by (simp add: in_range_iff word_le_nat_alt)
qed

text \<open>Writing a commitment after all of a provider's commitments.\<close>

lemma SetPubRandCommit_appends:
  assumes inv: "pub_rand_inv f" and ok: "commit_ok p"
    and after: "\<And>l. GetLastPubRandCommit f pk = Some l \<Longrightarrow> commits_before l p"
    and set: "SetPubRandCommit pk p f = Inr f'"
  shows "commits_of f' pk' = (if pk' = pk then commits_of f pk @ [p] else commits_of f pk')"
    and "pub_rand_inv f'"
proof -
  let ?st = "kv_sub pk (fs_pub_rand_commit f)" and ?s = "prc_StartHeight p"
  have wf: "kv_wf (fs_pub_rand_commit f)" and at: "pub_rand_inv_at f q" for q
    using inv by (auto simp: pub_rand_inv_def)
  have asc: "sorted_wrt commits_before (commits_of f pk)" and oks: "list_all commit_ok (commits_of f pk)"
    and keys: "map fst ?st = map prc_StartHeight (commits_of f pk)"
    using at [of pk] by (auto simp: pub_rand_inv_at_def)
  have before: "commits_before q p" if q: "q \<in> set (commits_of f pk)" for q
  proof -
    obtain cs l where cs: "commits_of f pk = cs @ [l]"
      using q by (cases "commits_of f pk" rule: rev_cases) auto
    then have "GetLastPubRandCommit f pk = Some l"
      by (cases ?st rule: rev_cases) (auto simp: commits_of_def GetLastPubRandCommit_def)
    then have lp: "commits_before l p" by (rule after)
    have "commits_before q l \<and> commit_ok l \<or> q = l" using asc oks q by (auto simp: cs sorted_wrt_append)
    then show ?thesis
      using lp commit_ok_range [of l] unfolding commits_before_def by (meson le_less_trans less_trans)
  qed
  have "\<forall>k\<in>set (map fst ?st). k < ?s"
    unfolding keys using before oks commit_ok_range
    by (auto simp: commits_before_def list_all_iff intro: le_less_trans)
  then have last: "kv_set ?s p ?st = ?st @ [(?s, p)]" by (intro kv_set_last) auto
  have f': "f' = f\<lparr>fs_pub_rand_commit := kv_set (pk, ?s) p (fs_pub_rand_commit f),
      fs_pub_rand_commit_index := (fs_pub_rand_commit_index f)(pk \<mapsto>
        (case fs_pub_rand_commit_index f pk of None \<Rightarrow> [] | Some hs \<Rightarrow> hs) @ [?s])\<rparr>"
    using set by (auto simp: SetPubRandCommit_def upsertPubRandCommitIdx_def Let_def result_simps)
  have sub: "kv_sub q (fs_pub_rand_commit f') = (if q = pk then ?st @ [(?s, p)] else kv_sub q (fs_pub_rand_commit f))" for q
    by (auto simp: f' kv_sub_set [OF wf] last)
  then show cs: "commits_of f' pk' = (if pk' = pk then commits_of f pk @ [p] else commits_of f pk')" for pk'
    by (simp add: commits_of_def)
  have idx: "fs_pub_rand_commit_index f' q = (if q = pk then
      Some ((case fs_pub_rand_commit_index f pk of None \<Rightarrow> [] | Some hs \<Rightarrow> hs) @ [?s])
      else fs_pub_rand_commit_index f q)" for q by (simp add: f')
  have "pub_rand_inv_at f' q" for q
    using at [of q] ok before keys
    by (cases "q = pk") (simp_all add: pub_rand_inv_at_def cs sub idx sorted_wrt_append)
  moreover have "kv_wf (fs_pub_rand_commit f')" using wf by (simp add: f')
  ultimately show "pub_rand_inv f'" by (simp add: pub_rand_inv_def)
qed

lemma lookup_Inr:
  assumes "pub_rand_inv f"
  shows "GetPubRandCommitForHeight f pk h = Inr p \<longleftrightarrow> p \<in> set (commits_of f pk) \<and> IsInRange p h"
proof -
  have at: "kv_wf (fs_pub_rand_commit f)" "pub_rand_inv_at f pk"
    and asc: "sorted_wrt commits_before (commits_of f pk)"
    using assms by (auto simp: pub_rand_inv_def pub_rand_inv_at_def)
  show ?thesis
  proof
    assume "GetPubRandCommitForHeight f pk h = Inr p"
    then show "p \<in> set (commits_of f pk) \<and> IsInRange p h"
      by (auto simp: lookup_eq_find [OF at] result_simps find_Some_iff split: if_splits)
  next
    assume "p \<in> set (commits_of f pk) \<and> IsInRange p h"
    then obtain i where "i < length (commits_of f pk)" "p = commits_of f pk ! i" "IsInRange p h"
      by (auto simp: in_set_conv_nth)
    then show "GetPubRandCommitForHeight f pk h = Inr p"
      using find_in_range [OF asc] by (auto simp: lookup_eq_find [OF at])
  qed
qed

subsection \<open>Properties\<close>

text \<open>A provider with one commitment for the heights 10 to 109, and a message that commits 100
  more.\<close>

definition commit_msg :: "btcpk \<Rightarrow> u64 \<Rightarrow> MsgCommitPubRandList" where
  "commit_msg pk start = \<lparr>mcpr_Signer = ''signer'', mcpr_FpBtcPk = Some pk, mcpr_StartHeight = start,
     mcpr_NumPubRand = 100, mcpr_Commitment = replicate 32 CHR ''c'', mcpr_Sig = Some ''sig''\<rparr>"

definition empty_fin :: fin_state where
  "empty_fin = \<lparr>fs_params = Some \<lparr>fpar_MaxActiveFinalityProviders = 2, fpar_SignedBlocksWindow = 100,
        fpar_FinalitySigTimeout = 3, fpar_MinSignedPerWindow = Some (dec_one div 2),
        fpar_MinPubRand = 100, fpar_JailDuration = 86400 * 10 ^ 9, fpar_FinalityActivationHeight = 1\<rparr>,
     fs_blocks = Map.empty, fs_votes = [], fs_pub_rand = [], fs_pub_rand_commit = [],
     fs_pub_rand_commit_index = Map.empty, fs_evidence = [], fs_next_height_to_finalize = None,
     fs_next_height_to_reward = None, fs_voting_power = [], fs_vp_dist_cache = Map.empty,
     fs_signing_tracker = Map.empty, fs_missed_bitmap = []\<rparr>"

definition committed_fin :: "btcpk \<Rightarrow> fin_state" where
  "committed_fin pk = empty_fin\<lparr>
     fs_pub_rand_commit := [((pk, 10), new_commit (commit_msg pk 10) 4)],
     fs_pub_rand_commit_index := [pk \<mapsto> [10]]\<rparr>"

lemma committed_fin_inv: "pub_rand_inv (committed_fin pk)"
  by (simp add: pub_rand_inv_def pub_rand_inv_at_def committed_fin_def empty_fin_def commits_of_def
      commit_msg_def commit_ok_def kv_wf_Cons)

text \<open>C24. Looking a height up by binary search in the index gives what a scan of all the
  commitments of the provider gives: the one whose range has the height, and an error when there is
  none. No two commitments of a provider have a height in common.\<close>

theorem pub_rand_lookup:
  assumes "pub_rand_inv f"
  shows "GetPubRandCommitForHeight f pk h =
      (if commits_of f pk = [] then Inl (Lib ''collections.ErrNotFound'')
       else option_to_result (Finality ErrPubRandNotFound) (find (\<lambda>p. IsInRange p h) (commits_of f pk)))
    \<and> (\<forall>p q. p \<in> set (commits_of f pk) \<and> q \<in> set (commits_of f pk) \<and>
         IsInRange p h \<and> IsInRange q h \<longrightarrow> p = q)"
proof -
  have at: "kv_wf (fs_pub_rand_commit f)" "pub_rand_inv_at f pk"
    using assms by (auto simp: pub_rand_inv_def)
  have "p = q" if "p \<in> set (commits_of f pk) \<and> q \<in> set (commits_of f pk) \<and>
      IsInRange p h \<and> IsInRange q h" for p q
    using lookup_Inr [OF assms, of pk h p] lookup_Inr [OF assms, of pk h q] that by simp
  then show ?thesis using lookup_eq_find [OF at] by blast
qed

theorem pub_rand_lookup_witness:
  "GetPubRandCommitForHeight (committed_fin ''aa'') ''aa'' 109 = Inr (new_commit (commit_msg ''aa'' 10) 4)
   \<and> GetPubRandCommitForHeight (committed_fin ''aa'') ''aa'' 110 = Inl (Finality ErrPubRandNotFound)"
proof -
  have cs: "commits_of (committed_fin ''aa'') ''aa'' = [new_commit (commit_msg ''aa'' 10) 4]"
    by (simp add: commits_of_def committed_fin_def)
  have "IsInRange (new_commit (commit_msg ''aa'' 10) 4) 109"
    "\<not> IsInRange (new_commit (commit_msg ''aa'' 10) 4) 110"
    by (simp_all add: in_range_iff EndHeight_def commit_msg_def)
  then show ?thesis
    using pub_rand_lookup [OF committed_fin_inv, of "''aa''" "''aa''" 109]
      pub_rand_lookup [OF committed_fin_inv, of "''aa''" "''aa''" 110] by (simp add: cs)
qed

text \<open>C25. A successful \<open>CommitPubRandList\<close> keeps the invariant. Every height that had a
  commitment keeps the same one, for every provider, so randomness cannot be reset; every height of
  the new range had none and gets the new commitment, in the current epoch.\<close>

theorem commit_extends:
  assumes "pub_rand_inv f" "CommitPubRandList x c b req f = Inr f'"
    "mcpr_FpBtcPk req = Some pk" "cx_CurrentEpoch c = Some epoch"
  shows "pub_rand_inv f'
    \<and> (\<forall>pk' h p. GetPubRandCommitForHeight f pk' h = Inr p \<longrightarrow> GetPubRandCommitForHeight f' pk' h = Inr p)
    \<and> (\<forall>h. mcpr_StartHeight req \<le> h \<and> unat h < unat (mcpr_StartHeight req) + unat (mcpr_NumPubRand req) \<longrightarrow>
         (\<exists>e. GetPubRandCommitForHeight f pk h = Inl e) \<and>
         GetPubRandCommitForHeight f' pk h = Inr (new_commit req epoch))"
proof -
  let ?p = "new_commit req epoch"
  obtain pk1 epoch1 where *: "mcpr_FpBtcPk req = Some pk1" "cx_CurrentEpoch c = Some epoch1"
    "commit_ok (new_commit req epoch1)"
    "\<And>l. GetLastPubRandCommit f pk1 = Some l \<Longrightarrow> commits_before l (new_commit req epoch1)"
    "SetPubRandCommit pk1 (new_commit req epoch1) f = Inr f'"
    by (erule CommitPubRandList_cases [OF assms(2)])
  then have "pk1 = pk" "epoch1 = epoch" using assms(3,4) by simp_all
  note ok = *(3) [unfolded this] and after = *(4) [unfolded this] and set = *(5) [unfolded this]
  note app = SetPubRandCommit_appends [OF assms(1) ok after set]
  have inv: "pub_rand_inv f'" by (rule app(2))
  have cs: "commits_of f' q = (if q = pk then commits_of f pk @ [?p] else commits_of f q)" for q
    by (rule app(1))
  have keep: "GetPubRandCommitForHeight f' q h = Inr p" if "GetPubRandCommitForHeight f q h = Inr p" for q h p
    using that by (auto simp: lookup_Inr [OF assms(1)] lookup_Inr [OF inv] cs)
  have new: "(\<exists>e. GetPubRandCommitForHeight f pk h = Inl e) \<and> GetPubRandCommitForHeight f' pk h = Inr ?p"
    if h: "mcpr_StartHeight req \<le> h" "unat h < unat (mcpr_StartHeight req) + unat (mcpr_NumPubRand req)" for h
  proof -
    have "IsInRange ?p h" by (rule new_range [OF ok]) (use h in simp_all)
    then have now: "GetPubRandCommitForHeight f' pk h = Inr ?p" by (simp add: lookup_Inr [OF inv] cs)
    have "GetPubRandCommitForHeight f pk h \<noteq> Inr p" for p
    proof
      assume old: "GetPubRandCommitForHeight f pk h = Inr p"
      then have "p = ?p" using keep [OF old] now by simp
      then have "?p \<in> set (commits_of f pk)" using old by (simp add: lookup_Inr [OF assms(1)])
      moreover have "sorted_wrt commits_before (commits_of f' pk)"
        using inv by (simp add: pub_rand_inv_def pub_rand_inv_at_def)
      then have "sorted_wrt commits_before (commits_of f pk @ [?p])" by (simp add: cs)
      ultimately have "commits_before ?p ?p" by (simp add: sorted_wrt_append)
      then show False using commit_ok_range [OF ok] by (simp add: commits_before_def)
    qed
    then show ?thesis using now by (cases "GetPubRandCommitForHeight f pk h") auto
  qed
  show ?thesis using inv keep new by blast
qed

theorem commit_extends_witness:
  "\<exists>f'. CommitPubRandList sample_ext (sample_ctx 50) sample_bs (commit_msg ''aa'' 110)
       (committed_fin ''aa'') = Inr f'
   \<and> GetPubRandCommitForHeight f' ''aa'' 109 = Inr (new_commit (commit_msg ''aa'' 10) 4)
   \<and> GetPubRandCommitForHeight f' ''aa'' 110 = Inr (new_commit (commit_msg ''aa'' 110) 6)"
proof -
  let ?r = "CommitPubRandList sample_ext (sample_ctx 50) sample_bs (commit_msg ''aa'' 110) (committed_fin ''aa'')"
  have "case ?r of Inl _ \<Rightarrow> False | Inr _ \<Rightarrow> True" by code_simp
  then obtain f' where f': "?r = Inr f'" by (cases ?r) auto
  note ext = commit_extends [OF committed_fin_inv f', of "''aa''" 6]
  have "GetPubRandCommitForHeight (committed_fin ''aa'') ''aa'' 109 = Inr (new_commit (commit_msg ''aa'' 10) 4)"
    by code_simp
  moreover have "mcpr_FpBtcPk (commit_msg ''aa'' 110) = Some ''aa''" "cx_CurrentEpoch (sample_ctx 50) = Some 6"
    by (simp_all add: commit_msg_def sample_ctx_def)
  moreover have "mcpr_StartHeight (commit_msg ''aa'' 110) \<le> 110 \<and>
      unat (110 :: u64) < unat (mcpr_StartHeight (commit_msg ''aa'' 110)) + unat (mcpr_NumPubRand (commit_msg ''aa'' 110))"
    by (simp add: commit_msg_def)
  ultimately show ?thesis using ext f' by blast
qed

end
