(* ===== verification/BTC_Delegation.thy ===== *)
theory BTC_Delegation
  imports BTCStaking
begin

text \<open>
  BTC delegations of \<open>x/btcstaking\<close>: their status (\<open>types/btc_delegation.go\<close>,
  \<open>types/btc_undelegation.go\<close>), the keeper's stores and indexes (\<open>keeper/btc_delegations.go\<close>,
  \<open>keeper/btc_delegators.go\<close>), the inclusion proof (\<open>keeper/inclusion_proof.go\<close>) and the covenant
  signatures (\<open>AddCovenantSigs\<close> of \<open>keeper/msg_server.go\<close>). Each operation queues the events that
  the finality module turns into voting power. The verification of signatures and of Merkle proofs is
  a parameter (\<open>cov_ext\<close>, \<open>btc_view\<close>).
\<close>

subsection \<open>Status\<close>

definition HasInclusionProof :: "BTCDelegation \<Rightarrow> bool" where
  "HasInclusionProof d \<longleftrightarrow> bd_StartHeight d > 0 \<and> bd_EndHeight d > 0"

definition IsUnbondedEarly :: "BTCDelegation \<Rightarrow> bool" where
  "IsUnbondedEarly d \<longleftrightarrow> ud_DelegatorUnbondingInfo (bd_BtcUndelegation d) \<noteq> None"

definition IsStakeExpansion :: "BTCDelegation \<Rightarrow> bool" where
  "IsStakeExpansion d \<longleftrightarrow> bd_StkExp d \<noteq> None"

definition HasCovenantQuorumOnSlashing :: "BTCUndelegation \<Rightarrow> u32 \<Rightarrow> bool" where
  "HasCovenantQuorumOnSlashing ud quorum \<longleftrightarrow> length (ud_CovenantSlashingSigs ud) \<ge> unat quorum"

definition HasCovenantQuorumOnUnbonding :: "BTCUndelegation \<Rightarrow> u32 \<Rightarrow> bool" where
  "HasCovenantQuorumOnUnbonding ud quorum \<longleftrightarrow> length (ud_CovenantUnbondingSigList ud) \<ge> unat quorum"

definition ud_HasCovenantQuorums :: "BTCUndelegation \<Rightarrow> u32 \<Rightarrow> bool" where
  "ud_HasCovenantQuorums ud quorum \<longleftrightarrow>
     HasCovenantQuorumOnUnbonding ud quorum \<and> HasCovenantQuorumOnSlashing ud quorum"

definition se_HasCovenantQuorums :: "StakeExpansion \<Rightarrow> u32 \<Rightarrow> bool" where
  "se_HasCovenantQuorums e quorum \<longleftrightarrow> length (se_PreviousStkCovenantSigs e) \<ge> unat quorum"

definition HasCovenantQuorums :: "BTCDelegation \<Rightarrow> u32 \<Rightarrow> u32 \<Rightarrow> bool" where
  "HasCovenantQuorums d quorum quorumPreviousStk =
     (let hasQuorum = length (bd_CovenantSigs d) \<ge> unat quorum \<and>
            ud_HasCovenantQuorums (bd_BtcUndelegation d) quorum
      in case bd_StkExp d of
           None \<Rightarrow> hasQuorum
         | Some e \<Rightarrow> hasQuorum \<and> se_HasCovenantQuorums e quorumPreviousStk)"

definition GetStatus :: "BTCDelegation \<Rightarrow> u32 \<Rightarrow> u32 \<Rightarrow> u32 \<Rightarrow> BTCDelegationStatus" where
  "GetStatus d btcHeight covenantQuorum quorumPreviousStk =
     (if IsUnbondedEarly d then UNBONDED
      else if \<not> HasCovenantQuorums d covenantQuorum quorumPreviousStk then PENDING
      else if \<not> HasInclusionProof d then VERIFIED
      else if btcHeight < bd_StartHeight d then UNBONDED
      else if btcHeight + bd_UnbondingTime d \<ge> bd_EndHeight d then EXPIRED
      else ACTIVE)"

definition VotingPower :: "BTCDelegation \<Rightarrow> u32 \<Rightarrow> u32 \<Rightarrow> u32 \<Rightarrow> u64" where
  "VotingPower d btcHeight covenantQuorum quorumPreviousStk =
     (if GetStatus d btcHeight covenantQuorum quorumPreviousStk \<noteq> ACTIVE then 0 else bd_TotalSat d)"

definition GetFpIdx :: "BTCDelegation \<Rightarrow> btcpk \<Rightarrow> int" where
  "GetFpIdx d pk = (let i = length (takeWhile (\<lambda>p. p \<noteq> pk) (bd_FpBtcPkList d))
     in if i < length (bd_FpBtcPkList d) then int i else -1)"

definition IsSignedByCovMember :: "BTCDelegation \<Rightarrow> btcpk \<Rightarrow> bool" where
  "IsSignedByCovMember d covPk = list_ex (\<lambda>si. cov_CovPk si = covPk) (bd_CovenantSigs d)"

definition IsSignedByCovMemberOnUnbonding :: "BTCUndelegation \<Rightarrow> btcpk \<Rightarrow> bool" where
  "IsSignedByCovMemberOnUnbonding ud covPk = list_ex (\<lambda>si. si_Pk si = covPk) (ud_CovenantUnbondingSigList ud)"

definition IsSignedByCovMemberOnSlashing :: "BTCUndelegation \<Rightarrow> btcpk \<Rightarrow> bool" where
  "IsSignedByCovMemberOnSlashing ud covPk = list_ex (\<lambda>si. cov_CovPk si = covPk) (ud_CovenantSlashingSigs ud)"

definition ud_IsSignedByCovMember :: "BTCUndelegation \<Rightarrow> btcpk \<Rightarrow> bool" where
  "ud_IsSignedByCovMember ud covPk \<longleftrightarrow>
     IsSignedByCovMemberOnUnbonding ud covPk \<and> IsSignedByCovMemberOnSlashing ud covPk"

definition se_IsSignedByCovMember :: "StakeExpansion \<Rightarrow> btcpk \<Rightarrow> bool" where
  "se_IsSignedByCovMember e covPk = list_ex (\<lambda>si. si_Pk si = covPk) (se_PreviousStkCovenantSigs e)"

text \<open>Adaptor signatures are their serialised bytes.\<close>

definition ud_addCovenantSigs :: "btcpk \<Rightarrow> bytes \<Rightarrow> bytes list \<Rightarrow> BTCUndelegation \<Rightarrow> BTCUndelegation" where
  "ud_addCovenantSigs covPk unbondingSig slashingSigs ud =
     ud\<lparr>ud_CovenantUnbondingSigList := ud_CovenantUnbondingSigList ud @ [\<lparr>si_Pk = covPk, si_Sig = unbondingSig\<rparr>],
        ud_CovenantSlashingSigs := ud_CovenantSlashingSigs ud @ [\<lparr>cov_CovPk = covPk, cov_AdaptorSigs = slashingSigs\<rparr>]\<rparr>"

definition se_AddCovenantSigs :: "btcpk \<Rightarrow> bytes \<Rightarrow> StakeExpansion \<Rightarrow> StakeExpansion" where
  "se_AddCovenantSigs covPk stkExpSig e =
     e\<lparr>se_PreviousStkCovenantSigs := se_PreviousStkCovenantSigs e @ [\<lparr>si_Pk = covPk, si_Sig = stkExpSig\<rparr>]\<rparr>"

text \<open>The stake expansion signature is nil except for a stake expansion, where
  \<open>validateStakeExpansionSig\<close> has required it.\<close>

definition bd_AddCovenantSigs ::
  "btcpk \<Rightarrow> bytes list \<Rightarrow> bytes \<Rightarrow> bytes list \<Rightarrow> bytes option \<Rightarrow> BTCDelegation \<Rightarrow> BTCDelegation" where
  "bd_AddCovenantSigs covPk stakingSlashingSigs unbondingSig unbondingSlashingSigs stkExpSig d =
     d\<lparr>bd_CovenantSigs := bd_CovenantSigs d @ [\<lparr>cov_CovPk = covPk, cov_AdaptorSigs = stakingSlashingSigs\<rparr>],
       bd_BtcUndelegation := ud_addCovenantSigs covPk unbondingSig unbondingSlashingSigs (bd_BtcUndelegation d),
       bd_StkExp := map_option (se_AddCovenantSigs covPk (case stkExpSig of None \<Rightarrow> [] | Some sg \<Rightarrow> sg)) (bd_StkExp d)\<rparr>"

subsection \<open>Stores\<close>

definition MustGetStakingTxHash :: "ext \<Rightarrow> BTCDelegation \<Rightarrow> bytes result" where
  "MustGetStakingTxHash x d = option_to_result (Panic ''NewBTCTxFromBytes'') (ext_tx_hash x (bd_StakingTx d))"

text \<open>\<open>chainhash.NewHash\<close> takes exactly 32 bytes.\<close>

definition MustGetStakeExpansionTxHash :: "BTCDelegation \<Rightarrow> bytes result" where
  "MustGetStakeExpansionTxHash d = (case bd_StkExp d of
       None \<Rightarrow> Inl (Panic ''failed to parse as chain hash'')
     | Some e \<Rightarrow> if length (se_PreviousStakingTxHash e) = 32 then Inr (se_PreviousStakingTxHash e)
                 else Inl (Panic ''failed to parse as chain hash''))"

definition setBTCDelegation :: "ext \<Rightarrow> BTCDelegation \<Rightarrow> bs_state \<Rightarrow> bs_state result" where
  "setBTCDelegation x d s = bindR (MustGetStakingTxHash x d) (\<lambda>h.
     Inr (s\<lparr>bs_delegations := kv_set h d (bs_delegations s)\<rparr>))"

definition getBTCDelegation :: "bs_state \<Rightarrow> bytes \<Rightarrow> BTCDelegation option" where
  "getBTCDelegation s h = kv_get (bs_delegations s) h"

definition GetBTCDelegation :: "ext \<Rightarrow> bs_state \<Rightarrow> string \<Rightarrow> BTCDelegation result" where
  "GetBTCDelegation x s stakingTxHashStr =
     bindR (option_to_result (Lib ''NewHashFromStr'') (ext_hash_from_str x stakingTxHashStr)) (\<lambda>h.
     option_to_result (BTCStaking ErrBTCDelegationNotFound) (getBTCDelegation s h))"

definition IterateBTCDelegations ::
  "(BTCDelegation \<Rightarrow> 'a \<Rightarrow> 'a result) \<Rightarrow> 'a \<Rightarrow> bs_state \<Rightarrow> 'a result" where
  "IterateBTCDelegations f a s = foldR (\<lambda>a e. f (snd e) a) a (bs_delegations s)"

record btcDelegationWithParams =
  dwp_Delegation :: BTCDelegation
  dwp_Params :: BSParams
  dwp_PrevDel :: "BTCDelegation option"
  dwp_PrevParams :: "BSParams option"

text \<open>The recursion follows the chain of stake expansions, one stored delegation at a time. The fuel
  is one more than the number of delegations (\<open>getBTCDelWithParams_returns\<close>); running out stands for
  the stack overflow of a cyclic chain.\<close>

fun getBTCDelWithParams_fuel :: "nat \<Rightarrow> ext \<Rightarrow> bs_state \<Rightarrow> string \<Rightarrow> btcDelegationWithParams result" where
  "getBTCDelWithParams_fuel 0 x s stakingTxHash = Inl (Panic ''stack overflow'')"
| "getBTCDelWithParams_fuel (Suc n) x s stakingTxHash =
     bindR (GetBTCDelegation x s stakingTxHash) (\<lambda>btcDel.
     bindR (option_to_result (Errorf ''params version in BTC delegation is not found'')
       (GetParamsByVersion (bs_pstate s) (bd_ParamsVersion btcDel))) (\<lambda>bsParams.
     let res = \<lparr>dwp_Delegation = btcDel, dwp_Params = bsParams, dwp_PrevDel = None, dwp_PrevParams = None\<rparr>
     in if \<not> IsStakeExpansion btcDel then Inr res
        else bindR (MustGetStakeExpansionTxHash btcDel) (\<lambda>prev.
             bindR (getBTCDelWithParams_fuel n x s (ext_hash_str x prev)) (\<lambda>stkExpInfo.
             Inr (res\<lparr>dwp_PrevDel := Some (dwp_Delegation stkExpInfo),
                      dwp_PrevParams := Some (dwp_Params stkExpInfo)\<rparr>)))))"

definition getBTCDelWithParams :: "ext \<Rightarrow> bs_state \<Rightarrow> string \<Rightarrow> btcDelegationWithParams result" where
  "getBTCDelWithParams x s stakingTxHash =
     getBTCDelWithParams_fuel (Suc (length (bs_delegations s))) x s stakingTxHash"

text \<open>The quorum of the previous delegation, 0 when this is not a stake expansion.\<close>

definition prevStkQuorum :: "btcDelegationWithParams \<Rightarrow> u32 result" where
  "prevStkQuorum delInfo =
     (if IsStakeExpansion (dwp_Delegation delInfo)
      then bindR (option_to_result (Panic ''nil PrevParams'') (dwp_PrevParams delInfo)) (\<lambda>p.
        Inr (bp_CovenantQuorum p))
      else Inr 0)"

definition BtcDelStatusWithTip ::
  "ctx \<Rightarrow> btcDelegationWithParams \<Rightarrow> (BTCDelegationStatus \<times> u32) result" where
  "BtcDelStatusWithTip c delInfo =
     bindR (prevStkQuorum delInfo) (\<lambda>prevQuorum.
     bindR (option_to_result (Panic ''nil BTC tip'') (cx_BtcTip c)) (\<lambda>tip.
     Inr (GetStatus (dwp_Delegation delInfo) tip (bp_CovenantQuorum (dwp_Params delInfo)) prevQuorum, tip)))"

definition quorumOfPrevious :: "ext \<Rightarrow> bs_state \<Rightarrow> BTCDelegation \<Rightarrow> u32 result" where
  "quorumOfPrevious x s btcDel =
     (if IsStakeExpansion btcDel
      then bindR (MustGetStakeExpansionTxHash btcDel) (\<lambda>prev.
           bindR (getBTCDelWithParams x s (ext_hash_str x prev)) (\<lambda>delInfo.
           Inr (bp_CovenantQuorum (dwp_Params delInfo))))
      else Inr 0)"

definition BtcDelStatus ::
  "ext \<Rightarrow> bs_state \<Rightarrow> BTCDelegation \<Rightarrow> u32 \<Rightarrow> u32 \<Rightarrow> BTCDelegationStatus result" where
  "BtcDelStatus x s btcDel covenantQuorum btcTipHeight =
     bindR (quorumOfPrevious x s btcDel) (\<lambda>quorumPreviousStk.
     Inr (GetStatus btcDel btcTipHeight covenantQuorum quorumPreviousStk))"

definition BtcDelHasCovenantQuorums ::
  "ext \<Rightarrow> bs_state \<Rightarrow> BTCDelegation \<Rightarrow> u32 \<Rightarrow> bool result" where
  "BtcDelHasCovenantQuorums x s btcDel quorum =
     bindR (quorumOfPrevious x s btcDel) (\<lambda>quorumPreviousStk.
     Inr (HasCovenantQuorums btcDel quorum quorumPreviousStk))"

definition IsBtcDelegationActive ::
  "ext \<Rightarrow> ctx \<Rightarrow> bs_state \<Rightarrow> string \<Rightarrow> btcDelegationWithParams result" where
  "IsBtcDelegationActive x c s stakingTxHash =
     bindR (getBTCDelWithParams x s stakingTxHash) (\<lambda>delWithParams.
     bindR (BtcDelStatusWithTip c delWithParams) (\<lambda>st.
     if fst st \<noteq> ACTIVE then Inl (Errorf ''BTC delegation is not active'') else Inr delWithParams))"

definition validateStakedFPs :: "bs_state \<Rightarrow> btcpk list \<Rightarrow> unit result" where
  "validateStakedFPs s fpBTCPKs = foldR (\<lambda>_ pk.
     bindR (GetFinalityProvider s pk) (\<lambda>fp.
     guardR (IsSlashed fp) (BTCStaking ErrFpAlreadySlashed)
    (guardR (IsFinalityProviderDeleted s pk) (BTCStaking ErrBsFinalityProviderIsDeleted)
    (Inr ())))) () fpBTCPKs"

subsection \<open>Indexes by delegator\<close>

definition index_Has :: "bytes list \<Rightarrow> bytes \<Rightarrow> bool" where
  "index_Has l h = list_ex (\<lambda>h'. h = h') l"

definition index_Add :: "bytes list \<Rightarrow> bytes \<Rightarrow> bytes list result" where
  "index_Add l h =
     (if list_ex (\<lambda>h'. h = h') l then Inl (Errorf ''the given stakingTxHash is duplicated'')
      else Inr (l @ [h]))"

definition getBTCDelegatorDelegationIndex :: "bs_state \<Rightarrow> btcpk \<Rightarrow> btcpk \<Rightarrow> bytes list option" where
  "getBTCDelegatorDelegationIndex s fpPk delPk =
     (if \<not> HasFinalityProvider s fpPk then None else kv_get (bs_delegator_index s) (fpPk, delPk))"

definition setBTCDelegatorDelegationIndex :: "btcpk \<Rightarrow> btcpk \<Rightarrow> bytes list \<Rightarrow> bs_state \<Rightarrow> bs_state" where
  "setBTCDelegatorDelegationIndex fpPk delPk l s =
     s\<lparr>bs_delegator_index := kv_set (fpPk, delPk) l (bs_delegator_index s)\<rparr>"

text \<open>A hash that is not in the delegation store gives a nil entry (None).\<close>

definition getBTCDelegatorDelegations ::
  "bs_state \<Rightarrow> btcpk \<Rightarrow> btcpk \<Rightarrow> BTCDelegation option list option result" where
  "getBTCDelegatorDelegations s fpPk delPk = (case getBTCDelegatorDelegationIndex s fpPk delPk of
       None \<Rightarrow> Inr None
     | Some l \<Rightarrow> if list_all (\<lambda>h. length h = 32) l then Inr (Some (map (getBTCDelegation s) l))
                 else Inl (Panic ''chainhash.NewHash''))"

definition HandleFPBTCDelegations ::
  "bs_state \<Rightarrow> btcpk \<Rightarrow> (BTCDelegation \<Rightarrow> 'a \<Rightarrow> 'a result) \<Rightarrow> 'a \<Rightarrow> 'a result" where
  "HandleFPBTCDelegations s fpPk handler a =
     (if \<not> HasFinalityProvider s fpPk then Inl (BTCStaking ErrFpNotFound)
      else foldR (\<lambda>a e. foldR (\<lambda>a h.
             if length h \<noteq> 32 then Inl (Lib ''chainhash.NewHash'')
             else case getBTCDelegation s h of None \<Rightarrow> Inr a | Some d \<Rightarrow> handler d a) a (snd e))
           a (kv_sub fpPk (bs_delegator_index s)))"

text \<open>\<open>int\<close> and \<open>uint64\<close> have the same width, so the sum is the sum of the words.\<close>

definition FpTotalSatsStaked :: "bs_state \<Rightarrow> btcpk \<Rightarrow> u64 result" where
  "FpTotalSatsStaked s fpPk = HandleFPBTCDelegations s fpPk (\<lambda>d total. Inr (total + bd_TotalSat d)) 0"

subsection \<open>Operations\<close>

definition AddBTCDelegation ::
  "ext \<Rightarrow> BTCDelegation \<Rightarrow> bs_state \<Rightarrow> (bs_state \<times> emitted list) result" where
  "AddBTCDelegation x btcDel s =
     bindR (option_to_result (Lib ''NewBTCTxFromBytes'') (ext_tx_hash x (bd_StakingTx btcDel))) (\<lambda>h.
     bindR (foldR (\<lambda>s fpPk.
         let l = (case getBTCDelegatorDelegationIndex s fpPk (bd_BtcPk btcDel) of None \<Rightarrow> [] | Some l \<Rightarrow> l)
         in case index_Add l h of
              Inl _ \<Rightarrow> Inl (BTCStaking ErrInvalidStakingTx)
            | Inr l' \<Rightarrow> Inr (setBTCDelegatorDelegationIndex fpPk (bd_BtcPk btcDel) l' s))
       s (bd_FpBtcPkList btcDel)) (\<lambda>s1.
     bindR (setBTCDelegation x btcDel s1) (\<lambda>s2.
     let hs = ext_hash_str x h; created = [EventBTCDelegationCreated hs]
     in if HasInclusionProof btcDel
        then Inr (addPowerDistUpdateEvent (bd_EndHeight btcDel - bd_UnbondingTime btcDel)
                    (BtcDelStateUpdate hs EXPIRED) s2,
                  created @ [EventBTCDelegationInclusionProofReceived hs (bd_StartHeight btcDel)
                    (bd_EndHeight btcDel) PENDING])
        else Inr (s2, created))))"

definition addCovenantSigsToBTCDelegation ::
  "ext \<Rightarrow> btcDelegationWithParams \<Rightarrow> btcpk \<Rightarrow> bytes list \<Rightarrow> bytes \<Rightarrow> bytes list \<Rightarrow> bytes option \<Rightarrow> u32 \<Rightarrow>
   bs_state \<Rightarrow> (bs_state \<times> emitted list) result" where
  "addCovenantSigsToBTCDelegation x delInfo covPK slashingSigs unbondingTxSig unbondingSlashingSigs
     stakeExpansionTxSig btcTipHeight s =
     bindR (prevStkQuorum delInfo) (\<lambda>quorumPreviousStk.
     let quorum = bp_CovenantQuorum (dwp_Params delInfo);
         hadQuorum = HasCovenantQuorums (dwp_Delegation delInfo) quorum quorumPreviousStk;
         btcDel = bd_AddCovenantSigs covPK slashingSigs unbondingTxSig unbondingSlashingSigs
           stakeExpansionTxSig (dwp_Delegation delInfo)
     in bindR (setBTCDelegation x btcDel s) (\<lambda>s1.
        bindR (MustGetStakingTxHash x btcDel) (\<lambda>h.
        let hs = ext_hash_str x h; received = [EventCovenantSignatureReceived hs covPK]
        in if \<not> hadQuorum \<and> HasCovenantQuorums btcDel quorum quorumPreviousStk
           then if HasInclusionProof btcDel
                then Inr (addPowerDistUpdateEvent btcTipHeight (BtcDelStateUpdate hs ACTIVE) s1,
                          received @ [EventCovenantQuorumReached hs ACTIVE])
                else Inr (s1, received @ [EventCovenantQuorumReached hs VERIFIED])
           else Inr (s1, received))))"

definition btcUndelegate ::
  "ext \<Rightarrow> ctx \<Rightarrow> BTCDelegation \<Rightarrow> DelegatorUnbondingInfo \<Rightarrow> bs_state \<Rightarrow> bs_state result" where
  "btcUndelegate x c btcDel u s =
     (let btcDel1 = btcDel\<lparr>bd_BtcUndelegation :=
            (bd_BtcUndelegation btcDel)\<lparr>ud_DelegatorUnbondingInfo := Some u\<rparr>\<rparr>
      in bindR (setBTCDelegation x btcDel1 s) (\<lambda>s1.
         if \<not> HasInclusionProof btcDel1 then Inr s1
         else bindR (MustGetStakingTxHash x btcDel1) (\<lambda>h.
              bindR (option_to_result (Panic ''nil BTC tip'') (cx_BtcTip c)) (\<lambda>tip.
              Inr (addPowerDistUpdateEvent tip (BtcDelStateUpdate (ext_hash_str x h) UNBONDED) s1)))))"

definition isAllowListEnabled :: "ctx \<Rightarrow> BSParams \<Rightarrow> bool" where
  "isAllowListEnabled c p \<longleftrightarrow>
     bp_AllowListExpirationHeight p > 0 \<and> cx_height c < bp_AllowListExpirationHeight p"

definition IndexAllowedStakingTransaction :: "bytes \<Rightarrow> bs_state \<Rightarrow> bs_state" where
  "IndexAllowedStakingTransaction h s = s\<lparr>bs_allowed_txs := insert h (bs_allowed_txs s)\<rparr>"

definition IsStakingTransactionAllowed :: "bs_state \<Rightarrow> bytes \<Rightarrow> bool" where
  "IsStakingTransactionAllowed s h \<longleftrightarrow> h \<in> bs_allowed_txs s"

subsubsection \<open>Inclusion proofs\<close>

text \<open>What the keeper reads from the light client and the checkpoint module: the height and Merkle root
  of a header, the check of a Merkle branch, and the confirmation depth.\<close>

record btc_view =
  bv_header :: "bytes \<Rightarrow> (u32 \<times> bytes) option"
  bv_verify_inclusion :: "bytes \<Rightarrow> bytes \<Rightarrow> bytes \<Rightarrow> u32 \<Rightarrow> bool"
  bv_confirmation_depth :: u32

record ParsedProofOfInclusion =
  poi_HeaderHash :: bytes
  poi_Proof :: bytes
  poi_Index :: u32

record InclusionProof =
  ip_Key :: "(u32 \<times> bytes) option"
  ip_Proof :: "bytes option"

definition InclusionProof_ValidateBasic :: "InclusionProof \<Rightarrow> unit result" where
  "InclusionProof_ValidateBasic ip =
     (if ip_Key ip = None then Inl (Errorf ''key in InclusionProof is nil'')
      else if ip_Proof ip = None then Inl (Errorf ''proof in InclussionProof is nil'')
      else Inr ())"

definition NewParsedProofOfInclusion :: "InclusionProof \<Rightarrow> ParsedProofOfInclusion result" where
  "NewParsedProofOfInclusion ip = bindR (InclusionProof_ValidateBasic ip) (\<lambda>_.
     Inr \<lparr>poi_HeaderHash = snd (the (ip_Key ip)), poi_Proof = the (ip_Proof ip),
          poi_Index = fst (the (ip_Key ip))\<rparr>)"

record DelegationTimeRangeInfo =
  tr_StartHeight :: u32
  tr_EndHeight :: u32
  tr_TipHeight :: u32

definition VerifyInclusionProofAndGetHeight ::
  "btc_view \<Rightarrow> ctx \<Rightarrow> bytes \<Rightarrow> u32 \<Rightarrow> u32 \<Rightarrow> u32 \<Rightarrow> ParsedProofOfInclusion \<Rightarrow>
   DelegationTimeRangeInfo result" where
  "VerifyInclusionProofAndGetHeight bv c stakingTx confirmationDepth stakingTime unbondingTime proof =
     (case bv_header bv (poi_HeaderHash proof) of
        None \<Rightarrow> Inl (Errorf ''staking tx inclusion proof header is not found in BTC light client state'')
      | Some (height, merkleRoot) \<Rightarrow>
          guardR (\<not> bv_verify_inclusion bv stakingTx merkleRoot (poi_Proof proof) (poi_Index proof))
            (BTCStaking ErrInvalidStakingTx)
         (guardR (poi_Index proof = 0) (BTCStaking ErrInvalidStakingTx)
         (bindR (option_to_result (Panic ''nil BTC tip'') (cx_BtcTip c)) (\<lambda>tip.
          let startHeight = height; endHeight = height + stakingTime; stakingTxDepth = tip - height
          in guardR (stakingTxDepth < confirmationDepth) (BTCStaking ErrInvalidStakingTx)
            (guardR (tip + unbondingTime \<ge> endHeight) (BTCStaking ErrInvalidStakingTx)
            (Inr \<lparr>tr_StartHeight = startHeight, tr_EndHeight = endHeight, tr_TipHeight = tip\<rparr>))))))"

definition AddBTCDelegationInclusionProof ::
  "ext \<Rightarrow> btc_view \<Rightarrow> ctx \<Rightarrow> BTCDelegation option \<Rightarrow> InclusionProof option \<Rightarrow> bs_state \<Rightarrow>
   (bs_state \<times> emitted list) result" where
  "AddBTCDelegationInclusionProof x bv c btcDel_opt proof_opt s =
     bindR (option_to_result (BTCStaking ErrBTCDelegationNotFound) btcDel_opt) (\<lambda>btcDel.
     bindR (option_to_result (Errorf ''nil inclusion proof'') proof_opt) (\<lambda>proof.
     bindR (option_to_result (Lib ''NewBTCTxFromBytes'') (ext_tx_hash x (bd_StakingTx btcDel))) (\<lambda>h.
     guardR (HasInclusionProof btcDel) (Errorf ''the delegation already has inclusion proof'')
    (bindR (option_to_result (Panic ''params version in BTC delegation is not found'')
       (GetParamsByVersion (bs_pstate s) (bd_ParamsVersion btcDel))) (\<lambda>params.
     bindR (BtcDelHasCovenantQuorums x s btcDel (bp_CovenantQuorum params)) (\<lambda>hasQuorum.
     guardR (\<not> hasQuorum)
       (Errorf ''the delegation has not received a quorum of covenant signatures'')
    (guardR (ud_DelegatorUnbondingInfo (bd_BtcUndelegation btcDel) \<noteq> None)
       (Errorf ''the delegation is already unbonded'')
    (bindR (NewParsedProofOfInclusion proof) (\<lambda>parsed.
     bindR (VerifyInclusionProofAndGetHeight bv c (bd_StakingTx btcDel) (bv_confirmation_depth bv)
       (bd_StakingTime btcDel) (bp_UnbondingTimeBlocks params) parsed) (\<lambda>timeInfo.
     guardR (tr_StartHeight timeInfo < bd_BtcTipHeight btcDel) (BTCStaking ErrStakingTxIncludedTooEarly)
    (let btcDel1 = btcDel\<lparr>bd_StartHeight := tr_StartHeight timeInfo, bd_EndHeight := tr_EndHeight timeInfo\<rparr>;
         hs = ext_hash_str x h
     in bindR (setBTCDelegation x btcDel1 s) (\<lambda>s1.
        Inr (addPowerDistUpdateEvent (bd_EndHeight btcDel1 - bp_UnbondingTimeBlocks params)
               (BtcDelStateUpdate hs EXPIRED)
               (addPowerDistUpdateEvent (tr_TipHeight timeInfo) (BtcDelStateUpdate hs ACTIVE) s1),
             [EventBTCDelegationInclusionProofReceived hs (bd_StartHeight btcDel1)
               (bd_EndHeight btcDel1) ACTIVE])))))))))))))"

subsubsection \<open>Covenant signatures\<close>

record MsgAddCovenantSigs =
  macs_Signer :: string
  macs_Pk :: btcpk
  macs_StakingTxHash :: string
  macs_SlashingTxSigs :: "bytes list"
  macs_UnbondingTxSig :: bytes
  macs_SlashingUnbondingTxSigs :: "bytes list"
  macs_StakeExpansionTxSig :: "bytes option"

text \<open>The cryptographic checks over the reconstructed Taproot scripts: the adaptor signatures on the
  slashing transaction and on the unbonding slashing transaction (the parsed signatures, or an error),
  the Schnorr signature on the unbonding transaction, and the signature on the previous output of a
  stake expansion. The scripts are rebuilt from a delegation that was verified at creation, so that a
  failure to rebuild them is a panic.\<close>

record cov_ext =
  ce_parse_slashing :: "BTCDelegation \<Rightarrow> BSParams \<Rightarrow> btcpk \<Rightarrow> bytes list \<Rightarrow> bytes list option result"
  ce_verify_unbonding :: "BTCDelegation \<Rightarrow> BSParams \<Rightarrow> btcpk \<Rightarrow> bytes \<Rightarrow> bool result"
  ce_parse_unbonding_slashing :: "BTCDelegation \<Rightarrow> BSParams \<Rightarrow> btcpk \<Rightarrow> bytes list \<Rightarrow> bytes list option result"
  ce_verify_stk_exp :: "BTCDelegation \<Rightarrow> BTCDelegation \<Rightarrow> BSParams \<Rightarrow> btcpk \<Rightarrow> bytes \<Rightarrow> bool"

text \<open>\<open>uint32(intersection)\<close> is exact: a committee has fewer than \<open>2 ^ 32\<close> members.\<close>

fun overlap_loop :: "btcpk list \<Rightarrow> u32 \<Rightarrow> u32 \<Rightarrow> btcpk list \<Rightarrow> bool" where
  "overlap_loop newSet required n [] = False"
| "overlap_loop newSet required n (pk # pks) =
     (if pk \<in> set newSet
      then (if n + 1 \<ge> required then True else overlap_loop newSet required (n + 1) pks)
      else overlap_loop newSet required n pks)"

definition hasSufficientCovenantOverlap :: "btcpk list \<Rightarrow> btcpk list \<Rightarrow> u32 \<Rightarrow> bool" where
  "hasSufficientCovenantOverlap covCommittee1 covCommittee2 requiredOverlap =
     (if requiredOverlap = 0 \<or> covCommittee1 = [] \<or> covCommittee2 = [] then False
      else overlap_loop covCommittee2 requiredOverlap 0 covCommittee1)"

text \<open>The previous delegation and its parameters are present for a stake expansion.\<close>

definition validateStakeExpansionSig ::
  "cov_ext \<Rightarrow> btcDelegationWithParams \<Rightarrow> MsgAddCovenantSigs \<Rightarrow> unit result" where
  "validateStakeExpansionSig ce delInfo req =
     (case (bd_StkExp (dwp_Delegation delInfo), macs_StakeExpansionTxSig req) of
        (None, Some _) \<Rightarrow>
          Inl (Errorf ''stake expansion tx signature provided for non-stake expansion delegation'')
      | (None, None) \<Rightarrow> Inr ()
      | (Some _, None) \<Rightarrow> Inl (Errorf ''empty stake expansion covenant signature'')
      | (Some e, Some sg) \<Rightarrow>
          guardR (se_IsSignedByCovMember e (macs_Pk req)) (BTCStaking ErrDuplicatedCovenantSig)
         (bindR (option_to_result (Panic ''nil PrevDel'') (dwp_PrevDel delInfo)) (\<lambda>prevBtcDel.
          bindR (option_to_result (Panic ''nil PrevParams'') (dwp_PrevParams delInfo)) (\<lambda>prevParams.
          guardR (\<not> HasCovenantPK prevParams (macs_Pk req)) (BTCStaking ErrInvalidCovenantSig)
         (guardR (\<not> hasSufficientCovenantOverlap (bp_CovenantPks prevParams)
             (bp_CovenantPks (dwp_Params delInfo)) (bp_CovenantQuorum prevParams))
            (BTCStaking ErrInvalidCovenantSig)
         (guardR (\<not> ce_verify_stk_exp ce (dwp_Delegation delInfo) prevBtcDel prevParams (macs_Pk req) sg)
            (BTCStaking ErrInvalidCovenantSig)
         (Inr ())))))))"

text \<open>\<open>refund\<close> is \<open>IndexRefundableMsg\<close> of the incentive keeper, on its state \<open>'h\<close>. The handler wraps
  every error of \<open>validateStakeExpansionSig\<close> in \<open>ErrInvalidCovenantSig\<close>.\<close>

definition AddCovenantSigs ::
  "ext \<Rightarrow> cov_ext \<Rightarrow> ctx \<Rightarrow> ('h \<Rightarrow> 'h) \<Rightarrow> MsgAddCovenantSigs \<Rightarrow> bs_state \<times> 'h \<Rightarrow>
   ((bs_state \<times> 'h) \<times> emitted list) result" where
  "AddCovenantSigs x ce c refund req sh =
     (let s = fst sh in
     bindR (getBTCDelWithParams x s (macs_StakingTxHash req)) (\<lambda>delInfo.
     let btcDel = dwp_Delegation delInfo; params = dwp_Params delInfo in
     guardR (\<not> HasCovenantPK params (macs_Pk req)) (BTCStaking ErrInvalidCovenantPK)
    (guardR (IsSignedByCovMember btcDel (macs_Pk req) \<and>
             ud_IsSignedByCovMember (bd_BtcUndelegation btcDel) (macs_Pk req))
       (BTCStaking ErrDuplicatedCovenantSig)
    (bindR (BtcDelStatusWithTip c delInfo) (\<lambda>(status, btcTip).
     guardR (status = UNBONDED \<or> status = EXPIRED) (BTCStaking ErrInvalidCovenantSig)
    (guardR (length (macs_SlashingTxSigs req) \<noteq> length (bd_FpBtcPkList btcDel))
       (BTCStaking ErrInvalidCovenantSig)
    (bindR (ce_parse_slashing ce btcDel params (macs_Pk req) (macs_SlashingTxSigs req)) (\<lambda>parsed_opt.
     bindR (option_to_result (BTCStaking ErrInvalidCovenantSig) parsed_opt) (\<lambda>parsedSlashing.
     guardR (length (macs_SlashingUnbondingTxSigs req) \<noteq> length (bd_FpBtcPkList btcDel))
       (BTCStaking ErrInvalidCovenantSig)
    (bindR (ce_verify_unbonding ce btcDel params (macs_Pk req) (macs_UnbondingTxSig req)) (\<lambda>ok.
     guardR (\<not> ok) (BTCStaking ErrInvalidCovenantSig)
    (bindR (ce_parse_unbonding_slashing ce btcDel params (macs_Pk req) (macs_SlashingUnbondingTxSigs req)) (\<lambda>parsed_opt.
     bindR (option_to_result (BTCStaking ErrInvalidCovenantSig) parsed_opt) (\<lambda>parsedUnbondingSlashing.
     bindR (case validateStakeExpansionSig ce delInfo req of
              Inl (Panic m) \<Rightarrow> Inl (Panic m) | Inl _ \<Rightarrow> Inl (BTCStaking ErrInvalidCovenantSig) | Inr u \<Rightarrow> Inr u) (\<lambda>_.
     bindR (addCovenantSigsToBTCDelegation x delInfo (macs_Pk req) parsedSlashing (macs_UnbondingTxSig req)
              parsedUnbondingSlashing (macs_StakeExpansionTxSig req) btcTip s) (\<lambda>(s', evs).
     Inr ((s', refund (snd sh)), evs)))))))))))))))))"

definition Msg_AddBTCDelegationInclusionProof ::
  "ext \<Rightarrow> btc_view \<Rightarrow> ctx \<Rightarrow> ('h \<Rightarrow> 'h) \<Rightarrow> string \<Rightarrow> InclusionProof option \<Rightarrow> bs_state \<times> 'h \<Rightarrow>
   ((bs_state \<times> 'h) \<times> emitted list) result" where
  "Msg_AddBTCDelegationInclusionProof x bv c refund stakingTxHash proof sh =
     bindR (GetBTCDelegation x (fst sh) stakingTxHash) (\<lambda>btcDel.
     guardR (IsStakeExpansion btcDel) (Errorf ''the BTC delegation is a stake expansion'')
    (bindR (AddBTCDelegationInclusionProof x bv c (Some btcDel) proof (fst sh)) (\<lambda>(s', evs).
     Inr ((s', refund (snd sh)), evs))))"

text \<open>\<open>pkOfSk\<close> is the public key of a secret key (the curve library).\<close>

definition SelectiveSlashingEvidence ::
  "ctx \<Rightarrow> (bytes \<Rightarrow> btcpk) \<Rightarrow> ('h \<Rightarrow> 'h) \<Rightarrow> bytes \<Rightarrow> bs_state \<times> 'h \<Rightarrow> ((bs_state \<times> 'h) \<times> emitted list) result" where
  "SelectiveSlashingEvidence c pkOfSk refund recoveredFpBtcSk sh =
     (let fpBTCPK = pkOfSk recoveredFpBtcSk
      in bindR (SlashFinalityProvider c fpBTCPK (fst sh)) (\<lambda>s'.
         Inr ((s', refund (snd sh)), [EventSelectiveSlashing fpBTCPK])))"

definition BTCStaking_UpdateParams ::
  "ext \<Rightarrow> string \<Rightarrow> u32 \<Rightarrow> string \<Rightarrow> BSParams \<Rightarrow> bs_state \<Rightarrow> bs_state result" where
  "BTCStaking_UpdateParams x authority ckptFinalizationTime reqAuthority reqParams s =
     guardR (authority \<noteq> reqAuthority) (Lib ''ErrInvalidSigner'')
    (guardR (bp_UnbondingTimeBlocks reqParams \<le> ckptFinalizationTime) (Lib ''ErrInvalidProposalMsg'')
    (bindR (SetParams x reqParams (bs_pstate s)) (\<lambda>ps. Inr (s\<lparr>bs_pstate := ps\<rparr>))))"

subsection \<open>The chain of stake expansions\<close>

lemma getBTCDelWithParams_fuel_overflow:
  assumes "getBTCDelWithParams_fuel (Suc n) x s str = Inl (Panic ''stack overflow'')"
  shows "\<exists>h d prev. ext_hash_from_str x str = Some h \<and> kv_get (bs_delegations s) h = Some d \<and>
    MustGetStakeExpansionTxHash d = Inr prev \<and>
    getBTCDelWithParams_fuel n x s (ext_hash_str x prev) = Inl (Panic ''stack overflow'')"
proof -
  have must: "MustGetStakeExpansionTxHash d \<noteq> Inl (Panic ''stack overflow'')" for d
    by (simp add: MustGetStakeExpansionTxHash_def split: option.splits)
  have get: "\<exists>h. ext_hash_from_str x str = Some h \<and> kv_get (bs_delegations s) h = Some d"
    if "GetBTCDelegation x s str = Inr d" for d
    using that by (auto simp: GetBTCDelegation_def getBTCDelegation_def bindR_eq_Inr
      option_to_result_eq_Inr)
  have "GetBTCDelegation x s str \<noteq> Inl (Panic ''stack overflow'')"
    by (auto simp: GetBTCDelegation_def bindR_eq_Inl option_to_result_def split: option.splits)
  then show ?thesis
    using assms must get
    by (fastforce simp: bindR_eq_Inl Let_def option_to_result_def split: if_splits option.splits)
qed

text \<open>When every stake expansion comes after the delegation it expands (\<open>rank\<close>: a staking transaction
  spends an earlier one), the recursion ends within the fuel.\<close>

definition expansion_order :: "ext \<Rightarrow> bs_state \<Rightarrow> (bytes \<Rightarrow> nat) \<Rightarrow> bool" where
  "expansion_order x s rank \<longleftrightarrow> (\<forall>h d prev h'. kv_get (bs_delegations s) h = Some d \<longrightarrow>
     MustGetStakeExpansionTxHash d = Inr prev \<longrightarrow>
     ext_hash_from_str x (ext_hash_str x prev) = Some h' \<longrightarrow> rank h' < rank h)"

lemma getBTCDelWithParams_fuel_enough:
  assumes rank: "expansion_order x s rank"
    and "ext_hash_from_str x str = Some h"
    and "card {k \<in> fst ` set (bs_delegations s). rank k \<le> rank h} \<le> n"
  shows "getBTCDelWithParams_fuel (Suc n) x s str \<noteq> Inl (Panic ''stack overflow'')"
  using assms(2,3)
proof (induction n arbitrary: str h)
  case 0
  have fin: "finite {k \<in> fst ` set (bs_delegations s). rank k \<le> rank h}" by simp
  have "h \<notin> fst ` set (bs_delegations s)" using 0 fin by auto
  then have "getBTCDelegation s h = None" by (simp add: getBTCDelegation_def kv_get_None)
  with 0 show ?case by (simp add: GetBTCDelegation_def)
next
  case (Suc n)
  show ?case
  proof
    assume "getBTCDelWithParams_fuel (Suc (Suc n)) x s str = Inl (Panic ''stack overflow'')"
    from getBTCDelWithParams_fuel_overflow [OF this] Suc.prems(1)
    obtain d prev where d: "kv_get (bs_delegations s) h = Some d"
      and prev: "MustGetStakeExpansionTxHash d = Inr prev"
      and rec: "getBTCDelWithParams_fuel (Suc n) x s (ext_hash_str x prev) = Inl (Panic ''stack overflow'')"
      by auto
    show False
    proof (cases "ext_hash_from_str x (ext_hash_str x prev)")
      case None
      with rec show False by (simp add: GetBTCDelegation_def)
    next
      case (Some h')
      have lt: "rank h' < rank h" using rank d prev Some unfolding expansion_order_def by blast
      have "{k \<in> fst ` set (bs_delegations s). rank k \<le> rank h'} \<subset>
          {k \<in> fst ` set (bs_delegations s). rank k \<le> rank h}"
        using lt kv_get_SomeD [OF d] by (force simp: image_iff)
      then have "card {k \<in> fst ` set (bs_delegations s). rank k \<le> rank h'} <
          card {k \<in> fst ` set (bs_delegations s). rank k \<le> rank h}"
        by (intro psubset_card_mono) simp_all
      with Suc.prems(2) have "card {k \<in> fst ` set (bs_delegations s). rank k \<le> rank h'} \<le> n" by linarith
      from Suc.IH [OF Some this] rec show False by simp
    qed
  qed
qed

lemma getBTCDelWithParams_returns:
  assumes "expansion_order x s rank"
  shows "getBTCDelWithParams x s str \<noteq> Inl (Panic ''stack overflow'')"
proof (cases "ext_hash_from_str x str")
  case None
  then show ?thesis by (simp add: getBTCDelWithParams_def GetBTCDelegation_def)
next
  case (Some h)
  have "card {k \<in> fst ` set (bs_delegations s). rank k \<le> rank h} \<le> card (fst ` set (bs_delegations s))"
    by (intro card_mono) auto
  also have "\<dots> \<le> length (bs_delegations s)"
    using card_length [of "map fst (bs_delegations s)"] by simp
  finally show ?thesis
    unfolding getBTCDelWithParams_def
    using getBTCDelWithParams_fuel_enough [OF assms Some] by blast
qed

subsection \<open>Status over BTC time\<close>

lemma word_window:
  fixes h u e :: u32
  assumes "unat h + unat u < 2 ^ 32" "u \<le> e"
  shows "h + u \<ge> e \<longleftrightarrow> h \<ge> e - u"
proof -
  have "unat (h + u) = unat h + unat u"
    using assms(1) by (simp add: unat_plus_if_size word_size)
  moreover have "unat (e - u) = unat e - unat u" "unat u \<le> unat e"
    using assms(2) by (simp_all add: unat_sub word_le_nat_alt)
  ultimately show ?thesis unfolding word_le_nat_alt by linarith
qed


definition sample_del :: BTCDelegation where
  "sample_del = \<lparr>bd_StakerAddr = ''staker'', bd_BtcPk = ''st'', bd_Pop = None, bd_FpBtcPkList = [''aa''],
     bd_StakingTime = 1000, bd_StartHeight = 50, bd_EndHeight = 1050, bd_TotalSat = 500,
     bd_StakingTx = ''tx'', bd_StakingOutputIdx = 0, bd_SlashingTx = None, bd_DelegatorSig = None,
     bd_CovenantSigs = [], bd_UnbondingTime = 200,
     bd_BtcUndelegation = \<lparr>ud_UnbondingTx = ''utx'', ud_SlashingTx = None, ud_DelegatorSlashingSig = None,
       ud_CovenantSlashingSigs = [], ud_CovenantUnbondingSigList = [], ud_DelegatorUnbondingInfo = None\<rparr>,
     bd_ParamsVersion = 0, bd_BtcTipHeight = 60, bd_StkExp = None\<rparr>"


subsection \<open>Activation and expiry\<close>

lemma VerifyInclusionProof_ok:
  assumes "VerifyInclusionProofAndGetHeight bv c tx k st ub pr = Inr ti"
  shows "\<exists>height root tip. bv_header bv (poi_HeaderHash pr) = Some (height, root) \<and> cx_BtcTip c = Some tip \<and>
    ti = \<lparr>tr_StartHeight = height, tr_EndHeight = height + st, tr_TipHeight = tip\<rparr> \<and>
    k \<le> tip - height \<and> tip + ub < height + st"
  using assms
  by (auto simp: VerifyInclusionProofAndGetHeight_def bindR_eq_Inr guardR_eq_Inr option_to_result_eq_Inr
    Let_def not_le not_less split: option.splits)

lemma AddBTCDelegationInclusionProof_ok:
  assumes "AddBTCDelegationInclusionProof x bv c (Some d) (Some pr) s = Inr (s', evs)"
  shows "\<exists>p pq parsed ti s1 h. GetParamsByVersion (bs_pstate s) (bd_ParamsVersion d) = Some p \<and>
    quorumOfPrevious x s d = Inr pq \<and> HasCovenantQuorums d (bp_CovenantQuorum p) pq \<and>
    \<not> IsUnbondedEarly d \<and> ext_tx_hash x (bd_StakingTx d) = Some h \<and>
    NewParsedProofOfInclusion pr = Inr parsed \<and>
    VerifyInclusionProofAndGetHeight bv c (bd_StakingTx d) (bv_confirmation_depth bv) (bd_StakingTime d)
      (bp_UnbondingTimeBlocks p) parsed = Inr ti \<and>
    setBTCDelegation x (d\<lparr>bd_StartHeight := tr_StartHeight ti, bd_EndHeight := tr_EndHeight ti\<rparr>) s = Inr s1 \<and>
    s' = addPowerDistUpdateEvent (tr_EndHeight ti - bp_UnbondingTimeBlocks p)
      (BtcDelStateUpdate (ext_hash_str x h) EXPIRED)
      (addPowerDistUpdateEvent (tr_TipHeight ti) (BtcDelStateUpdate (ext_hash_str x h) ACTIVE) s1)"
  using assms
  by (auto simp: AddBTCDelegationInclusionProof_def BtcDelHasCovenantQuorums_def IsUnbondedEarly_def
    bindR_eq_Inr guardR_eq_Inr option_to_result_eq_Inr Let_def)

lemma quorum_ignores_heights:
  "HasCovenantQuorums (d\<lparr>bd_StartHeight := a, bd_EndHeight := b\<rparr>) q pq = HasCovenantQuorums d q pq"
  "IsUnbondedEarly (d\<lparr>bd_StartHeight := a, bd_EndHeight := b\<rparr>) = IsUnbondedEarly d"
  "quorumOfPrevious x s (d\<lparr>bd_StartHeight := a, bd_EndHeight := b\<rparr>) = quorumOfPrevious x s d"
  by (simp_all add: HasCovenantQuorums_def IsUnbondedEarly_def quorumOfPrevious_def IsStakeExpansion_def
    MustGetStakeExpansionTxHash_def)


definition sample_cov :: "btcpk \<Rightarrow> BTCDelegation \<Rightarrow> BTCDelegation" where
  "sample_cov pk d = bd_AddCovenantSigs pk [''sig''] ''sig'' [''sig''] None d"

definition sample_pstate :: params_state where
  "sample_pstate = \<lparr>ps_params = [(0, \<lparr>sp_Version = 0, sp_Params = sample_params\<rparr>)],
     ps_height_to_version = Some [\<lparr>hv_StartHeight = 10, hv_Version = 0\<rparr>]\<rparr>"

text \<open>A delegation with a quorum and no inclusion proof.\<close>

definition verified_del :: BTCDelegation where
  "verified_del = sample_cov ''c2'' (sample_cov ''c1'' (sample_del\<lparr>bd_StartHeight := 0, bd_EndHeight := 0\<rparr>))"

definition delegated_bs :: bs_state where
  "delegated_bs = sample_bs\<lparr>bs_pstate := sample_pstate, bs_delegations := [(''tx'', verified_del)]\<rparr>"

definition sample_view :: btc_view where
  "sample_view = \<lparr>bv_header = (\<lambda>_. Some (80, ''root'')), bv_verify_inclusion = (\<lambda>_ _ _ _. True),
     bv_confirmation_depth = 10\<rparr>"


subsection \<open>Covenant signatures and activation\<close>

lemma AddCovenantSigs_ok:
  assumes "AddCovenantSigs x ce c refund req (s, w) = Inr ((s', w'), evs)"
    and "getBTCDelWithParams x s (macs_StakingTxHash req) = Inr delInfo"
  shows "\<exists>status tip ss us. BtcDelStatusWithTip c delInfo = Inr (status, tip) \<and>
    status \<noteq> UNBONDED \<and> status \<noteq> EXPIRED \<and> w' = refund w \<and>
    HasCovenantPK (dwp_Params delInfo) (macs_Pk req) \<and>
    addCovenantSigsToBTCDelegation x delInfo (macs_Pk req) ss (macs_UnbondingTxSig req) us
      (macs_StakeExpansionTxSig req) tip s = Inr (s', evs)"
  using assms
  by (auto simp: AddCovenantSigs_def Let_def bindR_eq_Inr guardR_eq_Inr split: prod.splits)

lemma quorum_add:
  "bd_StkExp d = None \<Longrightarrow> HasCovenantQuorums (bd_AddCovenantSigs pk ss u us e d) q pq \<longleftrightarrow>
     unat q \<le> Suc (length (bd_CovenantSigs d)) \<and>
     unat q \<le> Suc (length (ud_CovenantUnbondingSigList (bd_BtcUndelegation d))) \<and>
     unat q \<le> Suc (length (ud_CovenantSlashingSigs (bd_BtcUndelegation d)))"
  by (simp add: HasCovenantQuorums_def bd_AddCovenantSigs_def ud_addCovenantSigs_def
    ud_HasCovenantQuorums_def HasCovenantQuorumOnSlashing_def HasCovenantQuorumOnUnbonding_def)

lemma add_sigs_keeps [simp]:
  "bd_StkExp (bd_AddCovenantSigs pk ss u us e d) = None \<longleftrightarrow> bd_StkExp d = None"
  "HasInclusionProof (bd_AddCovenantSigs pk ss u us e d) = HasInclusionProof d"
  "IsUnbondedEarly (bd_AddCovenantSigs pk ss u us e d) = IsUnbondedEarly d"
  "bd_StartHeight (bd_AddCovenantSigs pk ss u us e d) = bd_StartHeight d"
  "bd_EndHeight (bd_AddCovenantSigs pk ss u us e d) = bd_EndHeight d"
  "bd_UnbondingTime (bd_AddCovenantSigs pk ss u us e d) = bd_UnbondingTime d"
  "bd_StakingTx (bd_AddCovenantSigs pk ss u us e d) = bd_StakingTx d"
  by (simp_all add: bd_AddCovenantSigs_def HasInclusionProof_def IsUnbondedEarly_def ud_addCovenantSigs_def)

lemma addCovenantSigs_effect:
  assumes "addCovenantSigsToBTCDelegation x delInfo pk ss u us e tip s = Inr (s', evs)"
    and "dwp_Delegation delInfo = d" "bd_StkExp d = None"
  defines "d' \<equiv> bd_AddCovenantSigs pk ss u us e d" and "q \<equiv> bp_CovenantQuorum (dwp_Params delInfo)"
  shows "\<exists>s1 h. setBTCDelegation x d' s = Inr s1 \<and> ext_tx_hash x (bd_StakingTx d) = Some h \<and>
    s' = (if \<not> HasCovenantQuorums d q 0 \<and> HasCovenantQuorums d' q 0 \<and> HasInclusionProof d
          then addPowerDistUpdateEvent tip (BtcDelStateUpdate (ext_hash_str x h) ACTIVE) s1 else s1)"
  using assms(1)
  unfolding addCovenantSigsToBTCDelegation_def d'_def q_def
  by (auto simp: assms(2,3) prevStkQuorum_def IsStakeExpansion_def MustGetStakingTxHash_def Let_def
    bindR_eq_Inr option_to_result_eq_Inr split: if_splits)


definition sample_cov_ext :: cov_ext where
  "sample_cov_ext = \<lparr>ce_parse_slashing = (\<lambda>_ _ _ sigs. Inr (Some sigs)),
     ce_verify_unbonding = (\<lambda>_ _ _ _. Inr True), ce_parse_unbonding_slashing = (\<lambda>_ _ _ sigs. Inr (Some sigs)),
     ce_verify_stk_exp = (\<lambda>_ _ _ _ _. True)\<rparr>"

definition sample_cov_msg :: "btcpk \<Rightarrow> MsgAddCovenantSigs" where
  "sample_cov_msg pk = \<lparr>macs_Signer = ''cov'', macs_Pk = pk, macs_StakingTxHash = ''tx'',
     macs_SlashingTxSigs = [''sig''], macs_UnbondingTxSig = ''sig'', macs_SlashingUnbondingTxSigs = [''sig''],
     macs_StakeExpansionTxSig = None\<rparr>"

text \<open>A delegation with its inclusion proof, one signature short of the quorum, that ends at \<open>e\<close>.\<close>

definition pending_del :: "u32 \<Rightarrow> BTCDelegation" where
  "pending_del e = sample_cov ''c1'' (sample_del\<lparr>bd_EndHeight := e\<rparr>)"

definition pending_bs :: "u32 \<Rightarrow> bs_state" where
  "pending_bs e = sample_bs\<lparr>bs_pstate := sample_pstate, bs_delegations := [(''tx'', pending_del e)]\<rparr>"

definition pending_info :: "u32 \<Rightarrow> btcDelegationWithParams" where
  "pending_info e = \<lparr>dwp_Delegation = pending_del e, dwp_Params = sample_params, dwp_PrevDel = None,
     dwp_PrevParams = None\<rparr>"




end
