(* ===== verification/Power_Dist.thy ===== *)
theory Power_Dist
  imports Pub_Rand BTC_Delegation
begin

text \<open>
  The update of the voting power distribution at the beginning of a block
  (\<open>keeper/power_dist_change.go\<close>, the processing state of \<open>types/finality.go\<close>). The events that the
  staking module queued at the BTC heights since the last block are folded into a processing state;
  the previous cache and that state give the new cache; the active set is selected and recorded, the
  hooks are called and the status changes are emitted.

  Go maps of the processing state are a function with UNKNOWN as default (the states), a partial map
  (the cache of providers) and an ordered store (the deltas, 64-bit numbers read with their sign).
\<close>

subsection \<open>Processing state\<close>

datatype FinalityProviderState = STATE_UNKNOWN | STATE_UNJAILED | STATE_JAILED | STATE_SLASHED

record DelegationInfo =
  del_Delegator :: addr
  del_FpBtcPk :: btcpk
  del_TotalSat :: u64

record ProcessingState =
  st_PrevActiveFpByBtcPk :: "btcpk set"
  st_FPStatesByBtcPk :: "btcpk \<Rightarrow> FinalityProviderState"
  st_FpByBtcPk :: "btcpk \<rightharpoonup> FinalityProvider"
  st_DeltaSatsByFpBtcPk :: "(btcpk, u64) kv"
  st_ExpiredEvents :: "string list"
  st_SlashedEvents :: "btcpk list"
  st_ActiveDelegations :: "DelegationInfo list"
  st_UnbondingDelegations :: "DelegationInfo list"

definition NewProcessingState :: ProcessingState where
  "NewProcessingState = \<lparr>st_PrevActiveFpByBtcPk = {}, st_FPStatesByBtcPk = (\<lambda>_. STATE_UNKNOWN),
     st_FpByBtcPk = Map.empty, st_DeltaSatsByFpBtcPk = [], st_ExpiredEvents = [], st_SlashedEvents = [],
     st_ActiveDelegations = [], st_UnbondingDelegations = []\<rparr>"

definition set_fp_state :: "btcpk \<Rightarrow> FinalityProviderState \<Rightarrow> ProcessingState \<Rightarrow> ProcessingState" where
  "set_fp_state pk v st = st\<lparr>st_FPStatesByBtcPk := (st_FPStatesByBtcPk st)(pk := v)\<rparr>"

definition AddStateForFp :: "FinalityProviderDistInfo \<Rightarrow> ProcessingState \<Rightarrow> ProcessingState" where
  "AddStateForFp fp st =
     (let st1 = (if di_IsSlashed fp then set_fp_state (di_BtcPk fp) STATE_SLASHED st else st)
      in if di_IsJailed fp then set_fp_state (di_BtcPk fp) STATE_JAILED st1 else st1)"

text \<open>The loop over the providers with their index.\<close>

definition FillByPrevVpDstCache :: "VotingPowerDistCache \<Rightarrow> ProcessingState \<Rightarrow> ProcessingState" where
  "FillByPrevVpDstCache dc st = foldl (\<lambda>st (idx, fp).
       let st1 = (if idx < unat (dc_NumActiveFps dc)
                  then st\<lparr>st_PrevActiveFpByBtcPk := insert (di_BtcPk fp) (st_PrevActiveFpByBtcPk st)\<rparr>
                  else st)
       in AddStateForFp fp st1) st (enumerate 0 (dc_FinalityProviders dc))"

definition IsFpInPrevActiveSet :: "ProcessingState \<Rightarrow> btcpk \<Rightarrow> bool" where
  "IsFpInPrevActiveSet st pk \<longleftrightarrow> pk \<in> st_PrevActiveFpByBtcPk st"

definition AddActiveDelegation ::
  "ext \<Rightarrow> string \<Rightarrow> btcpk \<Rightarrow> u64 \<Rightarrow> ProcessingState \<Rightarrow> ProcessingState result" where
  "AddActiveDelegation x delAddr pk totalSat st =
     bindR (option_to_result (Panic ''MustAccAddressFromBech32'') (ext_bech32 x delAddr)) (\<lambda>a.
     Inr (st\<lparr>st_ActiveDelegations := st_ActiveDelegations st @
       [\<lparr>del_Delegator = a, del_FpBtcPk = pk, del_TotalSat = totalSat\<rparr>]\<rparr>))"

definition AddUnbondingDelegation ::
  "ext \<Rightarrow> string \<Rightarrow> btcpk \<Rightarrow> u64 \<Rightarrow> ProcessingState \<Rightarrow> ProcessingState result" where
  "AddUnbondingDelegation x delAddr pk totalSat st =
     bindR (option_to_result (Panic ''MustAccAddressFromBech32'') (ext_bech32 x delAddr)) (\<lambda>a.
     Inr (st\<lparr>st_UnbondingDelegations := st_UnbondingDelegations st @
       [\<lparr>del_Delegator = a, del_FpBtcPk = pk, del_TotalSat = totalSat\<rparr>]\<rparr>))"

text \<open>A Go map read of a missing entry gives 0.\<close>

definition delta_of :: "(btcpk, u64) kv \<Rightarrow> btcpk \<Rightarrow> u64" where
  "delta_of m pk = (case kv_get m pk of None \<Rightarrow> 0 | Some d \<Rightarrow> d)"

definition add_delta :: "btcpk \<Rightarrow> u64 \<Rightarrow> ProcessingState \<Rightarrow> ProcessingState" where
  "add_delta pk d st = st\<lparr>st_DeltaSatsByFpBtcPk :=
     kv_set pk (delta_of (st_DeltaSatsByFpBtcPk st) pk + d) (st_DeltaSatsByFpBtcPk st)\<rparr>"

subsection \<open>Events\<close>

definition processPowerDistUpdateEventUnbond ::
  "ext \<Rightarrow> BTCDelegation \<Rightarrow> ProcessingState \<Rightarrow> ProcessingState result" where
  "processPowerDistUpdateEventUnbond x btcDel st = foldR (\<lambda>st pk.
       bindR (AddUnbondingDelegation x (bd_StakerAddr btcDel) pk (bd_TotalSat btcDel) st) (\<lambda>st1.
       Inr (add_delta pk (- bd_TotalSat btcDel) st1))) st (bd_FpBtcPkList btcDel)"

definition processPowerDistUpdateEventActive ::
  "ext \<Rightarrow> BTCDelegation \<Rightarrow> ProcessingState \<Rightarrow> ProcessingState result" where
  "processPowerDistUpdateEventActive x btcDel st = foldR (\<lambda>st pk.
       bindR (AddActiveDelegation x (bd_StakerAddr btcDel) pk (bd_TotalSat btcDel) st) (\<lambda>st1.
       Inr (add_delta pk (bd_TotalSat btcDel) st1))) st (bd_FpBtcPkList btcDel)"

text \<open>An error that the code panics with.\<close>

definition panic_on_error :: "'a result \<Rightarrow> 'a result" where
  "panic_on_error r = (case r of Inl e \<Rightarrow> Inl (Panic ''unexpected error'') | Inr v \<Rightarrow> Inr v)"

definition quorum_of :: "ext \<Rightarrow> bs_state \<Rightarrow> BTCDelegation \<Rightarrow> bool result" where
  "quorum_of x b btcDel =
     bindR (option_to_result (Panic ''nil delParams'')
       (GetParamsByVersion (bs_pstate b) (bd_ParamsVersion btcDel))) (\<lambda>delParams.
     panic_on_error (BtcDelHasCovenantQuorums x b btcDel (bp_CovenantQuorum delParams)))"

definition processBtcDelUpdate ::
  "ext \<Rightarrow> bs_state \<Rightarrow> string \<Rightarrow> BTCDelegationStatus \<Rightarrow> ProcessingState \<Rightarrow> ProcessingState result" where
  "processBtcDelUpdate x b delStkTxHash newState st =
     bindR (panic_on_error (GetBTCDelegation x b delStkTxHash)) (\<lambda>btcDel.
     case newState of
       ACTIVE \<Rightarrow> processPowerDistUpdateEventActive x btcDel st
     | UNBONDED \<Rightarrow>
         bindR (quorum_of x b btcDel) (\<lambda>hasQuorum.
         if hasQuorum then processPowerDistUpdateEventUnbond x btcDel st else Inr st)
     | _ \<Rightarrow> Inr st)"

type_synonym pstate = "ProcessingState \<times> emitted list"

definition processFPEventImmediate :: "EventPowerDistUpdate \<Rightarrow> pstate \<Rightarrow> pstate" where
  "processFPEventImmediate event p = (case event of
       JailedFp pk \<Rightarrow> (set_fp_state pk STATE_JAILED (fst p),
                      snd p @ [EventFinalityProviderStatusChange pk FP_JAILED])
     | UnjailedFp pk \<Rightarrow> (set_fp_state pk STATE_UNJAILED (fst p), snd p)
     | _ \<Rightarrow> p)"

definition process_event :: "ext \<Rightarrow> bs_state \<Rightarrow> pstate \<Rightarrow> EventPowerDistUpdate \<Rightarrow> pstate result" where
  "process_event x b p event = (case event of
       BtcDelStateUpdate h newState \<Rightarrow>
         if newState = EXPIRED
         then Inr ((fst p)\<lparr>st_ExpiredEvents := st_ExpiredEvents (fst p) @ [h]\<rparr>, snd p)
         else bindR (processBtcDelUpdate x b h newState (fst p)) (\<lambda>st. Inr (st, snd p))
     | SlashedFp pk \<Rightarrow> Inr ((fst p)\<lparr>st_SlashedEvents := st_SlashedEvents (fst p) @ [pk]\<rparr>, snd p)
     | _ \<Rightarrow> Inr (processFPEventImmediate event p))"

definition processEventsAtHeight :: "ext \<Rightarrow> bs_state \<Rightarrow> u32 \<Rightarrow> pstate \<Rightarrow> pstate result" where
  "processEventsAtHeight x b btcHeight p =
     foldR (process_event x b) p (map snd (PowerDistUpdateEventBtcHeightStoreIterator b btcHeight))"

definition processExpiredEvents :: "ext \<Rightarrow> bs_state \<Rightarrow> pstate \<Rightarrow> pstate result" where
  "processExpiredEvents x b p = foldR (\<lambda>p delStkTxHash.
       bindR (panic_on_error (GetBTCDelegation x b delStkTxHash)) (\<lambda>btcDel.
       let evs = snd p @ [EventBTCDelegationExpired delStkTxHash]
       in if IsUnbondedEarly btcDel then Inr (fst p, evs)
          else bindR (quorum_of x b btcDel) (\<lambda>hasQuorum.
            if hasQuorum
            then bindR (processPowerDistUpdateEventUnbond x btcDel (fst p)) (\<lambda>st. Inr (st, evs))
            else Inr (fst p, evs)))) p (st_ExpiredEvents (fst p))"

definition processSlashedEvents :: "pstate \<Rightarrow> pstate" where
  "processSlashedEvents p = foldl (\<lambda>p pk.
       (set_fp_state pk STATE_SLASHED (fst p),
        snd p @ [EventFinalityProviderStatusChange pk FP_SLASHED])) p (st_SlashedEvents (fst p))"

definition loadFP ::
  "bs_state \<Rightarrow> (btcpk \<rightharpoonup> FinalityProvider) \<Rightarrow> btcpk \<Rightarrow> (FinalityProvider \<times> (btcpk \<rightharpoonup> FinalityProvider)) result" where
  "loadFP b cache fpBTCPKHex = (case cache fpBTCPKHex of
       Some fp \<Rightarrow> Inr (fp, cache)
     | None \<Rightarrow>
         bindR (NewBIP340PubKeyFromHex fpBTCPKHex) (\<lambda>pk.
         bindR (GetFinalityProvider b pk) (\<lambda>fp.
         Inr (fp, cache(fpBTCPKHex \<mapsto> fp)))))"

subsection \<open>The new cache\<close>

text \<open>The body of the loop over the providers of the previous cache.\<close>

definition process_old_fp ::
  "ProcessingState \<Rightarrow> VotingPowerDistCache \<times> (btcpk, u64) kv \<Rightarrow> FinalityProviderDistInfo \<Rightarrow>
   (VotingPowerDistCache \<times> (btcpk, u64) kv) result" where
  "process_old_fp st a fp0 =
     (if st_FPStatesByBtcPk st (di_BtcPk fp0) = STATE_SLASHED then Inr a
      else let fp = (case st_FPStatesByBtcPk st (di_BtcPk fp0) of
                       STATE_JAILED \<Rightarrow> fp0\<lparr>di_IsJailed := True\<rparr>
                     | STATE_UNJAILED \<Rightarrow> fp0\<lparr>di_IsJailed := False\<rparr>
                     | _ \<Rightarrow> fp0)
           in bindR (panic_on_error (ChangeDeltaSats (delta_of (snd a) (di_BtcPk fp0)) fp)) (\<lambda>fp1.
              Inr (if di_TotalBondedSat fp1 > 0 then AddFinalityProviderDistInfo fp1 (fst a) else fst a,
                   kv_del (di_BtcPk fp0) (snd a))))"

text \<open>The body of the loop over the providers that were not in the previous cache.\<close>

definition process_new_fp ::
  "ext \<Rightarrow> bs_state \<Rightarrow> ProcessingState \<Rightarrow> (btcpk, u64) kv \<Rightarrow>
   VotingPowerDistCache \<times> (btcpk \<rightharpoonup> FinalityProvider) \<Rightarrow> btcpk \<Rightarrow>
   (VotingPowerDistCache \<times> (btcpk \<rightharpoonup> FinalityProvider)) result" where
  "process_new_fp x b st deltas a fpBTCPKHex =
     bindR (panic_on_error (loadFP b (snd a) fpBTCPKHex)) (\<lambda>(newFP, cache).
     if IsSlashed newFP then Inr (fst a, cache)
     else bindR (NewFinalityProviderDistInfo x newFP) (\<lambda>di.
       let fpDistInfo = (case st_FPStatesByBtcPk st fpBTCPKHex of
                           STATE_JAILED \<Rightarrow> di\<lparr>di_IsJailed := True\<rparr>
                         | STATE_UNJAILED \<Rightarrow> di\<lparr>di_IsJailed := False\<rparr>
                         | _ \<Rightarrow> di)
       in bindR (panic_on_error (ChangeDeltaSats (delta_of deltas fpBTCPKHex) fpDistInfo)) (\<lambda>di1.
          Inr (if di_TotalBondedSat di1 > 0 then AddFinalityProviderDistInfo di1 (fst a) else fst a, cache))))"

definition ProcessAllPowerDistUpdateEvents ::
  "ext \<Rightarrow> bs_state \<Rightarrow> VotingPowerDistCache \<Rightarrow> u32 \<Rightarrow> u32 \<Rightarrow>
   (VotingPowerDistCache \<times> pstate) result" where
  "ProcessAllPowerDistUpdateEvents x b dc lastBTCTip curBTCTip =
     bindR (foldR (\<lambda>p btcHeight. processEventsAtHeight x b btcHeight p)
         (FillByPrevVpDstCache dc NewProcessingState, []) (heights_upto lastBTCTip curBTCTip)) (\<lambda>p1.
     bindR (processExpiredEvents x b p1) (\<lambda>p2.
     let p3 = processSlashedEvents p2; st = fst p3 in
     bindR (foldR (process_old_fp st) (NewVotingPowerDistCache, st_DeltaSatsByFpBtcPk st)
         (dc_FinalityProviders dc)) (\<lambda>(newDc, deltas).
     let newPks = sort_slice_stable (<)
           (filter (\<lambda>pk. st_FPStatesByBtcPk st pk \<noteq> STATE_SLASHED) (map fst deltas))
     in bindR (foldR (process_new_fp x b st deltas) (newDc, st_FpByBtcPk st) newPks) (\<lambda>(newDc1, cache).
        Inr (newDc1, (st\<lparr>st_DeltaSatsByFpBtcPk := deltas, st_FpByBtcPk := cache\<rparr>, snd p3))))))"

definition RecordVotingPowerAndCache ::
  "ctx \<Rightarrow> VotingPowerDistCache option \<Rightarrow> fin_state \<Rightarrow> (fin_state \<times> VotingPowerDistCache) result" where
  "RecordVotingPowerAndCache c newDc f = (case newDc of
       None \<Rightarrow> Inl (Panic ''the voting power distribution cache cannot be nil'')
     | Some dc \<Rightarrow>
         let h = cx_height c;
             dc1 = dc\<lparr>dc_FinalityProviders := map (\<lambda>fp.
               fp\<lparr>di_IsTimestamped := HasTimestampedPubRand c f (di_BtcPk fp) h\<rparr>) (dc_FinalityProviders dc)\<rparr>;
             dc2 = ApplyActiveFinalityProviders (fpar_MaxActiveFinalityProviders (fin_GetParams f)) dc1
         in bindR (slice_to (unat (dc_NumActiveFps dc2)) (dc_FinalityProviders dc2)) (\<lambda>actives.
            let f1 = foldl (\<lambda>f fp. SetVotingPower (di_BtcPk fp) h (di_TotalBondedSat fp) f) f actives
            in Inr (SetVotingPowerDistCache h dc2 f1, dc2)))"

subsection \<open>Hooks and status changes\<close>

definition NewFinalityProviderSigningInfo :: "btcpk \<Rightarrow> int \<Rightarrow> int \<Rightarrow> FinalityProviderSigningInfo" where
  "NewFinalityProviderSigningInfo pk startHeight missed =
     \<lparr>fsi_FpBtcPk = pk, fsi_StartHeight = startHeight, fsi_MissedBlocksCounter = missed, fsi_JailedUntil = 0\<rparr>"

definition HandleActivatedFinalityProvider :: "ctx \<Rightarrow> btcpk \<Rightarrow> fin_state \<Rightarrow> fin_state" where
  "HandleActivatedFinalityProvider c pk f =
     (let signingInfo = (case fs_signing_tracker f pk of
            Some si \<Rightarrow> si\<lparr>fsi_StartHeight := cx_Height c, fsi_JailedUntil := 0\<rparr>
          | None \<Rightarrow> NewFinalityProviderSigningInfo pk (cx_Height c) 0)
      in f\<lparr>fs_signing_tracker := (fs_signing_tracker f)(pk \<mapsto> signingInfo)\<rparr>)"

definition isFpSlashedOrJailed :: "ProcessingState \<Rightarrow> FinalityProviderDistInfo \<Rightarrow> bool" where
  "isFpSlashedOrJailed st fp =
     (if di_IsJailed fp \<or> di_IsSlashed fp then True
      else let fpstate = st_FPStatesByBtcPk st (di_BtcPk fp)
           in fpstate = STATE_JAILED \<or> fpstate = STATE_SLASHED)"

text \<open>A hook that fails makes the caller panic.\<close>

definition call_hook :: "('h \<Rightarrow> 'h result) \<Rightarrow> 'h world \<Rightarrow> 'h world result" where
  "call_hook hook w = bindR (panic_on_error (hook (w_ext w))) (\<lambda>e. Inr (w\<lparr>w_ext := e\<rparr>))"

definition processActiveFp ::
  "'h env \<Rightarrow> ctx \<Rightarrow> FinalityProviderDistInfo \<Rightarrow> bool \<Rightarrow> 'h world \<Rightarrow> 'h world result" where
  "processActiveFp en c fp shouldCallHooks w =
     (let w1 = emit (EventFinalityProviderStatusChange (di_BtcPk fp) FP_ACTIVE)
            (w\<lparr>w_fin := HandleActivatedFinalityProvider c (di_BtcPk fp) (w_fin w)\<rparr>)
      in if \<not> shouldCallHooks then Inr w1
         else call_hook (env_AfterBbnFpEntersActiveSet en (di_Addr fp)) w1)"

definition processInactiveFp ::
  "'h env \<Rightarrow> ProcessingState \<Rightarrow> FinalityProviderDistInfo \<Rightarrow> bool \<Rightarrow> 'h world \<Rightarrow> 'h world result" where
  "processInactiveFp en st fp shouldCallHooks w =
     bindR (if shouldCallHooks \<and> IsFpInPrevActiveSet st (di_BtcPk fp)
            then call_hook (env_AfterBbnFpRemovedFromActiveSet en (di_Addr fp)) w
            else Inr w) (\<lambda>w1.
     if isFpSlashedOrJailed st fp then Inr w1
     else Inr (emit (EventFinalityProviderStatusChange (di_BtcPk fp) FP_INACTIVE) w1))"

definition HandleFPStateUpdates ::
  "'h env \<Rightarrow> ctx \<Rightarrow> ProcessingState \<Rightarrow> VotingPowerDistCache \<Rightarrow> VotingPowerDistCache \<Rightarrow> bool \<Rightarrow>
   'h world \<Rightarrow> 'h world result" where
  "HandleFPStateUpdates en c st prevDc newDc shouldCallHooks w =
     bindR (FindNewActiveFinalityProviders newDc prevDc) (\<lambda>newlyActiveFPs.
     bindR (foldR (\<lambda>w fp. processActiveFp en c fp shouldCallHooks w) w newlyActiveFPs) (\<lambda>w1.
     bindR (FindNewInactiveFinalityProviders newDc prevDc) (\<lambda>newlyInactiveFPs.
     foldR (\<lambda>w fp. processInactiveFp en st fp shouldCallHooks w) w1 newlyInactiveFPs)))"

definition processBtcDelHook ::
  "ext \<Rightarrow> bs_state \<Rightarrow> DelegationInfo list \<Rightarrow> btcpk list \<Rightarrow>
   (addr \<Rightarrow> addr \<Rightarrow> bool \<Rightarrow> bool \<Rightarrow> u64 \<Rightarrow> 'h \<Rightarrow> 'h result) \<Rightarrow> ProcessingState \<times> 'h \<Rightarrow>
   (ProcessingState \<times> 'h) result" where
  "processBtcDelHook x b fpDels activeFps hookFn a = foldR (\<lambda>(st, e) del.
       bindR (loadFP b (st_FpByBtcPk st) (del_FpBtcPk del)) (\<lambda>(fp, cache).
       bindR (option_to_result (Panic ''MustAccAddressFromBech32'') (ext_bech32 x (fp_Addr fp))) (\<lambda>fpAddr.
       bindR (hookFn fpAddr (del_Delegator del) (IsFpInPrevActiveSet st (fp_BtcPk fp))
           (fp_BtcPk fp \<in> set activeFps) (del_TotalSat del) e) (\<lambda>e1.
       Inr (st\<lparr>st_FpByBtcPk := cache\<rparr>, e1))))) a fpDels"

definition processActiveBtcDelHook ::
  "ext \<Rightarrow> 'h env \<Rightarrow> bs_state \<Rightarrow> btcpk list \<Rightarrow> ProcessingState \<times> 'h \<Rightarrow> (ProcessingState \<times> 'h) result" where
  "processActiveBtcDelHook x en b activeFps a =
     processBtcDelHook x b (st_ActiveDelegations (fst a)) activeFps (env_AfterBtcDelegationActivated en) a"

definition processUnbondingBtcDelHook ::
  "ext \<Rightarrow> 'h env \<Rightarrow> bs_state \<Rightarrow> btcpk list \<Rightarrow> ProcessingState \<times> 'h \<Rightarrow> (ProcessingState \<times> 'h) result" where
  "processUnbondingBtcDelHook x en b activeFps a =
     processBtcDelHook x b (st_UnbondingDelegations (fst a)) activeFps (env_AfterBtcDelegationUnbonded en) a"

definition processHooksBTCDelegation ::
  "ext \<Rightarrow> 'h env \<Rightarrow> bs_state \<Rightarrow> VotingPowerDistCache \<Rightarrow> ProcessingState \<times> 'h \<Rightarrow> (ProcessingState \<times> 'h) result" where
  "processHooksBTCDelegation x en b newDc a =
     bindR (ActiveFpsByBtcPk newDc) (\<lambda>activeFps.
     bindR (processActiveBtcDelHook x en b activeFps a) (\<lambda>a1.
     processUnbondingBtcDelHook x en b activeFps a1))"

text \<open>The deferred loop that clears the consumed events runs last.\<close>

definition UpdatePowerDist :: "ext \<Rightarrow> 'h env \<Rightarrow> ctx \<Rightarrow> 'h world \<Rightarrow> 'h world result" where
  "UpdatePowerDist x en c w =
     (let height = cx_height c; b = w_bs w in
      bindR (GetCurrentBTCHeight c b) (\<lambda>btcTipHeight.
      let dc = (case GetVotingPowerDistCache (w_fin w) (height - 1) of
                  None \<Rightarrow> NewVotingPowerDistCache | Some dc \<Rightarrow> dc) in
      bindR (GetBTCHeightAtBabylonHeight c b (height - 1)) (\<lambda>lastBTCTipHeight.
      bindR (ProcessAllPowerDistUpdateEvents x b dc lastBTCTipHeight btcTipHeight) (\<lambda>(newDc, state, evs).
      bindR (RecordVotingPowerAndCache c (Some newDc) (w_fin w)) (\<lambda>(f1, newDc1).
      bindR (panic_on_error (processHooksBTCDelegation x en b newDc1 (state, w_ext w))) (\<lambda>(state1, e1).
      bindR (HandleFPStateUpdates en c state1 dc newDc1 True
          (w\<lparr>w_fin := f1, w_ext := e1, w_events := w_events w @ evs\<rparr>)) (\<lambda>w1.
      Inr (w1\<lparr>w_bs := foldl (\<lambda>b i. ClearPowerDistUpdateEvents i b) (w_bs w1)
                 (heights_upto lastBTCTipHeight btcTipHeight)\<rparr>))))))))"

definition Finality_BeginBlocker :: "ext \<Rightarrow> 'h env \<Rightarrow> ctx \<Rightarrow> 'h world \<Rightarrow> 'h world result" where
  "Finality_BeginBlocker x en c w = UpdatePowerDist x en c w"

end
