(* ===== verification/Power_Dist_Refinement.thy ===== *)
theory Power_Dist_Refinement
  imports Power_Dist
begin

text \<open>
  What the power distribution update computes. The specification is one number per provider and event,
  \<open>ev_delta\<close>: the satoshis that the event adds to the provider or takes from it. The update of the
  cache, with its deferred events, wrapping deltas, two loops and provider cache, is shown to add these
  numbers up.
\<close>

subsection \<open>Specification\<close>

definition staked_amount :: "BTCDelegation \<Rightarrow> btcpk \<Rightarrow> int" where
  "staked_amount d pk = int (count_list (bd_FpBtcPkList d) pk) * uint (bd_TotalSat d)"

text \<open>The satoshis an event adds to provider \<open>pk\<close>: activation adds the amount of the delegation,
  early unbonding takes it when there is a covenant quorum, and so does expiry unless the delegation
  was unbonded early.\<close>

definition ev_delta :: "ext \<Rightarrow> bs_state \<Rightarrow> btcpk \<Rightarrow> EventPowerDistUpdate \<Rightarrow> int" where
  "ev_delta x b pk ev = (case ev of
       BtcDelStateUpdate h newState \<Rightarrow> (case GetBTCDelegation x b h of
           Inl _ \<Rightarrow> 0
         | Inr d \<Rightarrow> (case newState of
               ACTIVE \<Rightarrow> staked_amount d pk
             | UNBONDED \<Rightarrow> if quorum_of x b d = Inr True then - staked_amount d pk else 0
             | EXPIRED \<Rightarrow>
                 if \<not> IsUnbondedEarly d \<and> quorum_of x b d = Inr True then - staked_amount d pk else 0
             | _ \<Rightarrow> 0))
     | _ \<Rightarrow> 0)"

definition events_delta :: "ext \<Rightarrow> bs_state \<Rightarrow> btcpk \<Rightarrow> EventPowerDistUpdate list \<Rightarrow> int" where
  "events_delta x b pk evs = sum_list (map (ev_delta x b pk) evs)"

text \<open>The satoshis of a provider in a cache, 0 when it has no entry.\<close>

definition sats_of :: "VotingPowerDistCache \<Rightarrow> btcpk \<Rightarrow> u64" where
  "sats_of dc pk = (case find (\<lambda>fp. di_BtcPk fp = pk) (dc_FinalityProviders dc) of
       None \<Rightarrow> 0 | Some fp \<Rightarrow> di_TotalBondedSat fp)"

text \<open>What the update keeps of a cache: one entry per provider, each with stake and not slashed.\<close>

definition dc_inv :: "VotingPowerDistCache \<Rightarrow> bool" where
  "dc_inv dc \<longleftrightarrow> distinct (map di_BtcPk (dc_FinalityProviders dc)) \<and>
     list_all (\<lambda>fp. di_TotalBondedSat fp \<noteq> 0 \<and> \<not> di_IsSlashed fp) (dc_FinalityProviders dc)"

text \<open>Keys are written in lower case, in the delegations as in the deltas.\<close>

definition lower :: "btcpk \<Rightarrow> bool" where
  "lower pk \<longleftrightarrow> map to_lower pk = pk"

definition staked_keys_ok :: "bs_state \<Rightarrow> bool" where
  "staked_keys_ok b \<longleftrightarrow> (\<forall>e\<in>set (bs_delegations b). list_all lower (bd_FpBtcPkList (snd e)))"

subsection \<open>Deltas\<close>

definition expired_of :: "EventPowerDistUpdate \<Rightarrow> string list" where
  "expired_of ev = (case ev of BtcDelStateUpdate h s \<Rightarrow> if s = EXPIRED then [h] else [] | _ \<Rightarrow> [])"

definition slashed_of :: "EventPowerDistUpdate \<Rightarrow> btcpk list" where
  "slashed_of ev = (case ev of SlashedFp pk \<Rightarrow> [pk] | _ \<Rightarrow> [])"

text \<open>The fields of the processing state that the delegation events leave alone.\<close>

definition rest_of ::
  "ProcessingState \<Rightarrow> btcpk set \<times> (btcpk \<Rightarrow> FinalityProviderState) \<times> (btcpk \<rightharpoonup> FinalityProvider) \<times>
     string list \<times> btcpk list" where
  "rest_of st = (st_PrevActiveFpByBtcPk st, st_FPStatesByBtcPk st, st_FpByBtcPk st, st_ExpiredEvents st,
     st_SlashedEvents st)"

definition deltas_ok :: "ProcessingState \<Rightarrow> bool" where
  "deltas_ok st \<longleftrightarrow> kv_wf (st_DeltaSatsByFpBtcPk st) \<and> (\<forall>pk\<in>fst ` set (st_DeltaSatsByFpBtcPk st). lower pk)"

lemma delta_of_set [simp]: "delta_of (kv_set k v m) pk = (if pk = k then v else delta_of m pk)"
  by (simp add: delta_of_def)

lemma add_delta_simps:
  "delta_of (st_DeltaSatsByFpBtcPk (add_delta k d st)) pk =
     delta_of (st_DeltaSatsByFpBtcPk st) pk + (if pk = k then d else 0)"
  "rest_of (add_delta k d st) = rest_of st"
  "deltas_ok st \<Longrightarrow> lower k \<Longrightarrow> deltas_ok (add_delta k d st)"
  by (simp_all add: add_delta_def rest_of_def deltas_ok_def keys_kv_set)

definition adds :: "u64 \<Rightarrow> btcpk list \<Rightarrow> ProcessingState \<Rightarrow> ProcessingState \<Rightarrow> bool" where
  "adds v pks st st' \<longleftrightarrow>
     (\<forall>pk. delta_of (st_DeltaSatsByFpBtcPk st') pk =
        delta_of (st_DeltaSatsByFpBtcPk st) pk + word_of_nat (count_list pks pk) * v) \<and>
     rest_of st' = rest_of st \<and> (deltas_ok st \<and> list_all lower pks \<longrightarrow> deltas_ok st')"

lemma foldR_adds:
  assumes g: "\<And>pk st st1. g pk st = Inr st1 \<Longrightarrow>
      st_DeltaSatsByFpBtcPk st1 = st_DeltaSatsByFpBtcPk st \<and> rest_of st1 = rest_of st"
    and "foldR (\<lambda>st pk. bindR (g pk st) (\<lambda>st1. Inr (add_delta pk v st1))) st pks = Inr st'"
  shows "adds v pks st st'"
  using assms(2)
proof (induction pks arbitrary: st)
  case Nil
  then show ?case by (simp add: adds_def)
next
  case (Cons k pks)
  obtain st1 where st1: "g k st = Inr st1"
    and "foldR (\<lambda>st pk. bindR (g pk st) (\<lambda>st1. Inr (add_delta pk v st1))) (add_delta k v st1) pks = Inr st'"
    using Cons.prems by (auto simp: bindR_eq_Inr)
  then have IH: "adds v pks (add_delta k v st1) st'" by (intro Cons.IH)
  have eq: "st_DeltaSatsByFpBtcPk st1 = st_DeltaSatsByFpBtcPk st" "rest_of st1 = rest_of st"
    using g [OF st1] by auto
  have "deltas_ok st1 = deltas_ok st" by (simp add: deltas_ok_def eq)
  then show ?case
    using IH by (auto simp: adds_def add_delta_simps eq distrib_right)
qed

lemma active_adds:
  "processPowerDistUpdateEventActive x d st = Inr st' \<Longrightarrow> adds (bd_TotalSat d) (bd_FpBtcPkList d) st st'"
  unfolding processPowerDistUpdateEventActive_def
  by (rule foldR_adds [rotated]) (auto simp: AddActiveDelegation_def rest_of_def bindR_eq_Inr)

lemma unbond_adds:
  "processPowerDistUpdateEventUnbond x d st = Inr st' \<Longrightarrow> adds (- bd_TotalSat d) (bd_FpBtcPkList d) st st'"
  unfolding processPowerDistUpdateEventUnbond_def
  by (rule foldR_adds [rotated]) (auto simp: AddUnbondingDelegation_def rest_of_def bindR_eq_Inr)

lemma word_staked_amount:
  "(word_of_int (staked_amount d pk) :: u64) = word_of_nat (count_list (bd_FpBtcPkList d) pk) * bd_TotalSat d"
  by (simp add: staked_amount_def)

lemma staked_keys:
  assumes "staked_keys_ok b" "GetBTCDelegation x b h = Inr d"
  shows "list_all lower (bd_FpBtcPkList d)"
proof -
  obtain k where "kv_get (bs_delegations b) k = Some d"
    using assms(2) by (auto simp: GetBTCDelegation_def getBTCDelegation_def result_simps)
  then have "(k, d) \<in> set (bs_delegations b)" by (rule kv_get_SomeD)
  then show ?thesis using assms(1) by (force simp: staked_keys_ok_def)
qed

subsection \<open>Events\<close>

text \<open>An effect on the processing state: what is added to the deltas, and which expired and slashed
  events are put off.\<close>

definition effect :: "(btcpk \<Rightarrow> int) \<Rightarrow> string list \<Rightarrow> btcpk list \<Rightarrow> ProcessingState \<Rightarrow> ProcessingState \<Rightarrow> bool" where
  "effect d ex sl st st' \<longleftrightarrow>
     (\<forall>pk. delta_of (st_DeltaSatsByFpBtcPk st') pk = delta_of (st_DeltaSatsByFpBtcPk st) pk + word_of_int (d pk)) \<and>
     st_PrevActiveFpByBtcPk st' = st_PrevActiveFpByBtcPk st \<and> st_FpByBtcPk st' = st_FpByBtcPk st \<and>
     st_ExpiredEvents st' = st_ExpiredEvents st @ ex \<and> st_SlashedEvents st' = st_SlashedEvents st @ sl \<and>
     (deltas_ok st \<longrightarrow> deltas_ok st') \<and>
     ((\<forall>pk. st_FPStatesByBtcPk st pk \<noteq> STATE_SLASHED) \<longrightarrow> (\<forall>pk. st_FPStatesByBtcPk st' pk \<noteq> STATE_SLASHED))"

lemma effect_refl: "effect (\<lambda>_. 0) [] [] st st"
  by (simp add: effect_def)

lemma effect_trans:
  "effect d1 ex1 sl1 st st1 \<Longrightarrow> effect d2 ex2 sl2 st1 st2 \<Longrightarrow>
   effect (\<lambda>pk. d1 pk + d2 pk) (ex1 @ ex2) (sl1 @ sl2) st st2"
  by (simp add: effect_def add.assoc)

lemma adds_effect:
  assumes "adds v pks st st'" "list_all lower pks"
    and "\<And>pk. word_of_int (d pk) = word_of_nat (count_list pks pk) * v"
  shows "effect d [] [] st st'"
  using assms by (simp add: adds_def effect_def rest_of_def)

lemma quorum_panic: "panic_on_error r = Inr v \<longleftrightarrow> r = Inr v"
  by (cases r) (simp_all add: panic_on_error_def)

definition now_delta :: "ext \<Rightarrow> bs_state \<Rightarrow> EventPowerDistUpdate \<Rightarrow> btcpk \<Rightarrow> int" where
  "now_delta x b ev pk = (if expired_of ev = [] then ev_delta x b pk ev else 0)"

lemma processBtcDelUpdate_effect:
  assumes keys: "staked_keys_ok b" and ne: "s \<noteq> EXPIRED"
    and run: "processBtcDelUpdate x b h s st = Inr st'"
  shows "effect (\<lambda>pk. ev_delta x b pk (BtcDelStateUpdate h s)) [] [] st st'"
proof -
  obtain d where d: "GetBTCDelegation x b h = Inr d"
    using run by (auto simp: processBtcDelUpdate_def bindR_eq_Inr quorum_panic)
  note low = staked_keys [OF keys d]
  show ?thesis
  proof (cases s)
    case ACTIVE
    then have "processPowerDistUpdateEventActive x d st = Inr st'"
      using run by (simp add: processBtcDelUpdate_def d panic_on_error_def)
    from adds_effect [OF active_adds [OF this] low] show ?thesis
      by (simp add: ACTIVE ev_delta_def d word_staked_amount)
  next
    case UNBONDED
    then obtain q where q: "quorum_of x b d = Inr q"
      and st': "(if q then processPowerDistUpdateEventUnbond x d st else Inr st) = Inr st'"
      using run by (auto simp: processBtcDelUpdate_def d panic_on_error_def bindR_eq_Inr)
    show ?thesis
    proof (cases q)
      case True
      then have "processPowerDistUpdateEventUnbond x d st = Inr st'" using st' by simp
      from adds_effect [OF unbond_adds [OF this] low] show ?thesis
        by (simp add: UNBONDED ev_delta_def d q True word_staked_amount)
    next
      case False
      then show ?thesis using st' by (simp add: UNBONDED ev_delta_def d q effect_refl)
    qed
  qed (use run ne in \<open>simp_all add: processBtcDelUpdate_def d panic_on_error_def ev_delta_def effect_refl\<close>)
qed

lemma process_event_effect:
  assumes "staked_keys_ok b" "process_event x b p ev = Inr p'"
  shows "effect (now_delta x b ev) (expired_of ev) (slashed_of ev) (fst p) (fst p')"
proof (cases ev)
  case (BtcDelStateUpdate h s)
  show ?thesis
  proof (cases "s = EXPIRED")
    case True
    then show ?thesis using assms(2)
      by (auto simp: BtcDelStateUpdate process_event_def expired_of_def slashed_of_def now_delta_def
        effect_def deltas_ok_def)
  next
    case False
    then obtain st where "processBtcDelUpdate x b h s (fst p) = Inr st" "p' = (st, snd p)"
      using assms(2) by (auto simp: BtcDelStateUpdate process_event_def bindR_eq_Inr)
    with processBtcDelUpdate_effect [OF assms(1) False] False show ?thesis
      by (simp add: BtcDelStateUpdate expired_of_def slashed_of_def now_delta_def [abs_def])
  qed
qed (use assms(2) in \<open>auto simp: process_event_def processFPEventImmediate_def expired_of_def slashed_of_def
  now_delta_def ev_delta_def effect_def deltas_ok_def set_fp_state_def split: if_splits\<close>)

lemma process_events_effect:
  assumes "staked_keys_ok b" "foldR (process_event x b) p evs = Inr p'"
  shows "effect (\<lambda>pk. sum_list (map (\<lambda>ev. now_delta x b ev pk) evs)) (concat (map expired_of evs))
    (concat (map slashed_of evs)) (fst p) (fst p')"
  using assms(2)
proof (induction evs arbitrary: p)
  case Nil
  then show ?case by (simp add: effect_refl)
next
  case (Cons ev evs)
  obtain p1 where "process_event x b p ev = Inr p1" "foldR (process_event x b) p1 evs = Inr p'"
    using Cons.prems by (auto simp: bindR_eq_Inr)
  with effect_trans [OF process_event_effect [OF assms(1)] Cons.IH] show ?case by simp
qed

lemma expired_effect:
  assumes keys: "staked_keys_ok b" and run: "processExpiredEvents x b p = Inr p'"
  shows "effect (\<lambda>pk. sum_list (map (\<lambda>h. ev_delta x b pk (BtcDelStateUpdate h EXPIRED)) (st_ExpiredEvents (fst p))))
    [] [] (fst p) (fst p')"
proof -
  have "effect (\<lambda>pk. sum_list (map (\<lambda>h. ev_delta x b pk (BtcDelStateUpdate h EXPIRED)) hs)) [] [] (fst p) (fst p')"
    if "foldR (\<lambda>p delStkTxHash.
       bindR (panic_on_error (GetBTCDelegation x b delStkTxHash)) (\<lambda>btcDel.
       let evs = snd p @ [EventBTCDelegationExpired delStkTxHash]
       in if IsUnbondedEarly btcDel then Inr (fst p, evs)
          else bindR (quorum_of x b btcDel) (\<lambda>hasQuorum.
            if hasQuorum
            then bindR (processPowerDistUpdateEventUnbond x btcDel (fst p)) (\<lambda>st. Inr (st, evs))
            else Inr (fst p, evs)))) p hs = Inr p'" for hs p
    using that
  proof (induction hs arbitrary: p)
    case Nil
    then show ?case by (simp add: effect_refl)
  next
    case (Cons h hs)
    let ?ev = "\<lambda>pk. ev_delta x b pk (BtcDelStateUpdate h EXPIRED)"
    obtain d p1 where d: "GetBTCDelegation x b h = Inr d"
      and p1: "(if IsUnbondedEarly d then Inr (fst p, snd p @ [EventBTCDelegationExpired h])
          else bindR (quorum_of x b d) (\<lambda>hasQuorum.
            if hasQuorum then bindR (processPowerDistUpdateEventUnbond x d (fst p))
              (\<lambda>st. Inr (st, snd p @ [EventBTCDelegationExpired h]))
            else Inr (fst p, snd p @ [EventBTCDelegationExpired h]))) = Inr p1"
      and IH: "effect (\<lambda>pk. sum_list (map (\<lambda>h. ev_delta x b pk (BtcDelStateUpdate h EXPIRED)) hs)) [] []
          (fst p1) (fst p')"
      using Cons.prems Cons.IH by (auto simp: bindR_eq_Inr quorum_panic Let_def)
    have "effect ?ev [] [] (fst p) (fst p1)"
    proof (cases "IsUnbondedEarly d \<or> quorum_of x b d = Inr False")
      case True
      then show ?thesis using p1
        by (auto simp: ev_delta_def d effect_refl bindR_eq_Inr split: if_splits)
    next
      case False
      then obtain st where st: "processPowerDistUpdateEventUnbond x d (fst p) = Inr st" "fst p1 = st"
        and q: "\<not> IsUnbondedEarly d" "quorum_of x b d = Inr True"
        using p1 by (auto simp: bindR_eq_Inr split: if_splits)
      from adds_effect [OF unbond_adds [OF st(1)] staked_keys [OF keys d]] show ?thesis
        by (simp add: ev_delta_def d q st(2) word_staked_amount)
    qed
    from effect_trans [OF this IH] show ?case by simp
  qed
  from this [of p "st_ExpiredEvents (fst p)"] run show ?thesis by (simp add: processExpiredEvents_def)
qed

lemma deltas_split:
  "sum_list (map (\<lambda>ev. now_delta x b ev pk) evs) +
     sum_list (map (\<lambda>h. ev_delta x b pk (BtcDelStateUpdate h EXPIRED)) (concat (map expired_of evs))) =
   events_delta x b pk evs"
proof (induction evs)
  case (Cons ev evs)
  then show ?case
    by (cases ev) (auto simp: events_delta_def now_delta_def expired_of_def split: if_splits)
qed (simp add: events_delta_def)

lemma foldl_slashed:
  "fst (foldl (\<lambda>p pk. (set_fp_state pk STATE_SLASHED (fst p),
        snd p @ [EventFinalityProviderStatusChange pk FP_SLASHED])) p pks) =
   (fst p)\<lparr>st_FPStatesByBtcPk := (\<lambda>pk. if pk \<in> set pks then STATE_SLASHED else st_FPStatesByBtcPk (fst p) pk)\<rparr>"
  by (induction pks arbitrary: p) (auto simp: set_fp_state_def fun_eq_iff)

lemma processSlashedEvents_eq:
  "fst (processSlashedEvents p) = (fst p)\<lparr>st_FPStatesByBtcPk :=
     (\<lambda>pk. if pk \<in> set (st_SlashedEvents (fst p)) then STATE_SLASHED else st_FPStatesByBtcPk (fst p) pk)\<rparr>"
  by (simp add: processSlashedEvents_def foldl_slashed)

lemma fill_inv:
  assumes "list_all (\<lambda>fp. \<not> di_IsSlashed fp) (dc_FinalityProviders dc)"
  shows "st_DeltaSatsByFpBtcPk (FillByPrevVpDstCache dc NewProcessingState) = [] \<and>
    st_FpByBtcPk (FillByPrevVpDstCache dc NewProcessingState) = Map.empty \<and>
    st_ExpiredEvents (FillByPrevVpDstCache dc NewProcessingState) = [] \<and>
    st_SlashedEvents (FillByPrevVpDstCache dc NewProcessingState) = [] \<and>
    (\<forall>pk. st_FPStatesByBtcPk (FillByPrevVpDstCache dc NewProcessingState) pk \<noteq> STATE_SLASHED)"
proof -
  let ?I = "\<lambda>st. st_DeltaSatsByFpBtcPk st = [] \<and> st_FpByBtcPk st = Map.empty \<and> st_ExpiredEvents st = [] \<and>
    st_SlashedEvents st = [] \<and> (\<forall>pk. st_FPStatesByBtcPk st pk \<noteq> STATE_SLASHED)"
  let ?f = "\<lambda>st (idx, fp).
       let st1 = (if idx < unat (dc_NumActiveFps dc)
                  then st\<lparr>st_PrevActiveFpByBtcPk := insert (di_BtcPk fp) (st_PrevActiveFpByBtcPk st)\<rparr>
                  else st)
       in AddStateForFp fp st1"
  have "?I (foldl ?f st (enumerate n fps))" if "?I st" "list_all (\<lambda>fp. \<not> di_IsSlashed fp) fps" for st n fps
    using that
  proof (induction fps arbitrary: st n)
    case (Cons fp fps)
    have "?I (?f st (n, fp))"
      using Cons.prems by (auto simp: AddStateForFp_def set_fp_state_def Let_def split: if_splits)
    from Cons.IH [OF this, of "Suc n"] Cons.prems(2) show ?case by simp
  qed simp
  from this [of NewProcessingState "dc_FinalityProviders dc" 0] assms show ?thesis
    by (simp add: FillByPrevVpDstCache_def NewProcessingState_def)
qed

lemma foldR_concat:
  "foldR (\<lambda>p h. foldR f p (g h)) p hs = foldR f p (concat (map g hs))"
  by (induction hs arbitrary: p) (simp_all add: foldR_append)

subsection \<open>The two loops over the providers\<close>

definition jail_as :: "FinalityProviderState \<Rightarrow> FinalityProviderDistInfo \<Rightarrow> FinalityProviderDistInfo" where
  "jail_as s fp = (case s of STATE_JAILED \<Rightarrow> fp\<lparr>di_IsJailed := True\<rparr>
     | STATE_UNJAILED \<Rightarrow> fp\<lparr>di_IsJailed := False\<rparr> | _ \<Rightarrow> fp)"

lemma jail_as_simps [simp]:
  "di_BtcPk (jail_as s fp) = di_BtcPk fp" "di_TotalBondedSat (jail_as s fp) = di_TotalBondedSat fp"
  "di_IsSlashed (jail_as s fp) = di_IsSlashed fp"
  by (cases s; simp add: jail_as_def)+

text \<open>The condition under which \<open>ChangeDeltaSats\<close> succeeds.\<close>

definition delta_fits :: "u64 \<Rightarrow> u64 \<Rightarrow> bool" where
  "delta_fits d sats \<longleftrightarrow> \<not> (sint d < 0 \<and> sats < - d)"

lemma ChangeDeltaSats_Inr:
  "ChangeDeltaSats d v = Inr v' \<longleftrightarrow>
     delta_fits d (di_TotalBondedSat v) \<and> v' = v\<lparr>di_TotalBondedSat := di_TotalBondedSat v + d\<rparr>"
  by (auto simp: ChangeDeltaSats_eq delta_fits_def)

definition old_entry :: "ProcessingState \<Rightarrow> (btcpk, u64) kv \<Rightarrow> FinalityProviderDistInfo \<Rightarrow> FinalityProviderDistInfo list" where
  "old_entry st ds fp =
     (let n = di_TotalBondedSat fp + delta_of ds (di_BtcPk fp) in
      if st_FPStatesByBtcPk st (di_BtcPk fp) = STATE_SLASHED \<or> n = 0 then []
      else [(jail_as (st_FPStatesByBtcPk st (di_BtcPk fp)) fp)\<lparr>di_TotalBondedSat := n\<rparr>])"

definition kept_pks :: "ProcessingState \<Rightarrow> FinalityProviderDistInfo list \<Rightarrow> btcpk set" where
  "kept_pks st fps = {pk \<in> di_BtcPk ` set fps. st_FPStatesByBtcPk st pk \<noteq> STATE_SLASHED}"

lemma process_old_fp_Inr:
  assumes "process_old_fp st (nd, ds) fp = Inr a"
  shows "a = (nd\<lparr>dc_FinalityProviders := dc_FinalityProviders nd @ old_entry st ds fp\<rparr>,
      if st_FPStatesByBtcPk st (di_BtcPk fp) = STATE_SLASHED then ds else kv_del (di_BtcPk fp) ds) \<and>
    (st_FPStatesByBtcPk st (di_BtcPk fp) \<noteq> STATE_SLASHED \<longrightarrow>
       delta_fits (delta_of ds (di_BtcPk fp)) (di_TotalBondedSat fp))"
proof (cases "st_FPStatesByBtcPk st (di_BtcPk fp) = STATE_SLASHED")
  case True
  then show ?thesis using assms by (auto simp: process_old_fp_def old_entry_def Let_def)
next
  case False
  then obtain fp1 where "ChangeDeltaSats (delta_of ds (di_BtcPk fp))
      (jail_as (st_FPStatesByBtcPk st (di_BtcPk fp)) fp) = Inr fp1"
    and a: "a = (if di_TotalBondedSat fp1 > 0 then AddFinalityProviderDistInfo fp1 nd else nd, kv_del (di_BtcPk fp) ds)"
    using assms by (auto simp: process_old_fp_def jail_as_def [symmetric] bindR_eq_Inr quorum_panic Let_def)
  then show ?thesis
    using False by (auto simp: ChangeDeltaSats_Inr old_entry_def Let_def AddFinalityProviderDistInfo_def word_neq_0_conv)
qed

lemma delta_of_del: "delta_of (kv_del k m) pk = (if pk = k then 0 else delta_of m pk)"
  by (simp add: delta_of_def)

lemma old_loop:
  assumes "distinct (map di_BtcPk fps)" "foldR (process_old_fp st) (nd, ds) fps = Inr (nd', ds')"
  shows "nd' = nd\<lparr>dc_FinalityProviders := dc_FinalityProviders nd @ concat (map (old_entry st ds) fps)\<rparr> \<and>
    ds' = filter (\<lambda>e. fst e \<notin> kept_pks st fps) ds \<and>
    (\<forall>fp\<in>set fps. st_FPStatesByBtcPk st (di_BtcPk fp) \<noteq> STATE_SLASHED \<longrightarrow>
       delta_fits (delta_of ds (di_BtcPk fp)) (di_TotalBondedSat fp))"
  using assms
proof (induction fps arbitrary: nd ds)
  case Nil
  then show ?case by (simp add: kept_pks_def)
next
  case (Cons fp fps)
  obtain a where a: "process_old_fp st (nd, ds) fp = Inr a" and rest: "foldR (process_old_fp st) a fps = Inr (nd', ds')"
    using Cons.prems(2) by (auto simp: bindR_eq_Inr)
  define ds1 where "ds1 = (if st_FPStatesByBtcPk st (di_BtcPk fp) = STATE_SLASHED then ds else kv_del (di_BtcPk fp) ds)"
  let ?nd1 = "nd\<lparr>dc_FinalityProviders := dc_FinalityProviders nd @ old_entry st ds fp\<rparr>"
  note step = process_old_fp_Inr [OF a, folded ds1_def]
  have "foldR (process_old_fp st) (?nd1, ds1) fps = Inr (nd', ds')" using rest step by simp
  then have IH: "nd' = ?nd1\<lparr>dc_FinalityProviders := dc_FinalityProviders ?nd1 @ concat (map (old_entry st ds1) fps)\<rparr> \<and>
    ds' = filter (\<lambda>e. fst e \<notin> kept_pks st fps) ds1 \<and>
    (\<forall>fp\<in>set fps. st_FPStatesByBtcPk st (di_BtcPk fp) \<noteq> STATE_SLASHED \<longrightarrow>
       delta_fits (delta_of ds1 (di_BtcPk fp)) (di_TotalBondedSat fp))"
    using Cons.prems(1) by (intro Cons.IH) auto
  have same: "delta_of ds1 (di_BtcPk g) = delta_of ds (di_BtcPk g)" if "g \<in> set fps" for g
  proof -
    have "di_BtcPk g \<noteq> di_BtcPk fp" using Cons.prems(1) that by (force simp: image_iff)
    then show ?thesis by (simp add: ds1_def delta_of_del)
  qed
  then have "concat (map (old_entry st ds1) fps) = concat (map (old_entry st ds) fps)"
    by (intro arg_cong [of _ _ concat] map_cong) (simp_all add: old_entry_def)
  moreover have "filter (\<lambda>e. fst e \<notin> kept_pks st fps) ds1 = filter (\<lambda>e. fst e \<notin> kept_pks st (fp # fps)) ds"
    by (auto simp: ds1_def kv_del_def kept_pks_def intro!: filter_cong)
  ultimately show ?case using IH step same by simp
qed

definition new_entry :: "ext \<Rightarrow> bs_state \<Rightarrow> ProcessingState \<Rightarrow> (btcpk, u64) kv \<Rightarrow> btcpk \<Rightarrow> FinalityProviderDistInfo list" where
  "new_entry x b st ds pk =
     (case bindR (loadFP b Map.empty pk) (\<lambda>(fp, _). bindR (NewFinalityProviderDistInfo x fp) (\<lambda>di. Inr (fp, di))) of
        Inl _ \<Rightarrow> []
      | Inr (fp, di) \<Rightarrow>
          if IsSlashed fp \<or> delta_of ds pk = 0 then []
          else [(jail_as (st_FPStatesByBtcPk st pk) di)\<lparr>di_TotalBondedSat := delta_of ds pk\<rparr>])"

text \<open>The cache of providers only holds what the store holds.\<close>

definition cache_ok :: "bs_state \<Rightarrow> (btcpk \<rightharpoonup> FinalityProvider) \<Rightarrow> bool" where
  "cache_ok b cache \<longleftrightarrow> (\<forall>pk fp. cache pk = Some fp \<longrightarrow> (\<exists>c. loadFP b Map.empty pk = Inr (fp, c)))"

lemma loadFP_cache:
  assumes "cache_ok b cache" "loadFP b cache pk = Inr (fp, cache')"
  shows "(\<exists>c. loadFP b Map.empty pk = Inr (fp, c)) \<and> cache_ok b cache'"
  using assms by (auto simp: loadFP_def cache_ok_def bindR_eq_Inr split: option.splits if_splits)

lemma process_new_fp_eq:
  "process_new_fp x b st ds (nd, cache) pk =
     bindR (panic_on_error (loadFP b cache pk)) (\<lambda>(fp, cache').
       if IsSlashed fp then Inr (nd, cache')
       else bindR (NewFinalityProviderDistInfo x fp) (\<lambda>di.
         bindR (panic_on_error (ChangeDeltaSats (delta_of ds pk) (jail_as (st_FPStatesByBtcPk st pk) di))) (\<lambda>di1.
         Inr (if di_TotalBondedSat di1 > 0 then AddFinalityProviderDistInfo di1 nd else nd, cache'))))"
  unfolding process_new_fp_def jail_as_def Let_def fst_conv snd_conv by (rule refl)

lemma process_new_fp_Inr:
  assumes ok: "cache_ok b cache" and run: "process_new_fp x b st ds (nd, cache) pk = Inr a"
  shows "fst a = nd\<lparr>dc_FinalityProviders := dc_FinalityProviders nd @ new_entry x b st ds pk\<rparr> \<and>
    cache_ok b (snd a) \<and>
    (\<exists>fp c. loadFP b Map.empty pk = Inr (fp, c) \<and>
       (\<not> IsSlashed fp \<longrightarrow> delta_fits (delta_of ds pk) 0 \<and> (\<exists>di. NewFinalityProviderDistInfo x fp = Inr di)))"
proof -
  obtain fp cache' where load: "loadFP b cache pk = Inr (fp, cache')"
    and a: "(if IsSlashed fp then Inr (nd, cache')
      else bindR (NewFinalityProviderDistInfo x fp) (\<lambda>di.
         bindR (panic_on_error (ChangeDeltaSats (delta_of ds pk) (jail_as (st_FPStatesByBtcPk st pk) di))) (\<lambda>di1.
         Inr (if di_TotalBondedSat di1 > 0 then AddFinalityProviderDistInfo di1 nd else nd, cache')))) = Inr a"
    using run unfolding process_new_fp_eq bindR_eq_Inr quorum_panic by auto
  obtain c where c: "loadFP b Map.empty pk = Inr (fp, c)" and ok': "cache_ok b cache'"
    using loadFP_cache [OF ok load] by blast
  show ?thesis
  proof (cases "IsSlashed fp")
    case True
    have "new_entry x b st ds pk = []"
      using True by (cases "NewFinalityProviderDistInfo x fp") (auto simp: new_entry_def c)
    then show ?thesis using a True ok' c by auto
  next
    case False
    then obtain di di1 where di: "NewFinalityProviderDistInfo x fp = Inr di"
      and ch: "ChangeDeltaSats (delta_of ds pk) (jail_as (st_FPStatesByBtcPk st pk) di) = Inr di1"
      and a1: "a = (if di_TotalBondedSat di1 > 0 then AddFinalityProviderDistInfo di1 nd else nd, cache')"
      using a by (auto simp: bindR_eq_Inr quorum_panic)
    have "di_TotalBondedSat di = 0" using di by (auto simp: NewFinalityProviderDistInfo_def result_simps)
    then show ?thesis
      using False ch a1 ok' c di
      by (auto simp: ChangeDeltaSats_Inr new_entry_def AddFinalityProviderDistInfo_def word_neq_0_conv)
  qed
qed

lemma new_loop:
  assumes "cache_ok b cache" "foldR (process_new_fp x b st ds) (nd, cache) pks = Inr (nd', cache')"
  shows "nd' = nd\<lparr>dc_FinalityProviders := dc_FinalityProviders nd @ concat (map (new_entry x b st ds) pks)\<rparr> \<and>
    (\<forall>pk\<in>set pks. \<exists>fp c. loadFP b Map.empty pk = Inr (fp, c) \<and>
       (\<not> IsSlashed fp \<longrightarrow> delta_fits (delta_of ds pk) 0 \<and> (\<exists>di. NewFinalityProviderDistInfo x fp = Inr di)))"
  using assms
proof (induction pks arbitrary: nd cache)
  case (Cons pk pks)
  obtain nd1 cache1 where "process_new_fp x b st ds (nd, cache) pk = Inr (nd1, cache1)"
    and rest: "foldR (process_new_fp x b st ds) (nd1, cache1) pks = Inr (nd', cache')"
    using Cons.prems(2) by (auto simp: bindR_eq_Inr)
  note step = process_new_fp_Inr [OF Cons.prems(1) this(1), simplified]
  from step have "cache_ok b cache1" by blast
  from Cons.IH [OF this rest] step show ?case by auto
qed simp

text \<open>The new cache is made of the entries of the two loops, from deltas that are the sums of the
  events.\<close>

definition cache_facts ::
  "ext \<Rightarrow> bs_state \<Rightarrow> VotingPowerDistCache \<Rightarrow> EventPowerDistUpdate list \<Rightarrow> VotingPowerDistCache \<Rightarrow>
   ProcessingState \<Rightarrow> (btcpk, u64) kv \<Rightarrow> btcpk list \<Rightarrow> bool" where
  "cache_facts x b dc evs newDc st ds pks \<longleftrightarrow>
     (\<forall>pk. delta_of (st_DeltaSatsByFpBtcPk st) pk = word_of_int (events_delta x b pk evs)) \<and>
     (\<forall>pk. st_FPStatesByBtcPk st pk = STATE_SLASHED \<longleftrightarrow> SlashedFp pk \<in> set evs) \<and>
     deltas_ok st \<and>
     ds = filter (\<lambda>e. fst e \<notin> kept_pks st (dc_FinalityProviders dc)) (st_DeltaSatsByFpBtcPk st) \<and>
     distinct pks \<and> set pks = {pk \<in> fst ` set ds. SlashedFp pk \<notin> set evs} \<and>
     dc_FinalityProviders newDc =
       concat (map (old_entry st (st_DeltaSatsByFpBtcPk st)) (dc_FinalityProviders dc)) @
       concat (map (new_entry x b st ds) pks) \<and>
     (\<forall>fp\<in>set (dc_FinalityProviders dc). SlashedFp (di_BtcPk fp) \<notin> set evs \<longrightarrow>
        delta_fits (delta_of (st_DeltaSatsByFpBtcPk st) (di_BtcPk fp)) (di_TotalBondedSat fp)) \<and>
     (\<forall>pk\<in>set pks. \<exists>fp c. loadFP b Map.empty pk = Inr (fp, c) \<and>
        (\<not> IsSlashed fp \<longrightarrow> delta_fits (delta_of ds pk) 0 \<and> (\<exists>di. NewFinalityProviderDistInfo x fp = Inr di)))"

lemma new_cache_entries:
  assumes keys: "staked_keys_ok b" and inv: "dc_inv dc"
    and run: "ProcessAllPowerDistUpdateEvents x b dc lo hi = Inr (newDc, out)"
    and evs_def: "evs = GetAllPowerDistUpdateEvents b lo hi"
  shows "\<exists>st ds pks. cache_facts x b dc evs newDc st ds pks"
proof -
  let ?st0 = "FillByPrevVpDstCache dc NewProcessingState"
  have ns: "list_all (\<lambda>fp. \<not> di_IsSlashed fp) (dc_FinalityProviders dc)"
    and dist: "distinct (map di_BtcPk (dc_FinalityProviders dc))"
    using inv by (auto simp: dc_inv_def list_all_iff)
  note fill = fill_inv [OF ns]
  obtain p1 p2 nd ds cache where
    p1: "foldR (process_event x b) (?st0, []) evs = Inr p1" and p2: "processExpiredEvents x b p1 = Inr p2"
    and old: "foldR (process_old_fp (fst (processSlashedEvents p2)))
       (NewVotingPowerDistCache, st_DeltaSatsByFpBtcPk (fst (processSlashedEvents p2))) (dc_FinalityProviders dc) = Inr (nd, ds)"
    and new: "foldR (process_new_fp x b (fst (processSlashedEvents p2)) ds)
       (nd, st_FpByBtcPk (fst (processSlashedEvents p2))) (sort_slice_stable (<)
         (filter (\<lambda>pk. st_FPStatesByBtcPk (fst (processSlashedEvents p2)) pk \<noteq> STATE_SLASHED) (map fst ds))) = Inr (newDc, cache)"
    using run
    by (auto simp: ProcessAllPowerDistUpdateEvents_def processEventsAtHeight_def foldR_concat evs_def
      GetAllPowerDistUpdateEvents_def bindR_eq_Inr Let_def)
  define st where "st = fst (processSlashedEvents p2)"
  let ?D = "st_DeltaSatsByFpBtcPk st"
  let ?pks = "sort_slice_stable (<) (filter (\<lambda>pk. st_FPStatesByBtcPk st pk \<noteq> STATE_SLASHED) (map fst ds))"
  note e1 = process_events_effect [OF keys p1, unfolded fst_conv]
  have "st_ExpiredEvents (fst p1) = concat (map expired_of evs)" using e1 fill by (simp add: effect_def)
  note e2 = expired_effect [OF keys p2, unfolded this]
  have eff: "effect (\<lambda>pk. events_delta x b pk evs) (concat (map expired_of evs)) (concat (map slashed_of evs)) ?st0 (fst p2)"
    using effect_trans [OF e1 e2] by (simp only: deltas_split append_Nil2)
  have delta: "delta_of ?D pk = word_of_int (events_delta x b pk evs)" for pk
    using eff fill by (simp add: st_def processSlashedEvents_eq effect_def delta_of_def)
  have "set (concat (map slashed_of evs)) = {pk. SlashedFp pk \<in> set evs}"
    by (auto simp: slashed_of_def split: EventPowerDistUpdate.splits)
  then have slashed: "st_FPStatesByBtcPk st pk = STATE_SLASHED \<longleftrightarrow> SlashedFp pk \<in> set evs" for pk
    using eff fill by (auto simp: st_def processSlashedEvents_eq effect_def)
  have dok: "deltas_ok st"
    using eff fill by (simp add: st_def processSlashedEvents_eq effect_def deltas_ok_def)
  have "cache_ok b (st_FpByBtcPk st)"
    using eff fill by (simp add: st_def processSlashedEvents_eq effect_def cache_ok_def)
  note nl = new_loop [OF this new [folded st_def]]
  note ol = old_loop [OF dist old [folded st_def]]
  have "distinct (map fst ds)"
    using ol dok by (simp add: deltas_ok_def kv_wf_distinct distinct_map_filter)
  then have "cache_facts x b dc evs newDc st ds ?pks"
    using nl ol slashed delta dok
    by (simp add: cache_facts_def NewVotingPowerDistCache_def)
  then show ?thesis by blast
qed

subsection \<open>Conservation of stake\<close>

lemma sats_of_entry:
  assumes "distinct (map di_BtcPk (dc_FinalityProviders dc))" "fp \<in> set (dc_FinalityProviders dc)"
  shows "sats_of dc (di_BtcPk fp) = di_TotalBondedSat fp"
proof -
  obtain g where g: "find (\<lambda>g. di_BtcPk g = di_BtcPk fp) (dc_FinalityProviders dc) = Some g"
    using assms(2) by (cases "find (\<lambda>g. di_BtcPk g = di_BtcPk fp) (dc_FinalityProviders dc)") (auto simp: find_None_iff)
  then have "g \<in> set (dc_FinalityProviders dc)" "di_BtcPk g = di_BtcPk fp" by (auto simp: find_Some_iff)
  then have "g = fp" using assms by (auto simp: distinct_map dest: inj_onD)
  then show ?thesis by (simp add: sats_of_def g)
qed

lemma sats_of_none: "pk \<notin> di_BtcPk ` set (dc_FinalityProviders dc) \<Longrightarrow> sats_of dc pk = 0"
  by (auto simp: sats_of_def find_Some_iff split: option.splits)

text \<open>Each element gives at most one entry, under its own key.\<close>

lemma distinct_entries:
  assumes "distinct (map k xs)" "\<And>x. x \<in> set xs \<Longrightarrow> length (g x) \<le> 1"
    "\<And>x e. x \<in> set xs \<Longrightarrow> e \<in> set (g x) \<Longrightarrow> key e = k x"
  shows "distinct (map key (concat (map g xs)))"
  using assms
proof (induction xs)
  case (Cons x xs)
  have "distinct (map key (concat (map g xs)))" using Cons by simp
  moreover have "distinct (map key (g x))" using Cons.prems(2) [of x] by (cases "g x"; cases "tl (g x)") auto
  moreover have "key e \<notin> key ` set (concat (map g xs))" if "e \<in> set (g x)" for e
    using Cons.prems(1) Cons.prems(3) [of x e] Cons.prems(3) that by (auto simp: image_iff) (metis)
  ultimately show ?case by auto
qed simp

lemma old_entry_key:
  "e \<in> set (old_entry st ds fp) \<Longrightarrow> di_BtcPk e = di_BtcPk fp \<and> di_TotalBondedSat e \<noteq> 0 \<and>
     di_IsSlashed e = di_IsSlashed fp \<and> st_FPStatesByBtcPk st (di_BtcPk fp) \<noteq> STATE_SLASHED"
  "length (old_entry st ds fp) \<le> 1"
  by (auto simp: old_entry_def Let_def split: if_splits)

lemma loaded_key:
  assumes "fps_inv b" "lower pk" "loadFP b Map.empty pk = Inr (fp, c)"
  shows "kv_get (bs_fps b) pk = Some fp \<and> fp_BtcPk fp = pk"
proof -
  obtain pk' where "NewBIP340PubKeyFromHex pk = Inr pk'" and get: "GetFinalityProvider b pk' = Inr fp"
    using assms(3) by (auto simp: loadFP_def bindR_eq_Inr)
  then have "pk' = pk" using assms(2) by (auto simp: NewBIP340PubKeyFromHex_def lower_def split: if_splits)
  then show ?thesis using get fps_inv_key [OF assms(1) get]
    by (simp add: GetFinalityProvider_def option_to_result_eq_Inr)
qed

lemma new_entry_key:
  assumes "fps_inv b" "lower pk" "e \<in> set (new_entry x b st ds pk)"
  shows "di_BtcPk e = pk \<and> di_TotalBondedSat e = delta_of ds pk \<and> delta_of ds pk \<noteq> 0 \<and> \<not> di_IsSlashed e"
proof -
  obtain fp c di where load: "loadFP b Map.empty pk = Inr (fp, c)" and di: "NewFinalityProviderDistInfo x fp = Inr di"
    and "\<not> IsSlashed fp" "delta_of ds pk \<noteq> 0"
    "e = (jail_as (st_FPStatesByBtcPk st pk) di)\<lparr>di_TotalBondedSat := delta_of ds pk\<rparr>"
    using assms(3) by (auto simp: new_entry_def bindR_def split: sum.splits if_splits)
  moreover have "di_BtcPk di = pk" "di_IsSlashed di = IsSlashed fp"
    using loaded_key [OF assms(1,2) load] di by (auto simp: NewFinalityProviderDistInfo_def result_simps)
  ultimately show ?thesis by simp
qed

lemma length_new_entry: "length (new_entry x b st ds pk) \<le> 1"
  by (auto simp: new_entry_def split: sum.splits)

lemma delta_exact:
  assumes "- (2 ^ 63) \<le> d" "d < 2 ^ 63" "uint a + d < 2 ^ 64" "delta_fits (word_of_int d) a"
  shows "uint (a + word_of_int d :: u64) = uint a + d"
proof -
  have sint: "sint (word_of_int d :: u64) = d"
    using assms(1,2) by (simp add: sint_sbintrunc' signed_take_bit_int_eq_self)
  have "0 \<le> uint a + d"
  proof (cases "d < 0")
    case True
    then have "uint (- (word_of_int d :: u64)) = - d" using sint_less_zero [of "word_of_int d"] sint by simp
    moreover have "\<not> a < - (word_of_int d :: u64)" using assms(4) True sint by (simp add: delta_fits_def)
    ultimately show ?thesis by (simp add: word_less_def)
  qed simp
  then show ?thesis using uint_add_sint [of a "word_of_int d"] sint assms(3) by simp
qed

lemma delta_of_filter: "P pk \<Longrightarrow> delta_of (filter (\<lambda>e. P (fst e)) m) pk = delta_of m pk"
proof -
  assume "P pk"
  then have "kv_get (filter (\<lambda>e. P (fst e)) m) pk = kv_get m pk" by (induction m) auto
  then show ?thesis by (simp add: delta_of_def)
qed

text \<open>A provider is slashed when one of the events says so, and, when it is not in the previous
  cache, also when its record says so.\<close>

definition slashed_now :: "bs_state \<Rightarrow> VotingPowerDistCache \<Rightarrow> EventPowerDistUpdate list \<Rightarrow> btcpk \<Rightarrow> bool" where
  "slashed_now b dc evs pk \<longleftrightarrow> SlashedFp pk \<in> set evs \<or>
     pk \<notin> di_BtcPk ` set (dc_FinalityProviders dc) \<and>
     (case kv_get (bs_fps b) pk of None \<Rightarrow> False | Some fp \<Rightarrow> IsSlashed fp)"

definition in_bounds :: "ext \<Rightarrow> bs_state \<Rightarrow> VotingPowerDistCache \<Rightarrow> EventPowerDistUpdate list \<Rightarrow> btcpk \<Rightarrow> bool" where
  "in_bounds x b dc evs pk \<longleftrightarrow> - (2 ^ 63) \<le> events_delta x b pk evs \<and> events_delta x b pk evs < 2 ^ 63 \<and>
     uint (sats_of dc pk) + events_delta x b pk evs < 2 ^ 64"

lemma entry_keys:
  assumes "fps_inv b" "cache_facts x b dc evs newDc st ds pks"
  shows "e \<in> set (concat (map (old_entry st D) (dc_FinalityProviders dc))) \<Longrightarrow>
      di_BtcPk e \<in> kept_pks st (dc_FinalityProviders dc)"
    and "pk \<in> set pks \<Longrightarrow> lower pk \<and> pk \<notin> kept_pks st (dc_FinalityProviders dc) \<and> SlashedFp pk \<notin> set evs"
    and "e \<in> set (concat (map (new_entry x b st ds) pks)) \<Longrightarrow> di_BtcPk e \<in> set pks"
proof -
  show "di_BtcPk e \<in> kept_pks st (dc_FinalityProviders dc)"
    if "e \<in> set (concat (map (old_entry st D) (dc_FinalityProviders dc)))"
    using that old_entry_key(1) by (fastforce simp: kept_pks_def)
  show pk: "lower pk \<and> pk \<notin> kept_pks st (dc_FinalityProviders dc) \<and> SlashedFp pk \<notin> set evs"
    if "pk \<in> set pks" for pk
    using assms(2) that by (auto simp: cache_facts_def deltas_ok_def)
  show "di_BtcPk e \<in> set pks" if e: "e \<in> set (concat (map (new_entry x b st ds) pks))"
  proof -
    obtain q where q: "q \<in> set pks" "e \<in> set (new_entry x b st ds q)" using e by auto
    have "lower q" using pk [OF q(1)] by blast
    then have "di_BtcPk e = q" using new_entry_key [OF assms(1) _ q(2)] by blast
    then show ?thesis using q(1) by simp
  qed
qed

lemma new_keys:
  assumes "fps_inv b" "cache_facts x b dc evs newDc st ds pks"
  shows "di_BtcPk ` set (concat (map (new_entry x b st ds) pks)) \<subseteq> set pks"
  using entry_keys(3) [OF assms] by (rule image_subsetI)

lemma old_keys:
  assumes "fps_inv b" "cache_facts x b dc evs newDc st ds pks"
  shows "di_BtcPk ` set (concat (map (old_entry st D) (dc_FinalityProviders dc))) \<subseteq>
    kept_pks st (dc_FinalityProviders dc)"
  using entry_keys(1) [OF assms] by (rule image_subsetI)

lemma new_cache_inv:
  assumes fps: "fps_inv b" and inv: "dc_inv dc" and facts: "cache_facts x b dc evs newDc st ds pks"
  shows "dc_inv newDc"
proof -
  let ?A = "concat (map (old_entry st (st_DeltaSatsByFpBtcPk st)) (dc_FinalityProviders dc))"
  let ?B = "concat (map (new_entry x b st ds) pks)"
  note keys = entry_keys [OF fps facts]
  have dc': "dc_FinalityProviders newDc = ?A @ ?B" and dpks: "distinct pks"
    using facts by (simp_all add: cache_facts_def)
  have new: "di_BtcPk e = pk \<and> di_TotalBondedSat e \<noteq> 0 \<and> \<not> di_IsSlashed e"
    if "pk \<in> set pks" "e \<in> set (new_entry x b st ds pk)" for pk e
    using new_entry_key [OF fps _ that(2)] keys(2) [OF that(1)] by auto
  have "distinct (map di_BtcPk ?A)"
    using inv old_entry_key by (intro distinct_entries [where k = di_BtcPk]) (auto simp: dc_inv_def)
  moreover have "distinct (map di_BtcPk ?B)"
    using dpks new length_new_entry by (intro distinct_entries [where k = "\<lambda>pk. pk"]) auto
  moreover have "di_BtcPk ` set ?A \<inter> di_BtcPk ` set ?B = {}"
  proof -
    have "set pks \<inter> kept_pks st (dc_FinalityProviders dc) = {}" using keys(2) by blast
    then show ?thesis using old_keys [OF fps facts, of "st_DeltaSatsByFpBtcPk st"] new_keys [OF fps facts] by blast
  qed
  ultimately have "distinct (map di_BtcPk (dc_FinalityProviders newDc))"
    by (simp add: dc' del: set_concat)
  moreover have "di_TotalBondedSat e \<noteq> 0 \<and> \<not> di_IsSlashed e" if eA: "e \<in> set ?A" for e
  proof -
    obtain fp where fp: "fp \<in> set (dc_FinalityProviders dc)" and e: "e \<in> set (old_entry st (st_DeltaSatsByFpBtcPk st) fp)"
      using eA by auto
    have "\<not> di_IsSlashed fp" using inv fp by (simp add: dc_inv_def list_all_iff)
    then show ?thesis using old_entry_key(1) [OF e] by simp
  qed
  moreover have "di_TotalBondedSat e \<noteq> 0 \<and> \<not> di_IsSlashed e" if "e \<in> set ?B" for e
    using that new by auto
  ultimately show ?thesis by (auto simp: dc_inv_def dc' list_all_iff)
qed

lemma old_sats:
  assumes fps: "fps_inv b" and inv: "dc_inv dc" and facts: "cache_facts x b dc evs newDc st ds pks"
    and fp: "fp \<in> set (dc_FinalityProviders dc)" and ns: "SlashedFp (di_BtcPk fp) \<notin> set evs"
  shows "sats_of newDc (di_BtcPk fp) = di_TotalBondedSat fp + word_of_int (events_delta x b (di_BtcPk fp) evs)"
proof -
  let ?D = "st_DeltaSatsByFpBtcPk st" and ?fps = "dc_FinalityProviders dc" and ?pk = "di_BtcPk fp"
  let ?n = "di_TotalBondedSat fp + word_of_int (events_delta x b ?pk evs)"
  have D: "delta_of ?D ?pk = word_of_int (events_delta x b ?pk evs)"
    and sl: "st_FPStatesByBtcPk st ?pk \<noteq> STATE_SLASHED"
    and new: "dc_FinalityProviders newDc = concat (map (old_entry st ?D) ?fps) @ concat (map (new_entry x b st ds) pks)"
    using facts ns unfolding cache_facts_def by (elim conjE, simp)+
  have dist: "distinct (map di_BtcPk ?fps)" "distinct (map di_BtcPk (dc_FinalityProviders newDc))"
    using inv new_cache_inv [OF fps inv facts] by (simp_all add: dc_inv_def)
  show ?thesis
  proof (cases "?n = 0")
    case False
    let ?e = "(jail_as (st_FPStatesByBtcPk st ?pk) fp)\<lparr>di_TotalBondedSat := ?n\<rparr>"
    have "?e \<in> set (old_entry st ?D fp)" using False sl by (simp add: old_entry_def D)
    then have "?e \<in> set (dc_FinalityProviders newDc)" using fp by (auto simp: new)
    from sats_of_entry [OF dist(2) this] show ?thesis by simp
  next
    case zero: True
    have "?pk \<notin> di_BtcPk ` set (concat (map (old_entry st ?D) ?fps))"
    proof
      assume "?pk \<in> di_BtcPk ` set (concat (map (old_entry st ?D) ?fps))"
      then obtain e g where g: "g \<in> set ?fps" and e: "e \<in> set (old_entry st ?D g)" "di_BtcPk e = ?pk" by auto
      have "inj_on di_BtcPk (set ?fps)" using dist(1) by (simp add: distinct_map)
      moreover have "di_BtcPk g = ?pk" using old_entry_key(1) [OF e(1)] e(2) by simp
      ultimately have "g = fp" using g fp by (rule inj_onD)
      then show False using e zero by (auto simp: old_entry_def D Let_def split: if_splits)
    qed
    moreover have "?pk \<in> kept_pks st ?fps" using fp sl by (simp add: kept_pks_def)
    then have "?pk \<notin> di_BtcPk ` set (concat (map (new_entry x b st ds) pks))"
      using entry_keys(2) [OF fps facts, of ?pk] new_keys [OF fps facts] by blast
    ultimately have "?pk \<notin> di_BtcPk ` set (dc_FinalityProviders newDc)" by (simp add: new image_Un del: set_concat)
    then show ?thesis using zero by (simp add: sats_of_none)
  qed
qed

lemma new_sats:
  assumes fps: "fps_inv b" and inv: "dc_inv dc" and facts: "cache_facts x b dc evs newDc st ds pks"
    and out: "pk \<notin> di_BtcPk ` set (dc_FinalityProviders dc)"
  shows "sats_of newDc pk = (if slashed_now b dc evs pk then 0 else word_of_int (events_delta x b pk evs)) \<and>
    (\<not> slashed_now b dc evs pk \<longrightarrow> delta_fits (word_of_int (events_delta x b pk evs)) 0)"
proof -
  let ?D = "st_DeltaSatsByFpBtcPk st" and ?fps = "dc_FinalityProviders dc"
  let ?A = "concat (map (old_entry st ?D) ?fps)" and ?B = "concat (map (new_entry x b st ds) pks)"
  let ?w = "word_of_int (events_delta x b pk evs) :: u64"
  note keys = entry_keys [OF fps facts]
  have kept: "pk \<notin> kept_pks st ?fps" using out by (simp add: kept_pks_def)
  have D: "delta_of ?D pk = ?w" and new: "dc_FinalityProviders newDc = ?A @ ?B"
    and ds: "ds = filter (\<lambda>e. fst e \<notin> kept_pks st ?fps) ?D"
    and spks: "set pks = {pk \<in> fst ` set ds. SlashedFp pk \<notin> set evs}"
    using facts by (simp_all add: cache_facts_def)
  have dpk: "delta_of ds pk = ?w" using delta_of_filter [of "\<lambda>q. q \<notin> kept_pks st ?fps" pk ?D] kept D by (simp add: ds)
  have nA: "pk \<notin> di_BtcPk ` set ?A" using old_keys [OF fps facts, of ?D] kept by blast
  show ?thesis
  proof (cases "pk \<in> set pks")
    case False
    have z: "delta_of ds pk = 0 \<or> SlashedFp pk \<in> set evs"
      using False by (auto simp: spks delta_of_def kv_get_None [symmetric])
    have "pk \<notin> di_BtcPk ` set ?B" using new_keys [OF fps facts] False by blast
    then have "sats_of newDc pk = 0" using nA by (intro sats_of_none) (simp add: new image_Un del: set_concat)
    then show ?thesis using z by (auto simp: dpk slashed_now_def delta_fits_def)
  next
    case True
    have "\<forall>pk\<in>set pks. \<exists>fp c. loadFP b Map.empty pk = Inr (fp, c) \<and>
        (\<not> IsSlashed fp \<longrightarrow> delta_fits (delta_of ds pk) 0 \<and> (\<exists>di. NewFinalityProviderDistInfo x fp = Inr di))"
      using facts unfolding cache_facts_def by (elim conjE)
    from bspec [OF this True] obtain fp c where load: "loadFP b Map.empty pk = Inr (fp, c)"
      and fit: "\<not> IsSlashed fp \<Longrightarrow> delta_fits ?w 0 \<and> (\<exists>di. NewFinalityProviderDistInfo x fp = Inr di)"
      unfolding dpk by blast
    have pk: "lower pk" "SlashedFp pk \<notin> set evs" using keys(2) [OF True] by auto
    have sl: "slashed_now b dc evs pk \<longleftrightarrow> IsSlashed fp"
      using loaded_key [OF fps pk(1) load] out pk(2) by (simp add: slashed_now_def)
    have entry: "new_entry x b st ds pk = (if IsSlashed fp \<or> ?w = 0 then []
        else [(jail_as (st_FPStatesByBtcPk st pk) (projr (NewFinalityProviderDistInfo x fp)))\<lparr>di_TotalBondedSat := ?w\<rparr>])"
      using fit by (cases "NewFinalityProviderDistInfo x fp") (auto simp: new_entry_def load dpk)
    have "sats_of newDc pk = (if IsSlashed fp then 0 else ?w)"
    proof (cases "new_entry x b st ds pk")
      case Nil
      have "pk \<notin> di_BtcPk ` set ?B"
      proof
        assume "pk \<in> di_BtcPk ` set ?B"
        then obtain e q where "q \<in> set pks" "e \<in> set (new_entry x b st ds q)" "di_BtcPk e = pk" by auto
        moreover from this have "q = pk" using new_entry_key [OF fps, of q e] keys(2) [of q] by auto
        ultimately show False using Nil by simp
      qed
      then have "sats_of newDc pk = 0" using nA by (intro sats_of_none) (simp add: new image_Un del: set_concat)
      then show ?thesis using Nil entry by (auto split: if_splits)
    next
      case (Cons e es)
      then have e: "e \<in> set (new_entry x b st ds pk)" by simp
      then have "e \<in> set (dc_FinalityProviders newDc)" using True by (auto simp: new)
      moreover have "di_BtcPk e = pk" "di_TotalBondedSat e = ?w"
        using new_entry_key [OF fps pk(1) e] dpk by auto
      ultimately have "sats_of newDc pk = ?w"
        using sats_of_entry [of newDc e] new_cache_inv [OF fps inv facts] by (simp add: dc_inv_def)
      then show ?thesis using Cons entry by (auto split: if_splits)
    qed
    then show ?thesis using fit by (simp add: sl)
  qed
qed

lemma conserved_sats:
  assumes fps: "fps_inv b" and inv: "dc_inv dc" and facts: "cache_facts x b dc evs newDc st ds pks"
    and b: "in_bounds x b dc evs pk"
  shows "uint (sats_of newDc pk) =
    (if slashed_now b dc evs pk then 0 else uint (sats_of dc pk) + events_delta x b pk evs)"
proof (cases "pk \<in> di_BtcPk ` set (dc_FinalityProviders dc)")
  case False
  note new = new_sats [OF fps inv facts False]
  have none: "sats_of dc pk = 0" using False by (rule sats_of_none)
  show ?thesis
  proof (cases "slashed_now b dc evs pk")
    case True
    then show ?thesis using new by simp
  next
    case ns: False
    then have "uint (0 + word_of_int (events_delta x b pk evs) :: u64) = uint (0 :: u64) + events_delta x b pk evs"
      using b new by (intro delta_exact) (auto simp: in_bounds_def none)
    then show ?thesis using ns new by (simp add: none)
  qed
next
  case True
  then obtain fp where fp: "fp \<in> set (dc_FinalityProviders dc)" "di_BtcPk fp = pk" by auto
  have old: "sats_of dc pk = di_TotalBondedSat fp" using sats_of_entry [of dc fp] fp inv by (simp add: dc_inv_def)
  show ?thesis
  proof (cases "SlashedFp pk \<in> set evs")
    case sl: True
    then have "pk \<notin> kept_pks st (dc_FinalityProviders dc)" "pk \<notin> set pks"
      using facts by (auto simp: kept_pks_def cache_facts_def)
    then have "pk \<notin> di_BtcPk ` set (dc_FinalityProviders newDc)"
      using old_keys [OF fps facts, of "st_DeltaSatsByFpBtcPk st"] new_keys [OF fps facts] facts
      unfolding cache_facts_def by (auto simp: image_Un simp del: set_concat)
    then show ?thesis using sl by (simp add: sats_of_none slashed_now_def)
  next
    case ns: False
    have "delta_fits (word_of_int (events_delta x b pk evs)) (di_TotalBondedSat fp)"
      using facts fp ns by (auto simp: cache_facts_def)
    then have "uint (di_TotalBondedSat fp + word_of_int (events_delta x b pk evs)) =
        uint (di_TotalBondedSat fp) + events_delta x b pk evs"
      using b by (intro delta_exact) (simp_all add: in_bounds_def old)
    then show ?thesis using old_sats [OF fps inv facts fp(1)] ns True by (simp add: fp(2) old slashed_now_def)
  qed
qed

text \<open>C6. The new cache refines the specification: for every provider whose sums stay within 64 bits,
  its satoshis in the new cache are exactly those in the previous cache plus what the events of the
  BTC heights in the range add up to, and none when it is slashed; and the new cache again has one
  entry per provider, each with stake and not slashed.\<close>

theorem power_dist_conserves:
  assumes "staked_keys_ok b" "fps_inv b" "dc_inv dc"
    and "ProcessAllPowerDistUpdateEvents x b dc lo hi = Inr (newDc, out)"
    and "evs = GetAllPowerDistUpdateEvents b lo hi"
  shows "dc_inv newDc \<and> (\<forall>pk. in_bounds x b dc evs pk \<longrightarrow> uint (sats_of newDc pk) =
    (if slashed_now b dc evs pk then 0 else uint (sats_of dc pk) + events_delta x b pk evs))"
proof -
  obtain st ds pks where facts: "cache_facts x b dc evs newDc st ds pks"
    using new_cache_entries [OF assms(1,3,4,5)] by blast
  then show ?thesis using new_cache_inv [OF assms(2,3)] conserved_sats [OF assms(2,3)] by blast
qed

text \<open>Two providers; the cache has the first one. A delegation to both is activated and the second
  provider is slashed.\<close>

abbreviation pkA :: btcpk where "pkA \<equiv> sample_pk CHR ''a''"
abbreviation pkB :: btcpk where "pkB \<equiv> sample_pk CHR ''b''"

definition staked_bs :: bs_state where
  "staked_bs = empty_bs\<lparr>bs_fps := [(pkA, sample_fp pkA), (pkB, sample_fp pkB)],
     bs_delegations := [(''tx'', sample_del\<lparr>bd_FpBtcPkList := [pkA, pkB]\<rparr>)],
     bs_events := [((100, 0), BtcDelStateUpdate ''tx'' ACTIVE), ((100, 1), SlashedFp pkB)]\<rparr>"

lemma staked_bs_fps: "fps_inv staked_bs"
proof -
  have "pkA < pkB" by code_simp
  then show ?thesis by (auto simp: fps_inv_def staked_bs_def kv_wf_Cons sample_fp_def split: if_splits)
qed

theorem power_dist_conserves_witness:
  "\<exists>newDc out. ProcessAllPowerDistUpdateEvents sample_ext staked_bs (sample_dc [sample_di pkA 300] 1) 99 100 =
      Inr (newDc, out) \<and> dc_inv newDc \<and> uint (sats_of newDc pkA) = 800 \<and> uint (sats_of newDc pkB) = 0"
proof -
  let ?dc = "sample_dc [sample_di pkA 300] 1"
  let ?r = "ProcessAllPowerDistUpdateEvents sample_ext staked_bs ?dc 99 100"
  let ?evs = "GetAllPowerDistUpdateEvents staked_bs 99 100"
  have "case ?r of Inl _ \<Rightarrow> False | Inr _ \<Rightarrow> True" by code_simp
  then obtain newDc out where r: "?r = Inr (newDc, out)" by (cases ?r) auto
  have "staked_keys_ok staked_bs" "dc_inv ?dc" by code_simp+
  note new = power_dist_conserves [OF this(1) staked_bs_fps this(2) r refl]
  have evs: "events_delta sample_ext staked_bs pkA ?evs = 500" "events_delta sample_ext staked_bs pkB ?evs = 500"
    "slashed_now staked_bs ?dc ?evs pkB" "\<not> slashed_now staked_bs ?dc ?evs pkA"
    "sats_of ?dc pkA = 300" "sats_of ?dc pkB = 0"
    by code_simp+
  then have "in_bounds sample_ext staked_bs ?dc ?evs pkA" "in_bounds sample_ext staked_bs ?dc ?evs pkB"
    by (simp_all add: in_bounds_def)
  then show ?thesis using new r evs by auto
qed

end
