(* ===== verification/Begin_Block.thy ===== *)
theory Begin_Block
  imports Power_Dist_Refinement
begin

text \<open>
  The beginning of a block as a whole: what \<open>UpdatePowerDist\<close> leaves in the stores. The recorded voting
  power table is the active set of the recorded cache, and the consumed events are gone.
\<close>

subsection \<open>Recording\<close>

lemma GetVotingPower_set:
  "GetVotingPower (SetVotingPower k h v f) pk h' = (if pk = k \<and> h' = h then v else GetVotingPower f pk h')"
  by (simp add: GetVotingPower_def SetVotingPower_def)

lemma foldl_SetVotingPower:
  assumes "distinct (map di_BtcPk fps)"
  shows "GetVotingPower (foldl (\<lambda>f fp. SetVotingPower (di_BtcPk fp) h (di_TotalBondedSat fp) f) f fps) pk h' =
    (case find (\<lambda>fp. di_BtcPk fp = pk) fps of
       Some fp \<Rightarrow> if h' = h then di_TotalBondedSat fp else GetVotingPower f pk h'
     | None \<Rightarrow> GetVotingPower f pk h')"
  using assms
proof (induction fps arbitrary: f)
  case (Cons fp fps)
  have "find (\<lambda>g. di_BtcPk g = pk) fps = None" if "di_BtcPk fp = pk"
    using Cons.prems that by (force simp: find_None_iff image_iff)
  then show ?case using Cons by (auto simp: GetVotingPower_set split: option.splits)
qed simp

lemma foldl_SetVotingPower_rest:
  "fs_params (foldl (\<lambda>f fp. SetVotingPower (di_BtcPk fp) h (di_TotalBondedSat fp) f) f fps) = fs_params f"
  "fs_vp_dist_cache (foldl (\<lambda>f fp. SetVotingPower (di_BtcPk fp) h (di_TotalBondedSat fp) f) f fps) = fs_vp_dist_cache f"
  by (induction fps arbitrary: f) (simp_all add: SetVotingPower_def)

text \<open>The labels of \<open>RecordVotingPowerAndCache\<close>.\<close>

definition labelled :: "ctx \<Rightarrow> fin_state \<Rightarrow> VotingPowerDistCache \<Rightarrow> VotingPowerDistCache" where
  "labelled c f dc = dc\<lparr>dc_FinalityProviders := map (\<lambda>fp.
     fp\<lparr>di_IsTimestamped := HasTimestampedPubRand c f (di_BtcPk fp) (cx_height c)\<rparr>) (dc_FinalityProviders dc)\<rparr>"

lemma labelled_pks: "map di_BtcPk (dc_FinalityProviders (labelled c f dc)) = map di_BtcPk (dc_FinalityProviders dc)"
  by (simp add: labelled_def)

lemma Record_eq:
  fixes c :: ctx and f :: fin_state
  assumes "distinct (map di_BtcPk (dc_FinalityProviders dc))"
  defines "dc' \<equiv> ApplyActiveFinalityProviders (fpar_MaxActiveFinalityProviders (fin_GetParams f)) (labelled c f dc)"
  shows "RecordVotingPowerAndCache c (Some dc) f =
    Inr (SetVotingPowerDistCache (cx_height c) dc'
      (foldl (\<lambda>f fp. SetVotingPower (di_BtcPk fp) (cx_height c) (di_TotalBondedSat fp) f) f (active_fps dc')), dc')"
proof -
  have "dc_wf dc'" unfolding dc'_def by (rule ApplyActive_wf) (simp only: labelled_pks assms(1))
  then show ?thesis
    by (simp add: RecordVotingPowerAndCache_def labelled_def [symmetric] dc'_def Let_def slice_to_def
      dc_wf_def active_fps_def)
qed

lemma sats_of_same:
  assumes "distinct (map di_BtcPk (dc_FinalityProviders dc))" "distinct (map di_BtcPk (dc_FinalityProviders dc'))"
    and same: "(\<lambda>fp. (di_BtcPk fp, di_TotalBondedSat fp)) ` set (dc_FinalityProviders dc) =
      (\<lambda>fp. (di_BtcPk fp, di_TotalBondedSat fp)) ` set (dc_FinalityProviders dc')"
  shows "sats_of dc pk = sats_of dc' pk"
proof (cases "pk \<in> di_BtcPk ` set (dc_FinalityProviders dc)")
  case True
  then obtain fp where fp: "fp \<in> set (dc_FinalityProviders dc)" "di_BtcPk fp = pk" by auto
  then have "(pk, di_TotalBondedSat fp) \<in> (\<lambda>fp. (di_BtcPk fp, di_TotalBondedSat fp)) ` set (dc_FinalityProviders dc')"
    unfolding same [symmetric] by auto
  then obtain g where g: "g \<in> set (dc_FinalityProviders dc')" "di_BtcPk g = pk" "di_TotalBondedSat g = di_TotalBondedSat fp"
    by auto
  show ?thesis using sats_of_entry [OF assms(1) fp(1)] sats_of_entry [OF assms(2) g(1)] fp(2) g(2,3) by simp
next
  case False
  moreover have "di_BtcPk ` set (dc_FinalityProviders dc) = di_BtcPk ` set (dc_FinalityProviders dc')"
    using arg_cong [OF same, of "image fst"] by (simp add: image_image)
  ultimately show ?thesis by (simp add: sats_of_none)
qed

text \<open>The recorded table is the active set of the recorded cache, whose providers and amounts are
  those of the given one.\<close>

lemma Record_table:
  assumes inv: "dc_inv dc" and empty: "\<And>pk. GetVotingPower f pk (cx_height c) = 0"
    and run: "RecordVotingPowerAndCache c (Some dc) f = Inr (f', dc')"
  shows "dc_inv dc' \<and> dc_wf dc' \<and> sats_of dc' pk = sats_of dc pk \<and>
    fs_vp_dist_cache f' (cx_height c) = Some dc' \<and>
    GetVotingPower f' pk (cx_height c) = (if pk \<in> active_pks dc' then sats_of dc' pk else 0)"
proof -
  let ?l = "labelled c f dc" and ?mx = "fpar_MaxActiveFinalityProviders (fin_GetParams f)" and ?h = "cx_height c"
  have dist: "distinct (map di_BtcPk (dc_FinalityProviders dc))" using inv by (simp add: dc_inv_def)
  have dc': "dc' = ApplyActiveFinalityProviders ?mx ?l"
    and f': "f' = SetVotingPowerDistCache ?h dc'
      (foldl (\<lambda>f fp. SetVotingPower (di_BtcPk fp) ?h (di_TotalBondedSat fp) f) f (active_fps dc'))"
    using run unfolding Record_eq [OF dist] by auto
  have wf: "dc_wf dc'" unfolding dc' by (rule ApplyActive_wf) (simp only: labelled_pks dist)
  then have dist': "distinct (map di_BtcPk (dc_FinalityProviders dc'))" by (simp add: dc_wf_def)
  have "mset (dc_FinalityProviders dc') = mset (dc_FinalityProviders ?l)"
    unfolding dc' by (rule ApplyActive_eq [THEN conjunct2, THEN conjunct2, THEN conjunct2, THEN conjunct1])
  then have set': "set (dc_FinalityProviders dc') = set (dc_FinalityProviders ?l)" by (rule mset_eq_setD)
  have "dc_inv dc'" using inv dist' by (auto simp: dc_inv_def list_all_iff set' labelled_def)
  moreover have "sats_of dc' pk = sats_of dc pk"
    by (rule sats_of_same [OF dist' dist]) (simp add: set' labelled_def image_image)
  moreover have "GetVotingPower f' pk ?h = (if pk \<in> active_pks dc' then sats_of dc' pk else 0)"
  proof -
    have "distinct (map di_BtcPk (active_fps dc'))"
      using dist' unfolding active_fps_def take_map [symmetric] by (rule distinct_take)
    then have eq: "GetVotingPower f' pk ?h = (case find (\<lambda>fp. di_BtcPk fp = pk) (active_fps dc') of
        Some fp \<Rightarrow> di_TotalBondedSat fp | None \<Rightarrow> 0)"
      using foldl_SetVotingPower [of "active_fps dc'" ?h f pk ?h] empty
      by (simp add: f' GetVotingPower_def SetVotingPowerDistCache_def split: option.splits)
    show ?thesis
    proof (cases "find (\<lambda>fp. di_BtcPk fp = pk) (active_fps dc')")
      case None
      then have "pk \<notin> active_pks dc'" by (auto simp: active_pks_def find_None_iff)
      then show ?thesis using eq None by simp
    next
      case (Some fp)
      then have fp: "fp \<in> set (active_fps dc')" "di_BtcPk fp = pk" by (auto simp: find_Some_iff)
      then have "fp \<in> set (dc_FinalityProviders dc')" unfolding active_fps_def by (blast dest: in_set_takeD)
      from sats_of_entry [OF dist' this] have "sats_of dc' pk = di_TotalBondedSat fp" by (simp add: fp(2))
      moreover have "pk \<in> active_pks dc'" unfolding active_pks_def using fp by auto
      ultimately show ?thesis using eq Some by simp
    qed
  qed
  ultimately show ?thesis using wf by (simp add: f' SetVotingPowerDistCache_def)
qed

subsection \<open>Hooks and status changes\<close>

text \<open>What the hooks and the status changes leave alone: the staking module, and everything of the
  finality module but the signing infos.\<close>

definition same_stores :: "'h world \<Rightarrow> 'h world \<Rightarrow> bool" where
  "same_stores w w' \<longleftrightarrow> w_bs w' = w_bs w \<and> (\<exists>t. w_fin w' = (w_fin w)\<lparr>fs_signing_tracker := t\<rparr>)"

lemma same_stores_refl: "same_stores w w"
  by (auto simp: same_stores_def intro!: exI [of _ "fs_signing_tracker (w_fin w)"])

lemma same_stores_trans: "same_stores w w1 \<Longrightarrow> same_stores w1 w2 \<Longrightarrow> same_stores w w2"
  by (auto simp: same_stores_def)

lemma call_hook_stores: "call_hook hk w = Inr w' \<Longrightarrow> same_stores w w'"
  using same_stores_refl [of w] by (auto simp: call_hook_def bindR_eq_Inr same_stores_def)

lemma processActiveFp_stores: "processActiveFp en c fp hk w = Inr w' \<Longrightarrow> same_stores w w'"
  by (auto simp: processActiveFp_def Let_def HandleActivatedFinalityProvider_def same_stores_def
    call_hook_def bindR_eq_Inr split: if_splits)

lemma processInactiveFp_stores: "processInactiveFp en st fp hk w = Inr w' \<Longrightarrow> same_stores w w'"
  using same_stores_refl [of w]
  by (auto simp: processInactiveFp_def bindR_eq_Inr same_stores_def call_hook_def split: if_splits)

lemma foldR_stores:
  assumes "\<And>w x w'. f w x = Inr w' \<Longrightarrow> same_stores w w'" "foldR f w xs = Inr w'"
  shows "same_stores w w'"
  by (rule foldR_invariant [OF assms(2), of "same_stores w"])
    (auto intro: same_stores_refl same_stores_trans assms(1))

lemma HandleFPStateUpdates_stores:
  assumes "HandleFPStateUpdates en c st prev new hk w = Inr w'"
  shows "same_stores w w'"
proof -
  obtain act inact w1 where "foldR (\<lambda>w fp. processActiveFp en c fp hk w) w act = Inr w1"
    "foldR (\<lambda>w fp. processInactiveFp en st fp hk w) w1 inact = Inr w'"
    using assms by (auto simp: HandleFPStateUpdates_def bindR_eq_Inr)
  then have "same_stores w w1" "same_stores w1 w'"
    by (auto intro: foldR_stores processActiveFp_stores processInactiveFp_stores)
  then show ?thesis by (rule same_stores_trans)
qed

subsection \<open>The whole update\<close>

lemma events_at_clear_all:
  "events_at (foldl (\<lambda>b i. ClearPowerDistUpdateEvents i b) b hs) h =
     (if h \<in> set hs then [] else events_at b h)"
  by (induction hs arbitrary: b)
    (auto simp: events_at_def PowerDistUpdateEventBtcHeightStoreIterator_def kv_sub_clear)

lemma fps_clear_all: "bs_fps (foldl (\<lambda>b i. ClearPowerDistUpdateEvents i b) b hs) = bs_fps b"
  by (induction hs arbitrary: b) (simp_all add: ClearPowerDistUpdateEvents_def Let_def)

abbreviation prev_cache :: "ctx \<Rightarrow> 'h world \<Rightarrow> VotingPowerDistCache" where
  "prev_cache c w \<equiv> (case GetVotingPowerDistCache (w_fin w) (cx_height c - 1) of
     None \<Rightarrow> NewVotingPowerDistCache | Some dc \<Rightarrow> dc)"

lemma UpdatePowerDist_cases:
  assumes "UpdatePowerDist x en c w = Inr w'"
    and "GetCurrentBTCHeight c (w_bs w) = Inr cur" "GetBTCHeightAtBabylonHeight c (w_bs w) (cx_height c - 1) = Inr prev"
  shows "\<exists>newDc out f1 dc1. ProcessAllPowerDistUpdateEvents x (w_bs w) (prev_cache c w) prev cur = Inr (newDc, out) \<and>
    RecordVotingPowerAndCache c (Some newDc) (w_fin w) = Inr (f1, dc1) \<and>
    (\<exists>t. w_fin w' = f1\<lparr>fs_signing_tracker := t\<rparr>) \<and>
    w_bs w' = foldl (\<lambda>b i. ClearPowerDistUpdateEvents i b) (w_bs w) (heights_upto prev cur)"
proof -
  obtain newDc state evs f1 dc1 state1 e1 w1 where
    p: "ProcessAllPowerDistUpdateEvents x (w_bs w) (prev_cache c w) prev cur = Inr (newDc, state, evs)" and
    r: "RecordVotingPowerAndCache c (Some newDc) (w_fin w) = Inr (f1, dc1)" and
    h: "HandleFPStateUpdates en c state1 (prev_cache c w) dc1 True
       (w\<lparr>w_fin := f1, w_ext := e1, w_events := w_events w @ evs\<rparr>) = Inr w1" and
    w': "w' = w1\<lparr>w_bs := foldl (\<lambda>b i. ClearPowerDistUpdateEvents i b) (w_bs w1) (heights_upto prev cur)\<rparr>"
    using assms by (auto simp: UpdatePowerDist_def Let_def bindR_eq_Inr)
  from HandleFPStateUpdates_stores [OF h] p r w' show ?thesis by (auto simp: same_stores_def)
qed

text \<open>C15. After \<open>UpdatePowerDist\<close>: the cache of the height holds for every provider its previous
  satoshis plus what the events in the range of BTC heights add (nothing when slashed), the voting
  power table of the height is the active set of that cache with these satoshis, and the events in the
  range are consumed while the others stay.\<close>

theorem update_power_dist:
  assumes run: "UpdatePowerDist x en c w = Inr w'"
    and heights: "GetCurrentBTCHeight c (w_bs w) = Inr cur"
      "GetBTCHeightAtBabylonHeight c (w_bs w) (cx_height c - 1) = Inr prev"
    and wf: "staked_keys_ok (w_bs w)" "fps_inv (w_bs w)" "dc_inv (prev_cache c w)"
    and fresh: "\<And>pk. GetVotingPower (w_fin w) pk (cx_height c) = 0"
    and evs: "evs = GetAllPowerDistUpdateEvents (w_bs w) prev cur"
  shows "\<exists>dc. fs_vp_dist_cache (w_fin w') (cx_height c) = Some dc \<and> dc_inv dc \<and> dc_wf dc \<and>
    (\<forall>pk. in_bounds x (w_bs w) (prev_cache c w) evs pk \<longrightarrow> uint (sats_of dc pk) =
       (if slashed_now (w_bs w) (prev_cache c w) evs pk then 0
        else uint (sats_of (prev_cache c w) pk) + events_delta x (w_bs w) pk evs)) \<and>
    (\<forall>pk. GetVotingPower (w_fin w') pk (cx_height c) = (if pk \<in> active_pks dc then sats_of dc pk else 0)) \<and>
    (\<forall>h. events_at (w_bs w') h = (if prev \<le> h \<and> h \<le> cur then [] else events_at (w_bs w) h)) \<and>
    fps_inv (w_bs w')"
proof -
  obtain newDc out f1 dc1 t where
    p: "ProcessAllPowerDistUpdateEvents x (w_bs w) (prev_cache c w) prev cur = Inr (newDc, out)" and
    r: "RecordVotingPowerAndCache c (Some newDc) (w_fin w) = Inr (f1, dc1)" and
    f: "w_fin w' = f1\<lparr>fs_signing_tracker := t\<rparr>" and
    b: "w_bs w' = foldl (\<lambda>b i. ClearPowerDistUpdateEvents i b) (w_bs w) (heights_upto prev cur)"
    using UpdatePowerDist_cases [OF run heights] by (elim exE conjE) (rule that)
  obtain st ds pks where facts: "cache_facts x (w_bs w) (prev_cache c w) evs newDc st ds pks"
    using new_cache_entries [OF wf(1,3) p evs] by (elim exE) (rule that)
  have inv: "dc_inv newDc" by (rule new_cache_inv [OF wf(2,3) facts])
  note rec = Record_table [OF inv fresh r]
  have cache: "fs_vp_dist_cache (w_fin w') (cx_height c) = Some dc1"
    and vp: "GetVotingPower (w_fin w') pk (cx_height c) = GetVotingPower f1 pk (cx_height c)" for pk
    using rec by (simp_all add: f GetVotingPower_def)
  have fps: "fps_inv (w_bs w')" using wf(2) by (simp add: fps_inv_def b fps_clear_all)
  have cleared: "events_at (w_bs w') h = (if prev \<le> h \<and> h \<le> cur then [] else events_at (w_bs w) h)" for h
    by (simp add: b events_at_clear_all)
  have sats: "uint (sats_of dc1 pk) = (if slashed_now (w_bs w) (prev_cache c w) evs pk then 0
      else uint (sats_of (prev_cache c w) pk) + events_delta x (w_bs w) pk evs)"
    if "in_bounds x (w_bs w) (prev_cache c w) evs pk" for pk
    using conserved_sats [OF wf(2,3) facts that] rec by simp
  have "GetVotingPower (w_fin w') pk (cx_height c) = (if pk \<in> active_pks dc1 then sats_of dc1 pk else 0)" for pk
    using rec [of pk] vp by simp
  then show ?thesis using rec [THEN conjunct1] rec [THEN conjunct2, THEN conjunct1] cache fps cleared sats
    by (intro exI [of _ dc1] conjI allI impI)
qed

text \<open>Block 10, with the BTC tip moved from 99 to 100 since the last block.\<close>

definition sample_env :: "unit env" where
  "sample_env = \<lparr>env_AfterBtcDelegationUnbonded = (\<lambda>_ _ _ _ _ _. Inr ()),
     env_AfterBtcDelegationActivated = (\<lambda>_ _ _ _ _ _. Inr ()),
     env_AfterBbnFpEntersActiveSet = (\<lambda>_ _. Inr ()), env_AfterBbnFpRemovedFromActiveSet = (\<lambda>_ _. Inr ()),
     env_BtcDelegationActivated = (\<lambda>_ _ _ _. Inr ()), env_BtcDelegationUnbonded = (\<lambda>_ _ _ _. Inr ()),
     env_RewardBTCStaking = (\<lambda>_ _ _ _. ()), env_IndexRefundableMsg = (\<lambda>_. ())\<rparr>"

definition begin_world :: "unit world" where
  "begin_world = \<lparr>w_bs = staked_bs\<lparr>bs_btc_height := [9 \<mapsto> 99, 10 \<mapsto> 100]\<rparr>,
     w_fin = (committed_fin pkA)\<lparr>fs_vp_dist_cache := [9 \<mapsto> sample_dc [sample_di pkA 300] 1]\<rparr>,
     w_ext = (), w_events = []\<rparr>"

theorem update_power_dist_witness:
  "\<exists>w'. UpdatePowerDist sample_ext sample_env (sample_ctx 10) begin_world = Inr w' \<and>
     uint (GetVotingPower (w_fin w') pkA 10) = 800 \<and> GetVotingPower (w_fin w') pkB 10 = 0 \<and>
     events_at (w_bs w') 100 = []"
proof -
  let ?c = "sample_ctx 10" and ?b = "w_bs begin_world"
  let ?r = "UpdatePowerDist sample_ext sample_env ?c begin_world"
  let ?evs = "GetAllPowerDistUpdateEvents ?b 99 100"
  have "case ?r of Inl _ \<Rightarrow> False | Inr w' \<Rightarrow> GetVotingPower (w_fin w') pkA 10 \<noteq> 0" by code_simp
  then obtain w' where r: "?r = Inr w'" and pos: "GetVotingPower (w_fin w') pkA 10 \<noteq> 0" by (cases ?r) auto
  have h: "cx_height ?c = 10" by (simp add: cx_height_def sample_ctx_def)
  have hs: "GetCurrentBTCHeight ?c ?b = Inr 100" "GetBTCHeightAtBabylonHeight ?c ?b (cx_height ?c - 1) = Inr 99"
    "staked_keys_ok ?b" "dc_inv (prev_cache ?c begin_world)"
    by code_simp+
  have fps: "fps_inv ?b" using staked_bs_fps by (simp add: begin_world_def fps_inv_def)
  have fresh: "GetVotingPower (w_fin begin_world) pk (cx_height ?c) = 0" for pk
    by (simp add: begin_world_def committed_fin_def empty_fin_def GetVotingPower_def)
  have d: "events_delta sample_ext ?b pkA ?evs = 500" "events_delta sample_ext ?b pkB ?evs = 500"
    "slashed_now ?b (prev_cache ?c begin_world) ?evs pkB" "\<not> slashed_now ?b (prev_cache ?c begin_world) ?evs pkA"
    "sats_of (prev_cache ?c begin_world) pkA = 300" "sats_of (prev_cache ?c begin_world) pkB = 0"
    by code_simp+
  then have bnd: "in_bounds sample_ext ?b (prev_cache ?c begin_world) ?evs pkA"
    "in_bounds sample_ext ?b (prev_cache ?c begin_world) ?evs pkB"
    by (simp_all add: in_bounds_def)
  obtain dc where
    sats: "\<forall>pk. in_bounds sample_ext ?b (prev_cache ?c begin_world) ?evs pk \<longrightarrow> uint (sats_of dc pk) =
       (if slashed_now ?b (prev_cache ?c begin_world) ?evs pk then 0
        else uint (sats_of (prev_cache ?c begin_world) pk) + events_delta sample_ext ?b pk ?evs)" and
    vp: "\<forall>pk. GetVotingPower (w_fin w') pk (cx_height ?c) = (if pk \<in> active_pks dc then sats_of dc pk else 0)" and
    ev: "\<forall>h. events_at (w_bs w') h = (if 99 \<le> h \<and> h \<le> 100 then [] else events_at ?b h)"
    using update_power_dist [OF r hs(1,2,3) fps hs(4) fresh refl] by (elim exE conjE) (rule that)
  have "uint (sats_of dc pkA) = 800" "sats_of dc pkB = 0"
    using sats [rule_format, OF bnd(1)] sats [rule_format, OF bnd(2)] d by (simp_all add: uint_0_iff)
  then have "uint (GetVotingPower (w_fin w') pkA 10) = 800" "GetVotingPower (w_fin w') pkB 10 = 0"
    using vp [rule_format, of pkA] vp [rule_format, of pkB] pos unfolding h by (auto split: if_splits)
  then show ?thesis using r ev by auto
qed

end
