(* ===== verification/Tallying.thy ===== *)
theory Tallying
  imports Begin_Block
begin

text \<open>
  Finalisation of blocks (\<open>keeper/tallying.go\<close>). The loop of \<open>TallyBlocks\<close> walks from the
  next height to finalise, finalises each block whose voters hold more than two thirds of the
  voting power, skips blocks without voting power and stops at the first block without a quorum.
  The locale \<open>weighted_quorum\<close> is the theory of two-thirds quorums; it is interpreted on the voting
  power table of a height.
\<close>

subsection \<open>Operations\<close>

definition getNextHeightToFinalize :: "fin_state \<Rightarrow> u64" where
  "getNextHeightToFinalize f = (case fs_next_height_to_finalize f of None \<Rightarrow> 0 | Some h \<Rightarrow> h)"

definition setNextHeightToFinalize :: "u64 \<Rightarrow> fin_state \<Rightarrow> fin_state" where
  "setNextHeightToFinalize h f = f\<lparr>fs_next_height_to_finalize := Some h\<rparr>"

text \<open>The order in which Go visits the map does not matter to the two sums.\<close>

definition tally :: "(btcpk, u64) kv \<Rightarrow> btcpk set \<Rightarrow> bool" where
  "tally fpSet voterBTCPKs =
     (let (totalPower, votedPower) = foldl (\<lambda>(t, v) (pk, p).
            (t + p, if pk \<in> voterBTCPKs then v + p else v)) (0, 0) fpSet
      in votedPower * 3 > totalPower * 2)"

definition finalizeBlock :: "IndexedBlock \<Rightarrow> fin_state \<Rightarrow> fin_state" where
  "finalizeBlock block f =
     setNextHeightToFinalize (ib_Height block + 1) (SetBlock (block\<lparr>ib_Finalized := True\<rparr>) f)"

text \<open>The loop \<open>finalizationLoop\<close>, over the heights that are left.\<close>

fun tally_loop :: "u64 list \<Rightarrow> fin_state \<Rightarrow> fin_state result" where
  "tally_loop [] f = Inr f"
| "tally_loop (i # is) f =
     bindR (panic_on_error (GetBlock f i)) (\<lambda>ib.
     bindR (GetVotingPowerTable f (ib_Height ib)) (\<lambda>fpSet.
     case fpSet of
       Some fps \<Rightarrow>
         if \<not> ib_Finalized ib
         then bindR (GetVoters f (ib_Height ib)) (\<lambda>voterBTCPKs.
              if tally fps voterBTCPKs then tally_loop is (finalizeBlock ib f) else Inr f)
         else Inl (Panic ''block is finalized, but last finalized height does not reach here'')
     | None \<Rightarrow>
         if \<not> ib_Finalized ib
         then tally_loop is (setNextHeightToFinalize (ib_Height ib + 1) f)
         else Inl (Panic ''block is finalized, but does not have a finality provider set'')))"

definition tally_start :: "fin_state \<Rightarrow> u64 \<Rightarrow> u64" where
  "tally_start f activatedHeight =
     (let startHeight = getNextHeightToFinalize f
      in if startHeight < activatedHeight then activatedHeight else startHeight)"

definition TallyBlocks :: "ctx \<Rightarrow> u64 \<Rightarrow> fin_state \<Rightarrow> fin_state result" where
  "TallyBlocks c maxFinalizedBlocks f =
     (case GetBTCStakingActivatedHeight f of
        Inl _ \<Rightarrow> Inl (Panic ''cannot tally a block when the BTC staking protocol has not been activated yet'')
      | Inr activatedHeight \<Rightarrow>
          let startHeight = tally_start f activatedHeight;
              currentLastBlockHeight = cx_height c;
              f1 = (if \<not> HasBlock f currentLastBlockHeight then IndexBlock c f else f);
              maxHeightToFinalize = min (startHeight + maxFinalizedBlocks - 1) currentLastBlockHeight
          in tally_loop (heights_upto startHeight maxHeightToFinalize) f1)"

subsection \<open>Quorums\<close>

text \<open>Weights of finitely many members, and sets of members with more than two thirds of the
  weight.\<close>

locale weighted_quorum =
  fixes members :: "'a set" and weight :: "'a \<Rightarrow> nat"
  assumes finite_members: "finite members"
begin

definition weight_of :: "'a set \<Rightarrow> nat" where
  "weight_of A = (\<Sum>a\<in>A \<inter> members. weight a)"

definition is_quorum :: "'a set \<Rightarrow> bool" where
  "is_quorum A \<longleftrightarrow> 3 * weight_of A > 2 * weight_of members"

lemma weight_of_Un_Int: "weight_of (A \<union> B) + weight_of (A \<inter> B) = weight_of A + weight_of B"
proof -
  have "(A \<union> B) \<inter> members = (A \<inter> members) \<union> (B \<inter> members)"
    "(A \<inter> B) \<inter> members = (A \<inter> members) \<inter> (B \<inter> members)" by blast+
  then show ?thesis
    unfolding weight_of_def by (simp only:) (rule sum.union_inter, simp_all add: finite_members)
qed

lemma weight_of_mono: "A \<subseteq> B \<Longrightarrow> weight_of A \<le> weight_of B"
  unfolding weight_of_def by (rule sum_mono2) (auto simp: finite_members)

lemma weight_of_le: "weight_of A \<le> weight_of members"
  unfolding weight_of_def by (rule sum_mono2) (auto simp: finite_members)

text \<open>Two quorums share more than a third of the weight.\<close>

lemma quorum_intersection:
  assumes "is_quorum A" "is_quorum B"
  shows "3 * weight_of (A \<inter> B) > weight_of members"
  using assms weight_of_Un_Int [of A B] weight_of_le [of "A \<union> B"] by (simp add: is_quorum_def)

lemma quorum_mono: "is_quorum A \<Longrightarrow> A \<subseteq> B \<Longrightarrow> is_quorum B"
  using weight_of_mono [of A B] by (auto simp: is_quorum_def)

lemma quorum_member: "is_quorum A \<Longrightarrow> \<exists>a\<in>A \<inter> members. weight a > 0"
proof (rule ccontr)
  assume q: "is_quorum A" and "\<not> (\<exists>a\<in>A \<inter> members. weight a > 0)"
  then have "weight_of A = 0" by (simp add: weight_of_def)
  with q show False by (simp add: is_quorum_def)
qed

end

subsection \<open>The quorum of a height\<close>

definition table_pks :: "fin_state \<Rightarrow> u64 \<Rightarrow> btcpk set" where
  "table_pks f h = fst ` set (kv_sub h (fs_voting_power f))"

definition power_at :: "fin_state \<Rightarrow> u64 \<Rightarrow> btcpk \<Rightarrow> nat" where
  "power_at f h pk = unat (GetVotingPower f pk h)"

definition power_of :: "fin_state \<Rightarrow> u64 \<Rightarrow> btcpk set \<Rightarrow> nat" where
  "power_of f h A = (\<Sum>pk\<in>A \<inter> table_pks f h. power_at f h pk)"

definition total_power :: "fin_state \<Rightarrow> u64 \<Rightarrow> nat" where
  "total_power f h = (\<Sum>pk\<in>table_pks f h. power_at f h pk)"

definition has_quorum :: "fin_state \<Rightarrow> u64 \<Rightarrow> btcpk set \<Rightarrow> bool" where
  "has_quorum f h A \<longleftrightarrow> 3 * power_of f h A > 2 * total_power f h"

definition voters :: "fin_state \<Rightarrow> u64 \<Rightarrow> btcpk set" where
  "voters f h = {pk. HasSig f h pk}"

text \<open>Three times the power of a height fits 64 bits. All satoshis that will ever exist are less
  than \<open>2^51\<close>.\<close>

definition power_bound :: "fin_state \<Rightarrow> u64 \<Rightarrow> bool" where
  "power_bound f h \<longleftrightarrow> 3 * total_power f h < 2 ^ 64"

interpretation vq: weighted_quorum "table_pks f h" "power_at f h" for f h
  by unfold_locales (simp add: table_pks_def)

lemma vq_weight: "vq.weight_of f h A = power_of f h A"
  by (simp add: vq.weight_of_def power_of_def)

lemma vq_quorum: "vq.is_quorum f h A = has_quorum f h A"
  by (simp add: vq.is_quorum_def has_quorum_def vq_weight) (simp add: power_of_def total_power_def)

lemmas quorum_intersection = vq.quorum_intersection [unfolded vq_weight vq_quorum]
  and quorum_mono = vq.quorum_mono [unfolded vq_quorum]

lemma unat_sum_list:
  "sum_list (map unat ws) < 2 ^ LENGTH('a) \<Longrightarrow> unat (sum_list ws :: 'a::len word) = sum_list (map unat ws)"
proof (induction ws)
  case (Cons w ws)
  then have "sum_list (map unat ws) < 2 ^ LENGTH('a)" by simp
  with Cons show ?case by (simp add: unat_word_ariths)
qed simp

lemma tally_foldl:
  "foldl (\<lambda>(t, v) (pk, p). (t + p, if pk \<in> V then v + p else v)) (t, v) fps =
     (t + sum_list (map snd fps), v + sum_list (map snd (filter (\<lambda>e. fst e \<in> V) fps)) :: u64)"
  by (induction fps arbitrary: t v) (auto simp: ac_simps)

lemma sum_list_filter_le: "sum_list (map g (filter P xs)) \<le> (sum_list (map g xs) :: nat)"
  by (induction xs) auto

lemma tally_nat:
  assumes "3 * sum_list (map (\<lambda>e. unat (snd e)) fps) < 2 ^ 64"
  shows "tally fps V \<longleftrightarrow>
    3 * sum_list (map (\<lambda>e. unat (snd e)) (filter (\<lambda>e. fst e \<in> V) fps)) > 2 * sum_list (map (\<lambda>e. unat (snd e)) fps)"
proof -
  let ?T = "sum_list (map (\<lambda>e. unat (snd e)) fps)"
  let ?V = "sum_list (map (\<lambda>e. unat (snd e)) (filter (\<lambda>e. fst e \<in> V) fps))"
  have le: "?V \<le> ?T" by (rule sum_list_filter_le)
  have T: "unat (sum_list (map snd fps)) = ?T"
    using assms unat_sum_list [of "map snd fps"] by (simp add: comp_def)
  have V: "unat (sum_list (map snd (filter (\<lambda>e. fst e \<in> V) fps))) = ?V"
    using assms le unat_sum_list [of "map snd (filter (\<lambda>e. fst e \<in> V) fps)"] by (simp add: comp_def)
  have "unat (sum_list (map snd fps) * 2) = ?T * 2"
    using assms unat_mult_lem [of "sum_list (map snd fps)" 2] by (simp add: T)
  moreover have "unat (sum_list (map snd (filter (\<lambda>e. fst e \<in> V) fps)) * 3) = ?V * 3"
    using assms le unat_mult_lem [of "sum_list (map snd (filter (\<lambda>e. fst e \<in> V) fps))" 3] by (simp add: V)
  ultimately show ?thesis
    by (simp add: tally_def tally_foldl word_less_nat_alt mult.commute)
qed

lemma table_sum:
  assumes "kv_wf (fs_voting_power f)"
  shows "sum_list (map (\<lambda>e. unat (snd e)) (filter (\<lambda>e. fst e \<in> V) (kv_sub h (fs_voting_power f)))) =
    power_of f h V"
proof -
  let ?es = "kv_sub h (fs_voting_power f)"
  have wf: "kv_wf ?es" using assms by simp
  have d: "distinct (map fst (filter (\<lambda>e. fst e \<in> V) ?es))"
    using kv_wf_distinct [OF wf] by (rule distinct_map_filter)
  have pow: "power_at f h (fst e) = unat (snd e)" if "e \<in> set ?es" for e
    using that kv_entries [OF wf, of "fst e" "snd e"] by (simp add: power_at_def GetVotingPower_def)
  have "sum_list (map (\<lambda>e. unat (snd e)) (filter (\<lambda>e. fst e \<in> V) ?es)) =
      sum_list (map (power_at f h) (map fst (filter (\<lambda>e. fst e \<in> V) ?es)))"
    unfolding map_map comp_def by (intro arg_cong [of _ _ sum_list] map_cong refl) (simp add: pow)
  also have "\<dots> = (\<Sum>pk\<in>set (map fst (filter (\<lambda>e. fst e \<in> V) ?es)). power_at f h pk)"
    using d by (rule sum_list_distinct_conv_sum_set)
  also have "set (map fst (filter (\<lambda>e. fst e \<in> V) ?es)) = V \<inter> table_pks f h"
    by (auto simp: table_pks_def)
  finally show ?thesis by (simp add: power_of_def)
qed

lemma table_total:
  assumes "kv_wf (fs_voting_power f)"
  shows "sum_list (map (\<lambda>e. unat (snd e)) (kv_sub h (fs_voting_power f))) = total_power f h"
  using table_sum [OF assms, of UNIV h] by (simp add: power_of_def total_power_def)

text \<open>The comparison of the wrapped 64-bit sums decides the quorum.\<close>

lemma tally_table:
  assumes "stores_wf f" "power_bound f h"
  shows "tally (kv_sub h (fs_voting_power f)) V \<longleftrightarrow> has_quorum f h V"
proof -
  have wf: "kv_wf (fs_voting_power f)" using assms(1) by (simp add: stores_wf_def)
  show ?thesis using assms(2)
    by (simp add: tally_nat table_sum [OF wf] table_total [OF wf] has_quorum_def power_bound_def)
qed

subsection \<open>The loop\<close>

text \<open>A height can be passed when it has no voting power or its voters are a quorum; passing it
  finalises its block in the second case.\<close>

definition settles :: "fin_state \<Rightarrow> u64 \<Rightarrow> bool" where
  "settles f h \<longleftrightarrow> (HasVotingPowerTable f h \<longrightarrow> has_quorum f h (voters f h))"

definition finalized_block :: "IndexedBlock \<Rightarrow> IndexedBlock" where
  "finalized_block ib = ib\<lparr>ib_Finalized := True\<rparr>"

definition pass :: "fin_state \<Rightarrow> u64 list \<Rightarrow> fin_state" where
  "pass f hs = f\<lparr>fs_blocks := (\<lambda>h. if h \<in> set hs \<and> HasVotingPowerTable f h
                                   then map_option finalized_block (fs_blocks f h) else fs_blocks f h),
                 fs_next_height_to_finalize :=
                   (if hs = [] then fs_next_height_to_finalize f else Some (last hs + 1))\<rparr>"

definition pending :: "fin_state \<Rightarrow> u64 \<Rightarrow> bool" where
  "pending f h \<longleftrightarrow> h \<noteq> 0 \<and>
     (\<exists>ib. fs_blocks f h = Some ib \<and> ib_Height ib = h \<and> \<not> ib_Finalized ib)"

lemma pendingE:
  assumes "pending f h"
  obtains ib where "fs_blocks f h = Some ib" "ib_Height ib = h" "\<not> ib_Finalized ib"
    "GetBlock f h = Inr ib"
proof -
  from assms obtain ib where ib: "h \<noteq> 0" "fs_blocks f h = Some ib" "ib_Height ib = h" "\<not> ib_Finalized ib"
    by (auto simp: pending_def)
  then have "ib \<noteq> zero_block" by (auto simp: zero_block_def)
  with ib show thesis by (intro that) (simp_all add: GetBlock_def)
qed

lemma pass_simps [simp]:
  "fs_voting_power (pass f hs) = fs_voting_power f" "fs_votes (pass f hs) = fs_votes f"
  "HasVotingPowerTable (pass f hs) h = HasVotingPowerTable f h"
  by (simp_all add: pass_def HasVotingPowerTable_def)

lemma same_tables:
  assumes "fs_voting_power f = fs_voting_power g" "fs_votes f = fs_votes g"
  shows "has_quorum f h A = has_quorum g h A" "voters f h = voters g h"
    "HasVotingPowerTable f h = HasVotingPowerTable g h" "settles f h = settles g h"
  using assms by (simp_all add: has_quorum_def power_of_def total_power_def table_pks_def power_at_def
      GetVotingPower_def voters_def HasSig_def HasVotingPowerTable_def settles_def)

lemma pass_Nil [simp]: "pass f [] = f"
  by (simp add: pass_def)

lemma pass_pass: "set hs \<inter> set ks = {} \<Longrightarrow> pass (pass f hs) ks = pass f (hs @ ks)"
  by (rule fin_state.equality) (auto simp: pass_def HasVotingPowerTable_def fun_eq_iff)

lemma pass_finalize:
  "fs_blocks f h = Some ib \<Longrightarrow> ib_Height ib = h \<Longrightarrow> HasVotingPowerTable f h \<Longrightarrow>
    finalizeBlock ib f = pass f [h]"
  by (rule fin_state.equality) (auto simp: finalizeBlock_def setNextHeightToFinalize_def SetBlock_def pass_def finalized_block_def
      HasVotingPowerTable_def fun_eq_iff)

lemma pass_skip: "\<not> HasVotingPowerTable f h \<Longrightarrow> setNextHeightToFinalize (h + 1) f = pass f [h]"
  by (rule fin_state.equality) (auto simp: setNextHeightToFinalize_def pass_def HasVotingPowerTable_def fun_eq_iff)

lemma pending_pass: "pending f h \<Longrightarrow> h \<notin> set hs \<Longrightarrow> pending (pass f hs) h"
  by (simp add: pending_def pass_def)

text \<open>A step of the loop on a pending block.\<close>

lemma tally_step:
  assumes "stores_wf f" "keys_ok f" "power_bound f h" "pending f h"
  shows "tally_loop (h # hs) f = (if settles f h then tally_loop hs (pass f [h]) else Inr f)"
proof -
  obtain ib where ib: "fs_blocks f h = Some ib" "ib_Height ib = h" "\<not> ib_Finalized ib" "GetBlock f h = Inr ib"
    using assms(4) by (rule pendingE)
  show ?thesis
  proof (cases "HasVotingPowerTable f h")
    case True
    with ib assms tally_table [OF assms(1,3), of "voters f h"] show ?thesis
      by (simp add: panic_on_error_def GetVotingPowerTable_ok [OF assms(2)] GetVoters_ok [OF assms(2)]
          HasVotingPowerTable_def settles_def voters_def pass_finalize [OF ib(1,2) True])
  next
    case False
    with ib show ?thesis
      by (simp add: panic_on_error_def GetVotingPowerTable_ok [OF assms(2)] HasVotingPowerTable_def
          settles_def pass_skip [OF False])
  qed
qed

lemma wf_pass: "stores_wf (pass f hs) = stores_wf f" "keys_ok (pass f hs) = keys_ok f"
  "power_bound (pass f hs) h = power_bound f h" "settles (pass f hs) h = settles f h"
  using same_tables [of "pass f hs" f h]
  by (simp_all add: stores_wf_def keys_ok_def power_bound_def total_power_def table_pks_def power_at_def
      GetVotingPower_def) (simp_all add: pass_def)

lemma tally_loop_eq:
  assumes "stores_wf f" "keys_ok f" "distinct hs"
    and "\<And>h. h \<in> set hs \<Longrightarrow> power_bound f h" "\<And>h. h \<in> set hs \<Longrightarrow> pending f h"
  shows "tally_loop hs f = Inr (pass f (takeWhile (settles f) hs))"
  using assms
proof (induction hs arbitrary: f)
  case (Cons h hs)
  have step: "tally_loop (h # hs) f = (if settles f h then tally_loop hs (pass f [h]) else Inr f)"
    by (rule tally_step) (simp_all add: Cons.prems)
  show ?case
  proof (cases "settles f h")
    case True
    have "tally_loop hs (pass f [h]) = Inr (pass (pass f [h]) (takeWhile (settles (pass f [h])) hs))"
      using Cons.prems by (intro Cons.IH) (auto simp: wf_pass intro!: pending_pass)
    also have "settles (pass f [h]) = settles f" by (simp add: fun_eq_iff wf_pass)
    also have "pass (pass f [h]) (takeWhile (settles f) hs) = pass f ([h] @ takeWhile (settles f) hs)"
      using Cons.prems(3) by (intro pass_pass) (auto dest: set_takeWhileD)
    finally show ?thesis using True by (simp only: step) simp
  qed (simp only: step, simp)
qed simp

lemma word_less_succ: "b \<noteq> - 1 \<Longrightarrow> b < b + (1 :: 'a::len word)"
  using unatSuc [of b] by (simp add: word_less_nat_alt add.commute eq_neg_iff_add_eq_0)

lemma distinct_heights_upto [simp]: "distinct (heights_upto a (b :: 'a::len word))"
proof -
  have "inj_on (word_of_nat :: nat \<Rightarrow> 'a word) (set [unat a..<Suc (unat b)])"
    by (rule inj_on_inverseI [where g = unat], rule unat_word_of_nat_le [of _ b]) auto
  then show ?thesis by (simp add: heights_upto_def distinct_map del: upt_Suc)
qed

text \<open>The longest prefix of a range of heights that satisfies a predicate ends before some height.\<close>

definition prefix_end :: "(u64 \<Rightarrow> bool) \<Rightarrow> u64 \<Rightarrow> u64 \<Rightarrow> u64 \<Rightarrow> bool" where
  "prefix_end P a b n \<longleftrightarrow> a \<le> n \<and> (if a \<le> b then n \<le> b + 1 else n = a) \<and> (\<forall>h. a \<le> h \<and> h < n \<longrightarrow> P h) \<and> (n \<le> b \<longrightarrow> \<not> P n)"

lemma takeWhile_heights:
  assumes "b \<noteq> - 1"
  shows "\<exists>n. prefix_end P a b n \<and> set (takeWhile P (heights_upto a b)) = {a..<n} \<and>
    (takeWhile P (heights_upto a b) = [] \<longleftrightarrow> n = a) \<and>
    (n \<noteq> a \<longrightarrow> last (takeWhile P (heights_upto a b)) + 1 = n)"
proof (induction "unat b + 1 - unat a" arbitrary: a)
  case 0
  then have "b < a" by (simp add: word_less_nat_alt)
  then show ?case by (intro exI [of _ a]) (auto simp: heights_upto_empty prefix_end_def)
next
  case (Suc d)
  then have ab: "a \<le> b" by (simp add: word_le_nat_alt)
  have lt: "b < b + 1" using assms by (rule word_less_succ)
  have hs: "heights_upto a b = a # heights_upto (a + 1) b"
  proof (cases "a = b")
    case True
    with lt show ?thesis by (simp add: heights_upto_last heights_upto_empty)
  next
    case False
    with ab show ?thesis by (intro heights_upto_Cons) simp
  qed
  have a1: "unat (a + 1) = Suc (unat a)" using ab lt by (intro unat_Suc_word) (rule le_less_trans)
  have "d = unat b + 1 - unat (a + 1)" using Suc.hyps(2) a1 by simp
  from Suc.hyps(1) [OF this] obtain n where n: "prefix_end P (a + 1) b n"
    "set (takeWhile P (heights_upto (a + 1) b)) = {a + 1..<n}"
    "takeWhile P (heights_upto (a + 1) b) = [] \<longleftrightarrow> n = a + 1"
    "n \<noteq> a + 1 \<longrightarrow> last (takeWhile P (heights_upto (a + 1) b)) + 1 = n" by blast
  show ?case
  proof (cases "P a")
    case False
    with ab lt show ?thesis
      by (intro exI [of _ a]) (auto simp: hs prefix_end_def intro: order_trans less_imp_le)
  next
    case True
    have succ: "a + 1 \<le> h \<longleftrightarrow> a < h" for h
      using a1 by (simp add: word_le_nat_alt word_less_nat_alt Suc_le_eq)
    have "a < n" using n(1) by (simp add: prefix_end_def succ)
    have "prefix_end P a b n"
      unfolding prefix_end_def
    proof (intro conjI allI impI)
      show "a \<le> n" using \<open>a < n\<close> by simp
      show "if a \<le> b then n \<le> b + 1 else n = a"
        using n(1) ab lt by (cases "a = b") (auto simp: prefix_end_def succ not_le [symmetric] split: if_splits)
      show "P h" if "a \<le> h \<and> h < n" for h
        using that n(1) True by (cases "h = a") (auto simp: prefix_end_def succ)
      show "\<not> P n" if "n \<le> b" using that n(1) by (simp add: prefix_end_def)
    qed
    moreover have "{a..<n} = insert a {a + 1..<n}"
      using \<open>a < n\<close> by (auto simp: succ)
    ultimately show ?thesis using n \<open>a < n\<close> True
      by (intro exI [of _ n]) (auto simp: hs)
  qed
qed

text \<open>Indexing the current block, which \<open>TallyBlocks\<close> does when the block is not indexed yet.\<close>

definition index_current :: "ctx \<Rightarrow> fin_state \<Rightarrow> fin_state" where
  "index_current c f = (if \<not> HasBlock f (cx_height c) then IndexBlock c f else f)"

lemma index_current_simps [simp]:
  "fs_voting_power (index_current c f) = fs_voting_power f" "fs_votes (index_current c f) = fs_votes f"
  "fs_next_height_to_finalize (index_current c f) = fs_next_height_to_finalize f"
  "stores_wf (index_current c f) = stores_wf f" "keys_ok (index_current c f) = keys_ok f"
  by (simp_all add: index_current_def IndexBlock_def SetBlock_def stores_wf_def keys_ok_def)

definition tally_end :: "ctx \<Rightarrow> u64 \<Rightarrow> u64 \<Rightarrow> u64" where
  "tally_end c maxFinalizedBlocks startHeight = min (startHeight + maxFinalizedBlocks - 1) (cx_height c)"

lemma TallyBlocks_pass:
  assumes "stores_wf f" "keys_ok f" "GetBTCStakingActivatedHeight f = Inr act"
    and "\<And>h. power_bound f h"
    and "\<And>h. tally_start f act \<le> h \<Longrightarrow> h \<le> cx_height c \<Longrightarrow> pending (index_current c f) h"
  shows "TallyBlocks c m f = Inr (pass (index_current c f)
    (takeWhile (settles f) (heights_upto (tally_start f act) (tally_end c m (tally_start f act)))))"
proof -
  let ?g = "index_current c f" and ?hs = "heights_upto (tally_start f act) (tally_end c m (tally_start f act))"
  have same: "settles ?g = settles f" using same_tables(4) [of ?g f] by (simp add: fun_eq_iff)
  have bound: "power_bound ?g h" for h
    using assms(4) [of h] by (simp add: power_bound_def total_power_def table_pks_def power_at_def GetVotingPower_def)
  have "tally_loop ?hs ?g = Inr (pass ?g (takeWhile (settles ?g) ?hs))"
    using assms bound by (intro tally_loop_eq) (auto simp: tally_end_def)
  moreover have "TallyBlocks c m f = tally_loop ?hs ?g"
    by (simp add: TallyBlocks_def assms(3) Let_def tally_end_def index_current_def)
  ultimately show ?thesis by (simp only: same)
qed

subsection \<open>Properties\<close>

text \<open>C16. The tally of a height compares the exact sums: with the votes and the voting power table that
  the stores hold, \<open>tally\<close> succeeds exactly when the providers that voted hold more than two thirds of
  the power of the height, although both sums are 64-bit and multiplied.\<close>

theorem tally_decides_quorum:
  assumes "stores_wf f" "keys_ok f" "power_bound f h" "HasVotingPowerTable f h"
  shows "\<exists>fpSet voterBTCPKs. GetVotingPowerTable f h = Inr (Some fpSet) \<and> GetVoters f h = Inr voterBTCPKs \<and>
    voterBTCPKs = {pk. HasSig f h pk} \<and>
    (tally fpSet voterBTCPKs \<longleftrightarrow>
      3 * (\<Sum>pk\<in>{pk. HasSig f h pk} \<inter> table_pks f h. unat (GetVotingPower f pk h)) >
      2 * (\<Sum>pk\<in>table_pks f h. unat (GetVotingPower f pk h)))"
  using assms tally_table [OF assms(1,3), of "voters f h"]
  by (simp add: GetVotingPowerTable_ok GetVoters_ok HasVotingPowerTable_def voters_def has_quorum_def
      power_of_def total_power_def power_at_def)

text \<open>C4. \<open>TallyBlocks\<close> does not panic and advances to the first height \<open>n\<close> that has voting power and
  no quorum, at most to the current height and by at most \<open>maxFinalizedBlocks\<close> blocks. Of the heights
  before \<open>n\<close> it finalises exactly those with voting power, all of which have a quorum; it records \<open>n\<close>
  as the next height when it advanced, and it changes no other block and no other store.\<close>

theorem tally_finalizes:
  assumes wf: "stores_wf f" "keys_ok f" and act: "GetBTCStakingActivatedHeight f = Inr act"
    and bound: "\<And>h. power_bound f h"
    and blocks: "\<And>h. tally_start f act \<le> h \<Longrightarrow> h \<le> cx_height c \<Longrightarrow> pending (index_current c f) h"
    and "cx_height c \<noteq> - 1"
  shows "\<exists>n f'. TallyBlocks c m f = Inr f' \<and> tally_start f act \<le> n \<and>
    (if tally_start f act \<le> tally_end c m (tally_start f act)
     then n \<le> tally_end c m (tally_start f act) + 1 else n = tally_start f act) \<and>
    (\<forall>h. tally_start f act \<le> h \<and> h < n \<and> HasVotingPowerTable f h \<longrightarrow> has_quorum f h (voters f h)) \<and>
    (n \<le> tally_end c m (tally_start f act) \<longrightarrow>
      HasVotingPowerTable f n \<and> \<not> has_quorum f n (voters f n)) \<and>
    getNextHeightToFinalize f' = (if n = tally_start f act then getNextHeightToFinalize f else n) \<and>
    (\<forall>h. fs_blocks f' h =
      (if tally_start f act \<le> h \<and> h < n \<and> HasVotingPowerTable f h
       then map_option finalized_block (fs_blocks (index_current c f) h)
       else fs_blocks (index_current c f) h)) \<and>
    f'\<lparr>fs_blocks := fs_blocks f, fs_next_height_to_finalize := fs_next_height_to_finalize f\<rparr> = f"
proof -
  let ?s = "tally_start f act" and ?g = "index_current c f"
  let ?e = "tally_end c m ?s"
  let ?hs = "takeWhile (settles f) (heights_upto ?s ?e)"
  have "?e \<le> cx_height c" by (simp add: tally_end_def)
  then have "?e \<noteq> - 1" using assms(6) by (auto simp: word_order.extremum_unique)
  from takeWhile_heights [OF this, of "settles f" ?s] obtain n where n:
    "prefix_end (settles f) ?s ?e n" "set ?hs = {?s..<n}" "?hs = [] \<longleftrightarrow> n = ?s"
    "n \<noteq> ?s \<longrightarrow> last ?hs + 1 = n" by blast
  have run: "TallyBlocks c m f = Inr (pass ?g ?hs)"
    by (rule TallyBlocks_pass) (simp_all add: assms)
  have tab: "HasVotingPowerTable ?g h = HasVotingPowerTable f h" for h by (simp add: HasVotingPowerTable_def)
  have nxt: "getNextHeightToFinalize (pass ?g ?hs) = (if n = ?s then getNextHeightToFinalize f else n)"
    using n(3,4) by (simp add: pass_def getNextHeightToFinalize_def)
  have blk: "fs_blocks (pass ?g ?hs) h = (if ?s \<le> h \<and> h < n \<and> HasVotingPowerTable f h
      then map_option finalized_block (fs_blocks ?g h) else fs_blocks ?g h)" for h
    by (simp add: pass_def n(2) tab)
  have rest: "(pass ?g ?hs)\<lparr>fs_blocks := fs_blocks f,
      fs_next_height_to_finalize := fs_next_height_to_finalize f\<rparr> = f"
    by (simp add: pass_def index_current_def IndexBlock_def SetBlock_def)
  show ?thesis
    using n(1) by (intro exI [of _ n] exI [of _ "pass ?g ?hs"] conjI allI run nxt blk rest)
      (auto simp: prefix_end_def settles_def)
qed

subsection \<open>A height with a quorum\<close>

definition voted_fin :: fin_state where
  "voted_fin = empty_fin\<lparr>fs_voting_power := [((5, pkA), 300), ((5, pkB), 100)],
     fs_votes := [((5, pkA), replicate 32 CHR ''s'')],
     fs_blocks := [5 \<mapsto> \<lparr>ib_Height = 5, ib_AppHash = ''hash'', ib_Finalized = False\<rparr>]\<rparr>"

lemma voted_fin_wf: "stores_wf voted_fin \<and> keys_ok voted_fin"
  by code_simp

lemma voted_fin_table:
  "kv_sub h (fs_voting_power voted_fin) = (if h = 5 then [(pkA, 300), (pkB, 100)] else [])"
  by (simp add: voted_fin_def)

lemma voted_fin_bound: "power_bound voted_fin h"
proof -
  have "kv_wf (fs_voting_power voted_fin)" using voted_fin_wf by (simp add: stores_wf_def)
  from table_total [OF this, of h] show ?thesis
    by (simp add: power_bound_def voted_fin_table split: if_splits)
qed

lemma voted_fin_quorum: "HasVotingPowerTable voted_fin 5" "has_quorum voted_fin 5 (voters voted_fin 5)"
proof -
  show "HasVotingPowerTable voted_fin 5" by (simp add: HasVotingPowerTable_def voted_fin_table)
  have "tally (kv_sub 5 (fs_voting_power voted_fin)) {pkA}" by code_simp
  then have "has_quorum voted_fin 5 {pkA}" using tally_table [of voted_fin 5] voted_fin_wf voted_fin_bound by simp
  moreover have "{pkA} \<subseteq> voters voted_fin 5" by (simp add: voters_def HasSig_def kv_has_def voted_fin_def)
  ultimately show "has_quorum voted_fin 5 (voters voted_fin 5)" by (rule quorum_mono)
qed

theorem tally_decides_quorum_witness:
  "\<exists>fpSet voterBTCPKs. GetVotingPowerTable voted_fin 5 = Inr (Some fpSet) \<and>
    GetVoters voted_fin 5 = Inr voterBTCPKs \<and> tally fpSet voterBTCPKs"
  using tally_decides_quorum [of voted_fin 5] voted_fin_wf voted_fin_bound voted_fin_quorum
  by (auto simp: has_quorum_def power_of_def total_power_def power_at_def voters_def)

theorem tally_finalizes_witness:
  "\<exists>f'. TallyBlocks (sample_ctx 5) 10000 voted_fin = Inr f' \<and> getNextHeightToFinalize f' = 6 \<and>
    fs_blocks f' 5 = Some \<lparr>ib_Height = 5, ib_AppHash = ''hash'', ib_Finalized = True\<rparr>"
proof -
  let ?c = "sample_ctx 5"
  have act: "GetBTCStakingActivatedHeight voted_fin = Inr 5" "tally_start voted_fin 5 = 5"
    "tally_end ?c 10000 5 = 5" "cx_height ?c = 5" "(5::u64) \<noteq> - 1"
    by code_simp+
  have idx: "index_current ?c voted_fin = voted_fin"
    by (simp add: index_current_def act(4) HasBlock_def voted_fin_def)
  have "pending (index_current ?c voted_fin) h" if "5 \<le> h" "h \<le> 5" for h
  proof -
    from that have "h = 5" by simp
    then show ?thesis unfolding idx by (simp add: pending_def voted_fin_def)
  qed
  with voted_fin_wf voted_fin_bound act obtain n f' where f': "TallyBlocks ?c 10000 voted_fin = Inr f'" "5 \<le> n"
    "if (5::u64) \<le> 5 then n \<le> 5 + 1 else n = 5"
    "n \<le> 5 \<longrightarrow> HasVotingPowerTable voted_fin n \<and> \<not> has_quorum voted_fin n (voters voted_fin n)"
    "getNextHeightToFinalize f' = (if n = 5 then getNextHeightToFinalize voted_fin else n)"
    "\<forall>h. fs_blocks f' h = (if 5 \<le> h \<and> h < n \<and> HasVotingPowerTable voted_fin h
       then map_option finalized_block (fs_blocks voted_fin h) else fs_blocks voted_fin h)"
    using tally_finalizes [of voted_fin 5 ?c 10000, unfolded idx act(2-4)]
    unfolding idx by (elim conjE) ((drule meta_mp, assumption)+, blast)
  have "n \<noteq> 5" using f'(4) voted_fin_quorum(2) by auto
  then have "n = 6" using f'(2,3) by (simp add: word_le_nat_alt word_unat_eq_iff)
  with f' voted_fin_quorum(1) show ?thesis
    by (intro exI [of _ f']) (simp add: voted_fin_def finalized_block_def)
qed

end
