(* ===== verification/Voting.thy ===== *)
theory Voting
  imports Tallying
begin

text \<open>
  Votes and equivocation (\<open>keeper/msg_server.go\<close>, \<open>types/msg.go\<close>): the handler of
  \<open>MsgAddFinalitySig\<close> with its checks, the evidence of a vote for a fork, and slashing. The invariant \<open>accountable\<close> says that a
  provider with a vote and a vote for a fork at one height is slashed.
\<close>

subsection \<open>Checks of the message\<close>

definition SchnorrPubRandLen :: nat where
  "SchnorrPubRandLen = 32"

text \<open>\<open>tmhash.Size\<close>\<close>

definition tmhash_Size :: nat where
  "tmhash_Size = 32"

definition AddFinalitySig_ValidateBasic :: "ext \<Rightarrow> MsgAddFinalitySig \<Rightarrow> unit result" where
  "AddFinalitySig_ValidateBasic x m =
     guardR (ext_bech32 x (mafs_Signer m) = None) (Lib ''ErrInvalidAddress'')
    (case mafs_FpBtcPk m of
       None \<Rightarrow> Inl (Finality ErrInvalidFinalitySig)
     | Some pk \<Rightarrow>
         guardR (pk_size pk \<noteq> BIP340PubKeyLen) (Finality ErrInvalidFinalitySig)
        (case mafs_PubRand m of
           None \<Rightarrow> Inl (Finality ErrInvalidFinalitySig)
         | Some pr \<Rightarrow>
             guardR (length pr \<noteq> SchnorrPubRandLen) (Finality ErrInvalidFinalitySig)
            (guardR (mafs_Proof m = None) (Finality ErrInvalidFinalitySig)
            (case mafs_FinalitySig m of
               None \<Rightarrow> Inl (Finality ErrInvalidFinalitySig)
             | Some sig \<Rightarrow>
                 guardR (length sig \<noteq> SchnorrEOTSSigLen) (Finality ErrInvalidFinalitySig)
                (guardR (length (mafs_BlockAppHash m) \<noteq> tmhash_Size) (Finality ErrInvalidFinalitySig)
                (Inr ()))))))"

definition msgToSignForVote :: "u64 \<Rightarrow> bytes \<Rightarrow> bytes" where
  "msgToSignForVote blockHeight blockHash = Uint64ToBigEndian blockHeight @ blockHash"

definition MsgToSign :: "MsgAddFinalitySig \<Rightarrow> bytes" where
  "MsgToSign m = msgToSignForVote (mafs_BlockHeight m) (mafs_BlockAppHash m)"

definition VerifyFinalitySig :: "ext \<Rightarrow> MsgAddFinalitySig \<Rightarrow> PubRandCommit \<Rightarrow> unit result" where
  "VerifyFinalitySig x m prCommit =
     (case (mafs_FpBtcPk m, mafs_PubRand m, mafs_Proof m, mafs_FinalitySig m) of
        (Some pk, Some pr, Some pf, Some sig) \<Rightarrow>
          let heightOfProof = prc_StartHeight prCommit + pf_Index pf in
          guardR (mafs_BlockHeight m \<noteq> heightOfProof) (Finality ErrInvalidFinalitySig)
         (guardR (pf_Total pf \<noteq> prc_NumPubRand prCommit) (Finality ErrInvalidFinalitySig)
         (guardR (\<not> ext_merkle_verify x pf (prc_Commitment prCommit) pr) (Finality ErrInvalidFinalitySig)
         (guardR (\<not> ext_pubkey_ok x pk) (Lib ''ParsePubKey'')
         (guardR (\<not> ext_eots_verify x pk pr (MsgToSign m) sig) (Lib ''eots.Verify'')
         (Inr ())))))
      | _ \<Rightarrow> Inl (Panic ''nil field''))"

definition ShouldAcceptSigForHeight :: "ctx \<Rightarrow> IndexedBlock \<Rightarrow> bool" where
  "ShouldAcceptSigForHeight c block =
     (let epochNum = cx_EpochByHeight c (ib_Height block);
          lastFinalizedEpoch = GetLastFinalizedEpoch c;
          timestamped = lastFinalizedEpoch \<ge> epochNum
      in \<not> (ib_Finalized block \<and> timestamped))"

subsection \<open>Handlers\<close>

definition slashFinalityProvider :: "ctx \<Rightarrow> btcpk \<Rightarrow> Evidence \<Rightarrow> 'h world \<Rightarrow> 'h world result" where
  "slashFinalityProvider c fpBtcPk evidence w =
     bindR (panic_on_error (SlashFinalityProvider c fpBtcPk (w_bs w))) (\<lambda>b.
     Inr (emit (EventSlashedFinalityProvider evidence) (w\<lparr>w_bs := b\<rparr>)))"

text \<open>A read whose error the caller handles, while a panic goes on.\<close>

definition try_result :: "'a result \<Rightarrow> ('a option \<Rightarrow> 'b result) \<Rightarrow> 'b result" where
  "try_result r k = (case r of
       Inl (Panic s) \<Rightarrow> Inl (Panic s)
     | Inl _ \<Rightarrow> k None
     | Inr a \<Rightarrow> k (Some a))"

text \<open>The vote is for a fork: the evidence, with the canonical vote if there is one.\<close>

definition add_fork_sig ::
  "ctx \<Rightarrow> MsgAddFinalitySig \<Rightarrow> btcpk \<Rightarrow> IndexedBlock \<Rightarrow> 'h world \<Rightarrow> 'h world result" where
  "add_fork_sig c req pk indexedBlock w =
     (let evidence = \<lparr>ev_FpBtcPk = mafs_FpBtcPk req, ev_BlockHeight = mafs_BlockHeight req,
            ev_PubRand = mafs_PubRand req, ev_CanonicalAppHash = ib_AppHash indexedBlock,
            ev_ForkAppHash = mafs_BlockAppHash req, ev_CanonicalFinalitySig = None,
            ev_ForkFinalitySig = mafs_FinalitySig req\<rparr>
      in try_result (GetSig c (w_fin w) (mafs_BlockHeight req) pk) (\<lambda>canonicalSig.
         case canonicalSig of
           Some sig \<Rightarrow>
             let evidence1 = evidence\<lparr>ev_CanonicalFinalitySig := Some sig\<rparr>
             in bindR (slashFinalityProvider c pk evidence1 w) (\<lambda>w1.
                bindR (SetEvidence evidence1 (w_fin w1)) (\<lambda>f. Inr (w1\<lparr>w_fin := f\<rparr>)))
         | None \<Rightarrow> bindR (SetEvidence evidence (w_fin w)) (\<lambda>f. Inr (w\<lparr>w_fin := f\<rparr>))))"

text \<open>The vote is for the canonical block.\<close>

definition add_canonical_sig ::
  "'h env \<Rightarrow> ctx \<Rightarrow> MsgAddFinalitySig \<Rightarrow> btcpk \<Rightarrow> bytes \<Rightarrow> FinalityProvider \<Rightarrow> 'h world \<Rightarrow> 'h world result" where
  "add_canonical_sig en c req pk sig fp w =
     (let w1 = w\<lparr>w_fin := SetSig (mafs_BlockHeight req) pk sig (w_fin w)\<rparr> in
      bindR (if fp_HighestVotedHeight fp < ucast (mafs_BlockHeight req)
             then bindR (UpdateFinalityProvider
                           (fp\<lparr>fp_HighestVotedHeight := ucast (mafs_BlockHeight req)\<rparr>) (w_bs w1))
                    (\<lambda>b. Inr (w1\<lparr>w_bs := b\<rparr>))
             else Inr w1) (\<lambda>w2.
      if HasEvidence (w_fin w2) pk (mafs_BlockHeight req)
      then bindR (panic_on_error (GetEvidence c (w_fin w2) pk (mafs_BlockHeight req))) (\<lambda>evidence.
           let evidence1 = evidence\<lparr>ev_CanonicalFinalitySig := Some sig\<rparr>
           in bindR (SetEvidence evidence1 (w_fin w2)) (\<lambda>f.
              slashFinalityProvider c pk evidence1 (w2\<lparr>w_fin := f\<rparr>)))
      else Inr (w2\<lparr>w_ext := env_IndexRefundableMsg en (w_ext w2)\<rparr>)))"

definition AddFinalitySig ::
  "ext \<Rightarrow> 'h env \<Rightarrow> ctx \<Rightarrow> MsgAddFinalitySig \<Rightarrow> 'h world \<Rightarrow> 'h world result" where
  "AddFinalitySig x en c req w =
     bindR (AddFinalitySig_ValidateBasic x req) (\<lambda>_.
     bindR (validateActivationHeight (w_fin w) (mafs_BlockHeight req)) (\<lambda>_.
     bindR (GetBlock (w_fin w) (mafs_BlockHeight req)) (\<lambda>indexedBlock.
     guardR (\<not> ShouldAcceptSigForHeight c indexedBlock) (Finality ErrSigHeightOutdated)
    (case (mafs_FpBtcPk req, mafs_PubRand req, mafs_FinalitySig req) of
       (Some pk, Some pr, Some sig) \<Rightarrow>
         guardR (IsFinalityProviderDeleted (w_bs w) pk) (Finality ErrFinalityProviderIsDeleted)
        (bindR (GetFinalityProvider (w_bs w) pk) (\<lambda>fp.
         guardR (IsSlashed fp) (BTCStaking ErrFpAlreadySlashed)
        (guardR (IsJailed fp) (BTCStaking ErrFpAlreadyJailed)
        (guardR (GetVotingPower (w_fin w) pk (mafs_BlockHeight req) = 0) (Finality ErrInvalidFinalitySig)
        (try_result (GetSig c (w_fin w) (mafs_BlockHeight req) pk) (\<lambda>existingSig.
         guardR (existingSig = Some sig) (Finality ErrDuplicatedFinalitySig)
        (bindR (GetTimestampedPubRandCommitForHeight c (w_fin w) pk (mafs_BlockHeight req)) (\<lambda>prCommit.
         bindR (VerifyFinalitySig x req prCommit) (\<lambda>_.
         let w1 = w\<lparr>w_fin := SetPubRand pk (mafs_BlockHeight req) pr (w_fin w)\<rparr>
         in if ib_AppHash indexedBlock \<noteq> mafs_BlockAppHash req
            then add_fork_sig c req pk indexedBlock w1
            else add_canonical_sig en c req pk sig fp w1)))))))))
     | _ \<Rightarrow> Inl (Panic ''nil field'')))))"

subsection \<open>The effect of a vote\<close>

definition slashed :: "'h world \<Rightarrow> btcpk \<Rightarrow> bool" where
  "slashed w pk \<longleftrightarrow> (\<exists>fp. GetFinalityProvider (w_bs w) pk = Inr fp \<and> IsSlashed fp)"

text \<open>The stores that the handler relies on: votes and evidence are what it wrote itself, and only
  blocks up to the current height are indexed, with a hash of 32 bytes.\<close>

definition voting_inv :: "ext \<Rightarrow> ctx \<Rightarrow> 'h world \<Rightarrow> bool" where
  "voting_inv x c w \<longleftrightarrow> fps_inv (w_bs w) \<and> stores_wf (w_fin w) \<and>
     (\<forall>h pk s. kv_get (fs_votes (w_fin w)) (h, pk) = Some s \<longrightarrow>
        length s = SchnorrEOTSSigLen \<and> pk_size pk = BIP340PubKeyLen) \<and>
     (\<forall>pk h e. kv_get (fs_evidence (w_fin w)) (pk, h) = Some e \<longrightarrow>
        ev_FpBtcPk e = Some pk \<and> ev_BlockHeight e = h \<and> h \<le> cx_height c \<and> Evidence_ValidateBasic x e = Inr ()) \<and>
     (\<forall>h ib. fs_blocks (w_fin w) h = Some ib \<longrightarrow> h \<le> cx_height c \<and> length (ib_AppHash ib) = 32)"

definition fork_evidence :: "MsgAddFinalitySig \<Rightarrow> IndexedBlock \<Rightarrow> bytes option \<Rightarrow> Evidence" where
  "fork_evidence req ib canonicalSig =
     \<lparr>ev_FpBtcPk = mafs_FpBtcPk req, ev_BlockHeight = mafs_BlockHeight req, ev_PubRand = mafs_PubRand req,
      ev_CanonicalAppHash = ib_AppHash ib, ev_ForkAppHash = mafs_BlockAppHash req,
      ev_CanonicalFinalitySig = canonicalSig, ev_ForkFinalitySig = mafs_FinalitySig req\<rparr>"

text \<open>What a successful handler has done, for the provider \<open>pk\<close> and the block \<open>ib\<close> at the voted
  height.\<close>

definition vote_effect ::
  "MsgAddFinalitySig \<Rightarrow> btcpk \<Rightarrow> bytes \<Rightarrow> bytes \<Rightarrow> IndexedBlock \<Rightarrow> 'h world \<Rightarrow> 'h world \<Rightarrow> bool" where
  "vote_effect req pk pr sig ib w w' \<longleftrightarrow>
     (let h = mafs_BlockHeight req; f = w_fin w; fork = (ib_AppHash ib \<noteq> mafs_BlockAppHash req) in
      w_fin w' = f\<lparr>fs_pub_rand := kv_set (pk, h) pr (fs_pub_rand f),
        fs_votes := (if fork then fs_votes f else kv_set (h, pk) sig (fs_votes f)),
        fs_evidence :=
          (if fork then kv_set (pk, h) (fork_evidence req ib (kv_get (fs_votes f) (h, pk))) (fs_evidence f)
           else case kv_get (fs_evidence f) (pk, h) of
             None \<Rightarrow> fs_evidence f
           | Some e \<Rightarrow> kv_set (pk, h) (e\<lparr>ev_CanonicalFinalitySig := Some sig\<rparr>) (fs_evidence f))\<rparr> \<and>
      fps_inv (w_bs w') \<and>
      (\<forall>q. q \<noteq> pk \<longrightarrow> GetFinalityProvider (w_bs w') q = GetFinalityProvider (w_bs w) q) \<and>
      (slashed w' pk \<longleftrightarrow> (if fork then HasSig f h pk else HasEvidence f pk h)))"

lemma GetSig_ok:
  assumes "voting_inv x c w" "h \<le> cx_height c"
  shows "try_result (GetSig c (w_fin w) h pk) k = k (kv_get (fs_votes (w_fin w)) (h, pk))"
proof (cases "kv_get (fs_votes (w_fin w)) (h, pk)")
  case None
  with assms(2) show ?thesis by (simp add: GetSig_def try_result_def)
next
  case (Some s)
  then have "length s = SchnorrEOTSSigLen" using assms(1) by (simp add: voting_inv_def)
  moreover from this have "s \<noteq> []" by (auto simp: SchnorrEOTSSigLen_def)
  moreover have "\<not> cx_height c < h" using assms(2) by (rule leD)
  ultimately show ?thesis using Some
    by (simp add: GetSig_def try_result_def NewSchnorrEOTSSig_def)
qed

lemma slashFinalityProvider_effect:
  assumes "fps_inv (w_bs w)" "slashFinalityProvider c pk e w = Inr w'" "0 < cx_height c"
  shows "fps_inv (w_bs w')" "w_fin w' = w_fin w" "slashed w' pk"
    "\<And>q. q \<noteq> pk \<Longrightarrow> GetFinalityProvider (w_bs w') q = GetFinalityProvider (w_bs w) q"
proof -
  obtain b where b: "SlashFinalityProvider c pk (w_bs w) = Inr b"
    and w': "w' = emit (EventSlashedFinalityProvider e) (w\<lparr>w_bs := b\<rparr>)"
    using assms(2) by (auto simp: slashFinalityProvider_def bindR_eq_Inr panic_on_error_def split: sum.splits)
  obtain fp tip where "fps_inv b" "\<And>q. GetFinalityProvider b q = (if q = pk
      then Inr (fp\<lparr>fp_SlashedBabylonHeight := cx_height c, fp_SlashedBtcHeight := tip\<rparr>)
      else GetFinalityProvider (w_bs w) q)"
    using bsk.slash_effect [OF assms(1) b] by auto
  with assms(3) show "fps_inv (w_bs w')" "w_fin w' = w_fin w" "slashed w' pk"
    "\<And>q. q \<noteq> pk \<Longrightarrow> GetFinalityProvider (w_bs w') q = GetFinalityProvider (w_bs w) q"
    by (simp_all add: w' slashed_def IsSlashed_def)
qed

lemma add_fork_sig_effect:
  assumes inv: "voting_inv x c w" "mafs_BlockHeight req \<le> cx_height c" "0 < cx_height c"
    and req: "mafs_FpBtcPk req = Some pk" and fp: "GetFinalityProvider (w_bs w) pk = Inr fp" "\<not> IsSlashed fp"
    and fork: "ib_AppHash ib \<noteq> mafs_BlockAppHash req"
    and run: "add_fork_sig c req pk ib (w\<lparr>w_fin := SetPubRand pk (mafs_BlockHeight req) pr (w_fin w)\<rparr>) = Inr w'"
  shows "vote_effect req pk pr sig ib w w'"
proof -
  let ?h = "mafs_BlockHeight req"
  let ?w = "w\<lparr>w_fin := SetPubRand pk ?h pr (w_fin w)\<rparr>"
  have "voting_inv x c ?w" using inv(1) by (simp add: voting_inv_def SetPubRand_def stores_wf_def)
  note sig = GetSig_ok [OF this inv(2)]
  have fps: "fps_inv (w_bs ?w)" using inv(1) by (simp add: voting_inv_def)
  note run' = run [unfolded add_fork_sig_def Let_def sig]
  show ?thesis
  proof (cases "kv_get (fs_votes (w_fin w)) (?h, pk)")
    case None
    then show ?thesis using run' fp fork fps
      by (auto simp: Let_def SetPubRand_def SetEvidence_def req vote_effect_def
          fork_evidence_def slashed_def HasSig_def kv_has_def)
  next
    case (Some s)
    then obtain w1 where w1: "slashFinalityProvider c pk (fork_evidence req ib (Some s)) ?w = Inr w1"
      and w': "w' = w1\<lparr>w_fin := (w_fin w1)\<lparr>fs_evidence :=
        kv_set (pk, ?h) (fork_evidence req ib (Some s)) (fs_evidence (w_fin w1))\<rparr>\<rparr>"
      using run' by (auto simp: SetPubRand_def SetEvidence_def req
          fork_evidence_def bindR_eq_Inr Let_def)
    note eff = slashFinalityProvider_effect [OF fps w1 inv(3)]
    show ?thesis using eff fork Some
      by (auto simp: vote_effect_def w' SetPubRand_def slashed_def HasSig_def kv_has_def)
  qed
qed

text \<open>Recording the highest voted height keeps the providers.\<close>

lemma UpdateFinalityProvider_effect:
  assumes "fps_inv b" "GetFinalityProvider b pk = Inr fp" "\<not> IsSlashed fp"
    and "UpdateFinalityProvider (fp\<lparr>fp_HighestVotedHeight := v\<rparr>) b = Inr b'"
  shows "fps_inv b'" "\<And>q. q \<noteq> pk \<Longrightarrow> GetFinalityProvider b' q = GetFinalityProvider b q"
    "\<exists>fp'. GetFinalityProvider b' pk = Inr fp' \<and> \<not> IsSlashed fp'"
  using assms fps_inv_key [OF assms(1,2)]
  by (auto simp: UpdateFinalityProvider_def IsSlashed_def split: if_splits)

lemma add_canonical_sig_effect:
  assumes inv: "voting_inv x c w" "mafs_BlockHeight req \<le> cx_height c" "0 < cx_height c"
    and fp: "GetFinalityProvider (w_bs w) pk = Inr fp" "\<not> IsSlashed fp"
    and canonical: "ib_AppHash ib = mafs_BlockAppHash req"
    and run: "add_canonical_sig en c req pk sig fp
      (w\<lparr>w_fin := SetPubRand pk (mafs_BlockHeight req) pr (w_fin w)\<rparr>) = Inr w'"
  shows "vote_effect req pk pr sig ib w w'"
proof -
  let ?h = "mafs_BlockHeight req"
  let ?f = "SetSig ?h pk sig (SetPubRand pk ?h pr (w_fin w))"
  have fps: "fps_inv (w_bs w)" using inv(1) by (simp add: voting_inv_def)
  have ev: "fs_evidence ?f = fs_evidence (w_fin w)" by (simp add: SetSig_def SetPubRand_def)
  obtain b where b: "fps_inv b" "\<And>q. q \<noteq> pk \<Longrightarrow> GetFinalityProvider b q = GetFinalityProvider (w_bs w) q"
      "\<exists>fp'. GetFinalityProvider b pk = Inr fp' \<and> \<not> IsSlashed fp'"
    and run2: "(if HasEvidence ?f pk ?h
      then bindR (panic_on_error (GetEvidence c ?f pk ?h)) (\<lambda>e.
           bindR (SetEvidence (e\<lparr>ev_CanonicalFinalitySig := Some sig\<rparr>) ?f) (\<lambda>f.
           slashFinalityProvider c pk (e\<lparr>ev_CanonicalFinalitySig := Some sig\<rparr>) (w\<lparr>w_bs := b, w_fin := f\<rparr>)))
      else Inr (w\<lparr>w_bs := b, w_fin := ?f, w_ext := env_IndexRefundableMsg en (w_ext w)\<rparr>)) = Inr w'"
  proof (cases "fp_HighestVotedHeight fp < ucast ?h")
    case True
    then obtain b where b: "UpdateFinalityProvider (fp\<lparr>fp_HighestVotedHeight := ucast ?h\<rparr>) (w_bs w) = Inr b"
      using run by (auto simp: add_canonical_sig_def Let_def bindR_eq_Inr)
    note eff = UpdateFinalityProvider_effect [OF fps fp b]
    show ?thesis using run True b by (intro that [OF eff]) (auto simp: add_canonical_sig_def Let_def)
  next
    case False
    then show ?thesis using run fp by (intro that [of "w_bs w", OF fps]) (auto simp: add_canonical_sig_def Let_def)
  qed
  show ?thesis
  proof (cases "kv_get (fs_evidence (w_fin w)) (pk, ?h)")
    case None
    then show ?thesis using run2 b canonical
      by (auto simp: HasEvidence_def kv_has_def ev vote_effect_def SetSig_def SetPubRand_def slashed_def)
  next
    case (Some e)
    let ?e = "e\<lparr>ev_CanonicalFinalitySig := Some sig\<rparr>"
    have "ev_FpBtcPk e = Some pk" "ev_BlockHeight e = ?h" using inv(1) Some by (auto simp: voting_inv_def)
    moreover have "\<not> cx_height c < ?h" using inv(2) by (rule leD)
    ultimately have run3: "slashFinalityProvider c pk ?e
        (w\<lparr>w_bs := b, w_fin := ?f\<lparr>fs_evidence := kv_set (pk, ?h) ?e (fs_evidence ?f)\<rparr>\<rparr>) = Inr w'"
      using run2 Some by (simp add: HasEvidence_def kv_has_def ev GetEvidence_def panic_on_error_def SetEvidence_def)
    have "fps_inv (w_bs (w\<lparr>w_bs := b, w_fin := ?f\<lparr>fs_evidence := kv_set (pk, ?h) ?e (fs_evidence ?f)\<rparr>\<rparr>))"
      using b(1) by simp
    note eff = slashFinalityProvider_effect [OF this run3 inv(3)]
    show ?thesis using eff Some canonical b(2)
      by (auto simp: vote_effect_def ev SetSig_def SetPubRand_def HasEvidence_def kv_has_def)
  qed
qed

text \<open>What the checks of the handler have established when it succeeds.\<close>

definition vote_checked ::
  "ext \<Rightarrow> ctx \<Rightarrow> MsgAddFinalitySig \<Rightarrow> btcpk \<Rightarrow> bytes \<Rightarrow> bytes \<Rightarrow> IndexedBlock \<Rightarrow> 'h world \<Rightarrow> bool" where
  "vote_checked x c req pk pr sig ib w \<longleftrightarrow>
     mafs_FpBtcPk req = Some pk \<and> mafs_PubRand req = Some pr \<and> mafs_FinalitySig req = Some sig \<and>
     pk_size pk = BIP340PubKeyLen \<and> length sig = SchnorrEOTSSigLen \<and> length (mafs_BlockAppHash req) = 32 \<and>
     ext_pubkey_ok x pk \<and> ext_eots_verify x pk pr (MsgToSign req) sig \<and>
     fs_blocks (w_fin w) (mafs_BlockHeight req) = Some ib \<and>
     \<not> slashed w pk \<and> GetVotingPower (w_fin w) pk (mafs_BlockHeight req) \<noteq> 0 \<and>
     kv_get (fs_votes (w_fin w)) (mafs_BlockHeight req, pk) \<noteq> Some sig"

lemma ValidateBasic_ok:
  assumes "AddFinalitySig_ValidateBasic x req = Inr u"
  shows "\<exists>pk pr sig. mafs_FpBtcPk req = Some pk \<and> mafs_PubRand req = Some pr \<and> mafs_FinalitySig req = Some sig \<and>
    pk_size pk = BIP340PubKeyLen \<and> length sig = SchnorrEOTSSigLen \<and> length (mafs_BlockAppHash req) = 32"
  using assms by (auto simp: AddFinalitySig_ValidateBasic_def guardR_eq_Inr tmhash_Size_def split: option.splits)

lemma VerifyFinalitySig_ok:
  assumes "VerifyFinalitySig x req prc = Inr u" "mafs_FpBtcPk req = Some pk" "mafs_PubRand req = Some pr"
    "mafs_FinalitySig req = Some sig"
  shows "ext_pubkey_ok x pk" "ext_eots_verify x pk pr (MsgToSign req) sig"
  using assms by (auto simp: VerifyFinalitySig_def guardR_eq_Inr Let_def split: option.splits)

lemma AddFinalitySig_effect:
  assumes inv: "voting_inv x c w" "0 < cx_height c" and run: "AddFinalitySig x en c req w = Inr w'"
  shows "\<exists>pk pr sig ib. vote_checked x c req pk pr sig ib w \<and> vote_effect req pk pr sig ib w w'"
proof -
  let ?h = "mafs_BlockHeight req"
  obtain u ib where basic: "AddFinalitySig_ValidateBasic x req = Inr u" and ib: "GetBlock (w_fin w) ?h = Inr ib"
    using run by (auto simp: AddFinalitySig_def bindR_eq_Inr)
  obtain pk pr sig where req: "mafs_FpBtcPk req = Some pk" "mafs_PubRand req = Some pr"
    "mafs_FinalitySig req = Some sig" "pk_size pk = BIP340PubKeyLen" "length sig = SchnorrEOTSSigLen"
    "length (mafs_BlockAppHash req) = 32"
    using ValidateBasic_ok [OF basic] by blast
  have blk: "fs_blocks (w_fin w) ?h = Some ib"
    using ib by (auto simp: GetBlock_def split: option.splits if_splits)
  then have le: "?h \<le> cx_height c" using inv(1) by (auto simp: voting_inv_def)
  note sig = GetSig_ok [OF inv(1) le]
  obtain fp prc u' where fp: "GetFinalityProvider (w_bs w) pk = Inr fp" "\<not> IsSlashed fp"
    and chk: "GetVotingPower (w_fin w) pk ?h \<noteq> 0" "kv_get (fs_votes (w_fin w)) (?h, pk) \<noteq> Some sig"
    and ver: "VerifyFinalitySig x req prc = Inr u'"
    and br: "(if ib_AppHash ib \<noteq> mafs_BlockAppHash req
      then add_fork_sig c req pk ib (w\<lparr>w_fin := SetPubRand pk ?h pr (w_fin w)\<rparr>)
      else add_canonical_sig en c req pk sig fp (w\<lparr>w_fin := SetPubRand pk ?h pr (w_fin w)\<rparr>)) = Inr w'"
    using run by (simp add: AddFinalitySig_def req ib sig bindR_eq_Inr guardR_eq_Inr Let_def) blast
  have "vote_effect req pk pr sig ib w w'"
    using br add_fork_sig_effect [OF inv(1) le inv(2) req(1) fp] add_canonical_sig_effect [OF inv(1) le inv(2) fp]
    by (auto split: if_splits)
  moreover have "vote_checked x c req pk pr sig ib w"
    using req fp blk chk VerifyFinalitySig_ok [OF ver req(1,2,3)] by (auto simp: vote_checked_def slashed_def)
  ultimately show ?thesis by blast
qed

subsection \<open>Accountability\<close>

text \<open>A provider with a vote and a vote for a fork at the same height is slashed, and the evidence
  holds both signatures.\<close>

definition accountable :: "ext \<Rightarrow> 'h world \<Rightarrow> bool" where
  "accountable x w \<longleftrightarrow> (\<forall>pk h. HasSig (w_fin w) h pk \<and> HasEvidence (w_fin w) pk h \<longrightarrow>
     slashed w pk \<and> (\<exists>e. kv_get (fs_evidence (w_fin w)) (pk, h) = Some e \<and> IsSlashable x e))"

lemma IsSlashable_iff:
  "IsSlashable x e \<longleftrightarrow> Evidence_ValidateBasic x e = Inr () \<and> ev_CanonicalFinalitySig e \<noteq> None"
  by (auto simp: IsSlashable_def split: sum.splits)

lemma ValidateBasic_canonical:
  "Evidence_ValidateBasic x (e\<lparr>ev_CanonicalFinalitySig := s\<rparr>) = Evidence_ValidateBasic x e"
  by (cases "ev_FpBtcPk e") (simp_all add: Evidence_ValidateBasic_def)

lemma fork_evidence_valid:
  assumes "vote_checked x c req pk pr sig ib w" "voting_inv x c w"
  shows "Evidence_ValidateBasic x (fork_evidence req ib s) = Inr ()"
  using assms by (auto simp: vote_checked_def Evidence_ValidateBasic_def fork_evidence_def voting_inv_def)

lemma vote_keeps_inv:
  assumes inv: "voting_inv x c w" and chk: "vote_checked x c req pk pr sig ib w"
    and eff: "vote_effect req pk pr sig ib w w'"
  shows "voting_inv x c w'"
proof -
  let ?h = "mafs_BlockHeight req"
  have le: "?h \<le> cx_height c" using inv chk by (auto simp: voting_inv_def vote_checked_def)
  note ev = fork_evidence_valid [OF chk inv]
  have fin: "stores_wf (w_fin w')" using inv eff
    by (auto simp: voting_inv_def vote_effect_def Let_def stores_wf_def split: option.splits)
  show ?thesis
    unfolding voting_inv_def
  proof (intro conjI allI impI fin)
    show "fps_inv (w_bs w')" using eff by (simp add: vote_effect_def Let_def)
  next
    fix h q s assume "kv_get (fs_votes (w_fin w')) (h, q) = Some s"
    then have "kv_get (fs_votes (w_fin w)) (h, q) = Some s \<or> q = pk \<and> s = sig"
      using eff by (auto simp: vote_effect_def Let_def split: if_splits)
    then show "length s = SchnorrEOTSSigLen" "pk_size q = BIP340PubKeyLen"
      using inv chk by (auto simp: voting_inv_def vote_checked_def)
  next
    fix q h e assume e: "kv_get (fs_evidence (w_fin w')) (q, h) = Some e"
    then have "kv_get (fs_evidence (w_fin w)) (q, h) = Some e \<or>
        q = pk \<and> h = ?h \<and> ((\<exists>s. e = fork_evidence req ib s) \<or>
          (\<exists>e0 s. kv_get (fs_evidence (w_fin w)) (pk, ?h) = Some e0 \<and> e = e0\<lparr>ev_CanonicalFinalitySig := s\<rparr>))"
      using eff by (auto simp: vote_effect_def Let_def split: if_splits option.splits)
    then show "ev_FpBtcPk e = Some q" "ev_BlockHeight e = h" "h \<le> cx_height c" "Evidence_ValidateBasic x e = Inr ()"
      using inv ev le chk
      by (auto simp: voting_inv_def ValidateBasic_canonical fork_evidence_def vote_checked_def)
  next
    fix h b assume "fs_blocks (w_fin w') h = Some b"
    then show "h \<le> cx_height c" "length (ib_AppHash b) = 32"
      using inv eff by (auto simp: voting_inv_def vote_effect_def Let_def)
  qed
qed

lemma vote_effect_stores:
  assumes "vote_effect req pk pr sig ib w w'"
  shows "HasSig (w_fin w') h q \<longleftrightarrow>
      HasSig (w_fin w) h q \<or> (ib_AppHash ib = mafs_BlockAppHash req \<and> h = mafs_BlockHeight req \<and> q = pk)"
    "HasEvidence (w_fin w') q h \<longleftrightarrow>
      HasEvidence (w_fin w) q h \<or> (ib_AppHash ib \<noteq> mafs_BlockAppHash req \<and> h = mafs_BlockHeight req \<and> q = pk)"
    "slashed w' pk \<longleftrightarrow> (if ib_AppHash ib \<noteq> mafs_BlockAppHash req
      then HasSig (w_fin w) (mafs_BlockHeight req) pk else HasEvidence (w_fin w) pk (mafs_BlockHeight req))"
    "q \<noteq> pk \<Longrightarrow> GetFinalityProvider (w_bs w') q = GetFinalityProvider (w_bs w) q"
    "fs_blocks (w_fin w') = fs_blocks (w_fin w)" "fs_voting_power (w_fin w') = fs_voting_power (w_fin w)"
  using assms by (auto simp: vote_effect_def Let_def HasSig_def HasEvidence_def kv_has_def split: option.splits)

lemma vote_effect_evidence:
  assumes "vote_effect req pk pr sig ib w w'" "HasSig (w_fin w') h q" "HasEvidence (w_fin w') q h" "\<not> slashed w q"
    and "slashed w' q"
  shows "\<exists>e. kv_get (fs_evidence (w_fin w')) (q, h) = Some e \<and>
    (h = mafs_BlockHeight req \<longrightarrow> ev_CanonicalFinalitySig e \<noteq> None)"
  using assms by (cases "q = pk") (auto simp: vote_effect_def Let_def HasSig_def HasEvidence_def kv_has_def
      fork_evidence_def slashed_def split: option.splits if_splits)

lemma vote_keeps_accountable:
  assumes inv: "voting_inv x c w" "accountable x w" and chk: "vote_checked x c req pk pr sig ib w"
    and eff: "vote_effect req pk pr sig ib w w'"
  shows "accountable x w'"
  unfolding accountable_def
proof (intro allI impI, elim conjE)
  fix q h assume q: "HasSig (w_fin w') h q" "HasEvidence (w_fin w') q h"
  note st = vote_effect_stores [OF eff] and inv' = vote_keeps_inv [OF inv(1) chk eff]
  show "slashed w' q \<and> (\<exists>e. kv_get (fs_evidence (w_fin w')) (q, h) = Some e \<and> IsSlashable x e)"
  proof (cases "HasSig (w_fin w) h q \<and> HasEvidence (w_fin w) q h")
    case True
    then have old: "slashed w q" "\<exists>e. kv_get (fs_evidence (w_fin w)) (q, h) = Some e \<and> IsSlashable x e"
      using inv(2) by (auto simp: accountable_def)
    then have "q \<noteq> pk" using chk by (auto simp: vote_checked_def)
    moreover from this have "kv_get (fs_evidence (w_fin w')) (q, h) = kv_get (fs_evidence (w_fin w)) (q, h)"
      using eff by (auto simp: vote_effect_def Let_def split: option.splits)
    ultimately show ?thesis using old st(4) [of q] by (simp add: slashed_def)
  next
    case False
    then have pk: "q = pk" "h = mafs_BlockHeight req" using q st(1,2) by auto
    have sl: "slashed w' pk" using False q pk st(1-3) by (auto split: if_splits)
    obtain e where e: "kv_get (fs_evidence (w_fin w')) (q, h) = Some e" "ev_CanonicalFinalitySig e \<noteq> None"
      using vote_effect_evidence [OF eff q] sl chk pk by (auto simp: vote_checked_def)
    then have "Evidence_ValidateBasic x e = Inr ()" using inv' by (auto simp: voting_inv_def)
    with e sl pk show ?thesis by (auto simp: IsSlashable_iff)
  qed
qed

subsection \<open>Properties\<close>

text \<open>C3. Equivocation is always caught: \<open>AddFinalitySig\<close> keeps the invariant that a provider with a
  vote for the canonical block and a vote for a fork at one height, in whichever order they arrived,
  is slashed and that its evidence is slashable (it is valid and holds both signatures).\<close>

theorem equivocation_slashed:
  assumes "voting_inv x c w" "accountable x w" "0 < cx_height c" "AddFinalitySig x en c req w = Inr w'"
  shows "voting_inv x c w' \<and>
    (\<forall>pk h. HasSig (w_fin w') h pk \<and> HasEvidence (w_fin w') pk h \<longrightarrow>
      slashed w' pk \<and> (\<exists>e. kv_get (fs_evidence (w_fin w')) (pk, h) = Some e \<and> IsSlashable x e))"
  using AddFinalitySig_effect [OF assms(1,3,4)] vote_keeps_inv [OF assms(1)]
    vote_keeps_accountable [OF assms(1,2)] unfolding accountable_def by blast

text \<open>C20. An accepted vote for the indexed block is stored; an accepted vote for a fork is not, and
  becomes evidence. The provider is slashed by it exactly when it had already voted the other way at
  that height. No other provider, vote, evidence, block or voting power changes.\<close>

theorem vote_outcome:
  assumes "voting_inv x c w" "0 < cx_height c" "AddFinalitySig x en c req w = Inr w'"
    and "mafs_FpBtcPk req = Some pk" "fs_blocks (w_fin w) (mafs_BlockHeight req) = Some ib"
  shows "(\<forall>h q. HasSig (w_fin w') h q \<longleftrightarrow> HasSig (w_fin w) h q \<or>
      (ib_AppHash ib = mafs_BlockAppHash req \<and> h = mafs_BlockHeight req \<and> q = pk)) \<and>
    (\<forall>h q. HasEvidence (w_fin w') q h \<longleftrightarrow> HasEvidence (w_fin w) q h \<or>
      (ib_AppHash ib \<noteq> mafs_BlockAppHash req \<and> h = mafs_BlockHeight req \<and> q = pk)) \<and>
    (slashed w' pk \<longleftrightarrow> (if ib_AppHash ib \<noteq> mafs_BlockAppHash req
      then HasSig (w_fin w) (mafs_BlockHeight req) pk else HasEvidence (w_fin w) pk (mafs_BlockHeight req))) \<and>
    (\<forall>q. q \<noteq> pk \<longrightarrow> GetFinalityProvider (w_bs w') q = GetFinalityProvider (w_bs w) q) \<and>
    fs_blocks (w_fin w') = fs_blocks (w_fin w) \<and> fs_voting_power (w_fin w') = fs_voting_power (w_fin w)"
proof -
  obtain pk' pr sig ib' where chk: "vote_checked x c req pk' pr sig ib' w" and eff: "vote_effect req pk' pr sig ib' w w'"
    using AddFinalitySig_effect [OF assms(1-3)] by blast
  have [simp]: "pk' = pk" "ib' = ib" using chk assms(4,5) by (auto simp: vote_checked_def)
  from vote_effect_stores [OF eff] show ?thesis by simp
qed

text \<open>C32. A vote that passes the checks of its form, height and block is refused, in this order, when
  the provider is deleted, unknown, slashed or jailed, when it has no voting power at the height, and
  when the same vote is stored already.\<close>

theorem vote_refused:
  assumes "voting_inv x c w" "AddFinalitySig_ValidateBasic x req = Inr ()"
    and "validateActivationHeight (w_fin w) (mafs_BlockHeight req) = Inr ah"
    and "GetBlock (w_fin w) (mafs_BlockHeight req) = Inr ib" "ShouldAcceptSigForHeight c ib"
    and "mafs_FpBtcPk req = Some pk"
  shows "(IsFinalityProviderDeleted (w_bs w) pk \<longrightarrow>
      AddFinalitySig x en c req w = Inl (Finality ErrFinalityProviderIsDeleted)) \<and>
    (\<not> IsFinalityProviderDeleted (w_bs w) pk \<longrightarrow> (case GetFinalityProvider (w_bs w) pk of
        Inl e \<Rightarrow> AddFinalitySig x en c req w = Inl e
      | Inr fp \<Rightarrow>
          if IsSlashed fp then AddFinalitySig x en c req w = Inl (BTCStaking ErrFpAlreadySlashed)
          else if IsJailed fp then AddFinalitySig x en c req w = Inl (BTCStaking ErrFpAlreadyJailed)
          else if GetVotingPower (w_fin w) pk (mafs_BlockHeight req) = 0
            then AddFinalitySig x en c req w = Inl (Finality ErrInvalidFinalitySig)
          else kv_get (fs_votes (w_fin w)) (mafs_BlockHeight req, pk) = mafs_FinalitySig req \<longrightarrow>
            AddFinalitySig x en c req w = Inl (Finality ErrDuplicatedFinalitySig)))"
proof -
  obtain pr sig where req: "mafs_PubRand req = Some pr" "mafs_FinalitySig req = Some sig"
    using ValidateBasic_ok [OF assms(2)] by blast
  have "fs_blocks (w_fin w) (mafs_BlockHeight req) = Some ib"
    using assms(4) by (auto simp: GetBlock_def split: option.splits if_splits)
  then have "mafs_BlockHeight req \<le> cx_height c" using assms(1) by (auto simp: voting_inv_def)
  note sig = GetSig_ok [OF assms(1) this]
  show ?thesis
    by (simp add: AddFinalitySig_def assms(2-6) req sig split: sum.split)
qed

subsection \<open>A provider that equivocates\<close>

definition vote_msg :: "btcpk \<Rightarrow> u64 \<Rightarrow> char \<Rightarrow> char \<Rightarrow> MsgAddFinalitySig" where
  "vote_msg pk h hash sig = \<lparr>mafs_Signer = ''signer'', mafs_FpBtcPk = Some pk, mafs_BlockHeight = h,
     mafs_PubRand = Some (replicate 32 CHR ''r''), mafs_Proof = Some \<lparr>pf_Total = 100, pf_Index = h - 10, pf_Bytes = []\<rparr>,
     mafs_BlockAppHash = replicate 32 hash, mafs_FinalitySig = Some (replicate 32 sig)\<rparr>"

definition vote_world :: "unit world" where
  "vote_world = \<lparr>w_bs = staked_bs, w_fin = (committed_fin pkA)\<lparr>fs_voting_power := [((12, pkA), 300)],
     fs_blocks := [12 \<mapsto> \<lparr>ib_Height = 12, ib_AppHash = replicate 32 CHR ''h'', ib_Finalized = False\<rparr>]\<rparr>,
     w_ext = (), w_events = []\<rparr>"

lemma vote_world_inv: "voting_inv x (sample_ctx 12) vote_world" "accountable x vote_world"
  "0 < cx_height (sample_ctx 12)"
  using staked_bs_fps by (auto simp: voting_inv_def accountable_def vote_world_def committed_fin_def empty_fin_def
      stores_wf_def HasSig_def kv_has_def kv_wf_Cons cx_height_def sample_ctx_def)

theorem equivocation_slashed_witness:
  "\<exists>w1 w2. AddFinalitySig sample_ext sample_env (sample_ctx 12) (vote_msg pkA 12 CHR ''h'' CHR ''s'') vote_world = Inr w1 \<and>
    AddFinalitySig sample_ext sample_env (sample_ctx 12) (vote_msg pkA 12 CHR ''f'' CHR ''t'') w1 = Inr w2 \<and>
    slashed w2 pkA"
proof -
  let ?c = "sample_ctx 12"
  let ?r1 = "AddFinalitySig sample_ext sample_env ?c (vote_msg pkA 12 CHR ''h'' CHR ''s'') vote_world"
  let ?r2 = "bindR ?r1 (AddFinalitySig sample_ext sample_env ?c (vote_msg pkA 12 CHR ''f'' CHR ''t''))"
  have run: "case ?r2 of Inl _ \<Rightarrow> False | Inr w \<Rightarrow> HasSig (w_fin w) 12 pkA \<and> HasEvidence (w_fin w) pkA 12"
    by code_simp
  then obtain w1 w2 where r: "?r1 = Inr w1" and r2: "AddFinalitySig sample_ext sample_env ?c
      (vote_msg pkA 12 CHR ''f'' CHR ''t'') w1 = Inr w2" "HasSig (w_fin w2) 12 pkA" "HasEvidence (w_fin w2) pkA 12"
    by (cases ?r1; cases ?r2) auto
  have "voting_inv sample_ext ?c w1" "accountable sample_ext w1"
    using equivocation_slashed [OF vote_world_inv r] by (simp_all add: accountable_def)
  with equivocation_slashed [OF this vote_world_inv(3) r2(1)] r r2 show ?thesis by blast
qed

theorem vote_outcome_witness:
  "\<exists>w1. AddFinalitySig sample_ext sample_env (sample_ctx 12) (vote_msg pkA 12 CHR ''h'' CHR ''s'') vote_world = Inr w1 \<and>
    HasSig (w_fin w1) 12 pkA \<and> \<not> slashed w1 pkA"
proof -
  let ?c = "sample_ctx 12"
  let ?r1 = "AddFinalitySig sample_ext sample_env ?c (vote_msg pkA 12 CHR ''h'' CHR ''s'') vote_world"
  have "case ?r1 of Inl _ \<Rightarrow> False | Inr w \<Rightarrow> True" by code_simp
  then obtain w1 where r: "?r1 = Inr w1" by (cases ?r1) auto
  from vote_outcome [OF vote_world_inv(1,3) r] show ?thesis using r
    by (simp add: vote_msg_def vote_world_def committed_fin_def empty_fin_def HasEvidence_def kv_has_def)
qed

theorem vote_refused_witness:
  "AddFinalitySig sample_ext sample_env (sample_ctx 12) (vote_msg pkB 12 CHR ''h'' CHR ''s'') vote_world =
    Inl (Finality ErrInvalidFinalitySig)"
proof -
  let ?req = "vote_msg pkB 12 CHR ''h'' CHR ''s''"
  let ?ib = "\<lparr>ib_Height = 12, ib_AppHash = replicate 32 CHR ''h'', ib_Finalized = False\<rparr>"
  have chk: "AddFinalitySig_ValidateBasic sample_ext ?req = Inr ()"
    "validateActivationHeight (w_fin vote_world) (mafs_BlockHeight ?req) = Inr 1"
    "GetBlock (w_fin vote_world) (mafs_BlockHeight ?req) = Inr ?ib"
    "ShouldAcceptSigForHeight (sample_ctx 12) ?ib"
    "mafs_FpBtcPk ?req = Some pkB"
    by code_simp+
  have fp: "\<not> IsFinalityProviderDeleted (w_bs vote_world) pkB"
    "GetFinalityProvider (w_bs vote_world) pkB = Inr (sample_fp pkB)" "\<not> IsSlashed (sample_fp pkB)"
    "\<not> IsJailed (sample_fp pkB)" "GetVotingPower (w_fin vote_world) pkB (mafs_BlockHeight ?req) = 0"
    by code_simp+
  from vote_refused [OF vote_world_inv(1) chk, of sample_env] fp show ?thesis by simp
qed

end
