(* ===== verification/Liveness.thy ===== *)
theory Liveness
  imports Voting "HOL-Library.Signed_Division"
begin

text \<open>
  Liveness of finality providers (\<open>keeper/liveness.go\<close>, \<open>keeper/signing_info.go\<close>,
  \<open>types/signing_info.go\<close>): the bitmap of missed blocks kept in chunks, the counter of a provider's
  signing info, jailing of sluggish providers and the handler of \<open>MsgUnjailFinalityProvider\<close>.
  A chunk is the set of its bits; the bitset library encodes and decodes it. The \<open>int64\<close> values are
  integers; Go's division truncates.
\<close>

subsection \<open>The bitmap\<close>

definition MissedBlockBitmapChunkSize :: int where
  "MissedBlockBitmapChunkSize = 1024"

text \<open>\<open>uint(i)\<close>\<close>

definition as_uint :: "int \<Rightarrow> nat" where
  "as_uint i = unat (word_of_int i :: u64)"

definition getMissedBlockBitmapChunk :: "fin_state \<Rightarrow> btcpk \<Rightarrow> int \<Rightarrow> nat set option" where
  "getMissedBlockBitmapChunk f pk chunkIndex = kv_get (fs_missed_bitmap f) (pk, word_of_int chunkIndex)"

definition SetMissedBlockBitmapChunk :: "btcpk \<Rightarrow> int \<Rightarrow> nat set \<Rightarrow> fin_state \<Rightarrow> fin_state" where
  "SetMissedBlockBitmapChunk pk chunkIndex chunk f =
     f\<lparr>fs_missed_bitmap := kv_set (pk, word_of_int chunkIndex) chunk (fs_missed_bitmap f)\<rparr>"

definition GetMissedBlockBitmapValue :: "fin_state \<Rightarrow> btcpk \<Rightarrow> int \<Rightarrow> bool" where
  "GetMissedBlockBitmapValue f pk index =
     (let chunkIndex = index sdiv MissedBlockBitmapChunkSize;
          bs = (case getMissedBlockBitmapChunk f pk chunkIndex of None \<Rightarrow> {} | Some chunk \<Rightarrow> chunk);
          bitIndex = index smod MissedBlockBitmapChunkSize
      in as_uint bitIndex \<in> bs)"

definition SetMissedBlockBitmapValue :: "btcpk \<Rightarrow> int \<Rightarrow> bool \<Rightarrow> fin_state \<Rightarrow> fin_state" where
  "SetMissedBlockBitmapValue pk index missed f =
     (let chunkIndex = index sdiv MissedBlockBitmapChunkSize;
          bs = (case getMissedBlockBitmapChunk f pk chunkIndex of None \<Rightarrow> {} | Some chunk \<Rightarrow> chunk);
          bitIndex = as_uint (index smod MissedBlockBitmapChunkSize);
          updatedChunk = (if missed then insert bitIndex bs else bs - {bitIndex})
      in SetMissedBlockBitmapChunk pk chunkIndex updatedChunk f)"

definition DeleteMissedBlockBitmap :: "btcpk \<Rightarrow> fin_state \<Rightarrow> fin_state" where
  "DeleteMissedBlockBitmap pk f =
     f\<lparr>fs_missed_bitmap := filter (\<lambda>e. fst (fst e) \<noteq> pk) (fs_missed_bitmap f)\<rparr>"

text \<open>The inner loop over the bits of a chunk. The callback returns its state and whether to stop;
  stopping leaves the inner loop only.\<close>

fun iterate_chunk ::
  "(int \<Rightarrow> bool \<Rightarrow> 'a \<Rightarrow> 'a \<times> bool) \<Rightarrow> nat set \<Rightarrow> nat list \<Rightarrow> int \<times> 'a \<Rightarrow> int \<times> 'a" where
  "iterate_chunk cb bs [] s = s"
| "iterate_chunk cb bs (i # is) s =
     (let (a, stop) = cb (fst s) (i \<in> bs) (snd s)
      in if stop then (fst s, a) else iterate_chunk cb bs is (fst s + 1, a))"

definition IterateMissedBlockBitmap ::
  "fin_state \<Rightarrow> btcpk \<Rightarrow> (int \<Rightarrow> bool \<Rightarrow> 'a \<Rightarrow> 'a \<times> bool) \<Rightarrow> 'a \<Rightarrow> 'a" where
  "IterateMissedBlockBitmap f pk cb a =
     snd (foldl (\<lambda>s e. iterate_chunk cb (snd e) [0..<nat MissedBlockBitmapChunkSize] s) (0, a)
       (kv_sub pk (fs_missed_bitmap f)))"

text \<open>The list of \<open>MissedBlock\<close> values, all with \<open>Missed\<close> true, by their index.\<close>

definition GetFinalityProviderMissedBlocks :: "fin_state \<Rightarrow> btcpk \<Rightarrow> int list" where
  "GetFinalityProviderMissedBlocks f pk =
     IterateMissedBlockBitmap f pk (\<lambda>index missed missedBlocks.
       (if missed then missedBlocks @ [index] else missedBlocks, False)) []"

subsection \<open>Signing info\<close>

definition IncrementMissedBlocksCounter :: "FinalityProviderSigningInfo \<Rightarrow> FinalityProviderSigningInfo" where
  "IncrementMissedBlocksCounter si = si\<lparr>fsi_MissedBlocksCounter := fsi_MissedBlocksCounter si + 1\<rparr>"

definition DecrementMissedBlocksCounter :: "FinalityProviderSigningInfo \<Rightarrow> FinalityProviderSigningInfo" where
  "DecrementMissedBlocksCounter si = si\<lparr>fsi_MissedBlocksCounter := fsi_MissedBlocksCounter si - 1\<rparr>"

definition ResetMissedBlocksCounter :: "FinalityProviderSigningInfo \<Rightarrow> FinalityProviderSigningInfo" where
  "ResetMissedBlocksCounter si = si\<lparr>fsi_MissedBlocksCounter := 0\<rparr>"

text \<open>\<open>time.Time.IsZero\<close>: the first second of year 1, counted from the Unix epoch.\<close>

definition zero_time :: int where
  "zero_time = - 62135596800 * 10 ^ 9"

definition IsJailingPeriodPassed :: "FinalityProviderSigningInfo \<Rightarrow> int \<Rightarrow> bool result" where
  "IsJailingPeriodPassed si curBlockTime =
     (if fsi_JailedUntil si = zero_time then Inl (BTCStaking ErrFpNotJailed)
      else Inr (fsi_JailedUntil si < curBlockTime))"

definition SigningInfo_Validate :: "FinalityProviderSigningInfo \<Rightarrow> unit result" where
  "SigningInfo_Validate fpsi =
     guardR (pk_size (fsi_FpBtcPk fpsi) \<noteq> BIP340PubKeyLen) (Errorf ''invalid signing info. finality provider BTC public key length'')
    (guardR (fsi_StartHeight fpsi < 0) (Errorf ''invalid start height'')
    (guardR (fsi_MissedBlocksCounter fpsi < 0) (Errorf ''invalid missed blocks counter'')
    (Inr ())))"

text \<open>The new store, whether the signing info changed, and the signing info, which the caller saves.\<close>

definition UpdateSigningInfo ::
  "fin_state \<Rightarrow> btcpk \<Rightarrow> bool \<Rightarrow> int \<Rightarrow> (fin_state \<times> bool \<times> FinalityProviderSigningInfo) result" where
  "UpdateSigningInfo f pk missed height = (case fs_signing_tracker f pk of
       None \<Rightarrow> Inl (Errorf ''the signing info is not created'')
     | Some signInfo \<Rightarrow>
         let signedBlocksWindow = fpar_SignedBlocksWindow (fin_GetParams f) in
         if fsi_StartHeight signInfo > height then Inr (f, False, signInfo)
         else guardR (signedBlocksWindow = 0) (Panic ''integer divide by zero'')
        (let index = (height - fsi_StartHeight signInfo) smod signedBlocksWindow;
             previous = GetMissedBlockBitmapValue f pk index
         in if \<not> previous \<and> missed
            then Inr (SetMissedBlockBitmapValue pk index True f, True, IncrementMissedBlocksCounter signInfo)
            else if previous \<and> \<not> missed
            then Inr (SetMissedBlockBitmapValue pk index False f, True, DecrementMissedBlocksCounter signInfo)
            else Inr (f, False, signInfo)))"

definition jailSluggishFinalityProvider :: "ctx \<Rightarrow> btcpk \<Rightarrow> 'h world \<Rightarrow> 'h world result" where
  "jailSluggishFinalityProvider c pk w =
     bindR (JailFinalityProvider c pk (w_bs w)) (\<lambda>b.
     Inr (emit (EventJailedFinalityProvider pk) (w\<lparr>w_bs := b\<rparr>)))"

definition set_signing_info :: "btcpk \<Rightarrow> FinalityProviderSigningInfo \<Rightarrow> fin_state \<Rightarrow> fin_state" where
  "set_signing_info pk si f = f\<lparr>fs_signing_tracker := (fs_signing_tracker f)(pk \<mapsto> si)\<rparr>"

definition HandleFinalityProviderLiveness ::
  "ext \<Rightarrow> ctx \<Rightarrow> btcpk \<Rightarrow> bool \<Rightarrow> int \<Rightarrow> 'h world \<Rightarrow> 'h world result" where
  "HandleFinalityProviderLiveness x c pk missed height w =
     (let params = fin_GetParams (w_fin w) in
      bindR (GetFinalityProvider (w_bs w) pk) (\<lambda>fp.
      if IsSlashed fp \<or> IsJailed fp then Inr w
      else bindR (UpdateSigningInfo (w_fin w) pk missed height) (\<lambda>(f1, updated, signInfo).
           bindR (MinSignedPerWindowInt x params) (\<lambda>minSignedPerWindow.
           let signedBlocksWindow = fpar_SignedBlocksWindow params;
               minHeight = fsi_StartHeight signInfo + signedBlocksWindow;
               maxMissed = signedBlocksWindow - minSignedPerWindow;
               w1 = w\<lparr>w_fin := f1\<rparr>
           in if height > minHeight \<and> fsi_MissedBlocksCounter signInfo > maxMissed
              then bindR (jailSluggishFinalityProvider c pk w1) (\<lambda>w2.
                   let signInfo1 = signInfo\<lparr>fsi_JailedUntil := cx_Time c + fpar_JailDuration params,
                                             fsi_MissedBlocksCounter := 0\<rparr>
                   in Inr (w2\<lparr>w_fin := set_signing_info pk signInfo1 (DeleteMissedBlockBitmap pk (w_fin w2))\<rparr>))
              else if updated then Inr (w1\<lparr>w_fin := set_signing_info pk signInfo f1\<rparr>)
              else Inr w1))))"

definition HandleLiveness :: "ext \<Rightarrow> ctx \<Rightarrow> int \<Rightarrow> 'h world \<Rightarrow> 'h world result" where
  "HandleLiveness x c height w =
     bindR (GetVotingPowerTableOrdered (w_fin w) (word_of_int height)) (\<lambda>vpTableOrdered.
     bindR (GetVoters (w_fin w) (word_of_int height)) (\<lambda>voterBTCPKs.
     foldR (\<lambda>w (pk, vp).
       panic_on_error (HandleFinalityProviderLiveness x c pk (pk \<notin> voterBTCPKs) height w)) w vpTableOrdered))"

record MsgUnjailFinalityProvider =
  mu_Signer :: string
  mu_FpBtcPk :: "btcpk option"

definition Msg_UnjailFinalityProvider :: "ctx \<Rightarrow> MsgUnjailFinalityProvider \<Rightarrow> 'h world \<Rightarrow> 'h world result" where
  "Msg_UnjailFinalityProvider c req w = (case mu_FpBtcPk req of
       None \<Rightarrow> Inl (Panic ''nil FpBtcPk'')
     | Some fpPk \<Rightarrow>
         bindR (GetFinalityProvider (w_bs w) fpPk) (\<lambda>fp.
         guardR (fp_Addr fp \<noteq> mu_Signer req) (Errorf ''the address does not match the signer of the requestion'')
        (guardR (\<not> IsJailed fp) (BTCStaking ErrFpNotJailed)
        (bindR (option_to_result (Errorf ''failed to get the signing info'') (fs_signing_tracker (w_fin w) fpPk)) (\<lambda>info.
         bindR (IsJailingPeriodPassed info (cx_Time c)) (\<lambda>jailingPeriodPassed.
         guardR (\<not> jailingPeriodPassed) (Finality ErrJailingPeriodNotPassed)
        (bindR (UnjailFinalityProvider c fpPk (w_bs w)) (\<lambda>b.
         Inr (w\<lparr>w_bs := b\<rparr>)))))))))"

subsection \<open>The bitmap as an interface\<close>

text \<open>Bits addressed by non-negative \<open>int64\<close> indices.\<close>

definition bit_index :: "int \<Rightarrow> bool" where
  "bit_index i \<longleftrightarrow> 0 \<le> i \<and> i < 2 ^ 63"

locale missed_bitmap =
  fixes bit_value :: "'s \<Rightarrow> btcpk \<Rightarrow> int \<Rightarrow> bool"
    and set_value :: "btcpk \<Rightarrow> int \<Rightarrow> bool \<Rightarrow> 's \<Rightarrow> 's"
    and clear :: "btcpk \<Rightarrow> 's \<Rightarrow> 's"
  assumes value_after_set: "bit_index i \<Longrightarrow> bit_index j \<Longrightarrow>
      bit_value (set_value pk i v s) q j = (if q = pk \<and> j = i then v else bit_value s q j)"
    and value_after_clear: "bit_value (clear pk s) q j = (q \<noteq> pk \<and> bit_value s q j)"
begin

definition ones :: "'s \<Rightarrow> btcpk \<Rightarrow> int set" where
  "ones s pk = {i. bit_index i \<and> bit_value s pk i}"

lemma finite_ones [simp]: "finite (ones s pk)"
proof (rule finite_subset)
  show "ones s pk \<subseteq> {0..<2 ^ 63}" by (rule subsetI) (simp only: ones_def bit_index_def mem_Collect_eq atLeastLessThan_iff conj_assoc)
qed (rule finite_atLeastLessThan_int)

lemma ones_set:
  "bit_index i \<Longrightarrow> ones (set_value pk i v s) q =
    (if q = pk then (if v then insert i (ones s q) else ones s q - {i}) else ones s q)"
  by (auto simp: ones_def value_after_set split: if_splits)

lemma ones_clear: "ones (clear pk s) q = (if q = pk then {} else ones s q)"
  by (auto simp: ones_def value_after_clear)

text \<open>Setting an unset bit adds one to the number of set bits, clearing a set one takes one away.\<close>

lemma card_set:
  "bit_index i \<Longrightarrow> \<not> bit_value s pk i \<Longrightarrow> card (ones (set_value pk i True s) pk) = card (ones s pk) + 1"
proof -
  assume i: "bit_index i" "\<not> bit_value s pk i"
  then have "i \<notin> ones s pk" by (simp add: ones_def)
  then show ?thesis using i by (simp add: ones_set)
qed

lemma card_unset:
  "bit_index i \<Longrightarrow> bit_value s pk i \<Longrightarrow>
    int (card (ones (set_value pk i False s) pk)) = int (card (ones s pk)) - 1"
proof -
  assume i: "bit_index i" "bit_value s pk i"
  then have "i \<in> ones s pk" by (simp add: ones_def)
  with finite_ones have suc: "Suc (card (ones s pk - {i})) = card (ones s pk)" by (rule card_Suc_Diff1)
  have "ones (set_value pk i False s) pk = ones s pk - {i}" using i(1) by (simp add: ones_set)
  then have "Suc (card (ones (set_value pk i False s) pk)) = card (ones s pk)" using suc by (simp only:)
  then show ?thesis by linarith
qed

end

lemma bit_index_parts:
  assumes "bit_index i"
  shows "i sdiv MissedBlockBitmapChunkSize = i div 1024" "as_uint (i smod MissedBlockBitmapChunkSize) = nat (i mod 1024)"
    "uint (word_of_int (i div 1024) :: u64) = i div 1024"
proof -
  have i: "0 \<le> i" "i < 2 ^ 63" using assms by (auto simp: bit_index_def)
  then have q: "i sdiv 1024 = i div 1024" by (cases "i = 0") (simp_all add: signed_divide_int_def)
  then show "i sdiv MissedBlockBitmapChunkSize = i div 1024" by (simp add: MissedBlockBitmapChunkSize_def)
  have m: "i smod MissedBlockBitmapChunkSize = i mod 1024"
    using i by (cases "i = 0") (simp_all add: MissedBlockBitmapChunkSize_def signed_modulo_int_def)
  have "0 \<le> i mod 1024" "i mod 1024 < 1024" by simp_all
  then have "i mod 1024 mod 2 ^ 64 = i mod 1024" by (intro mod_pos_pos_trivial) simp_all
  then show "as_uint (i smod MissedBlockBitmapChunkSize) = nat (i mod 1024)"
    unfolding m by (simp add: as_uint_def unat_eq_nat_uint uint_word_of_int)
  have "i div 1024 \<le> i" using i(1) int_div_less_self [of i 1024] by (cases "i = 0") simp_all
  then have "0 \<le> i div 1024" "i div 1024 < 2 ^ 64" using i by (simp_all add: pos_imp_zdiv_nonneg_iff)
  then show "uint (word_of_int (i div 1024) :: u64) = i div 1024" by (simp add: uint_word_of_int)
qed

lemma bit_index_eq:
  assumes "bit_index i" "bit_index j" "(word_of_int (i div 1024) :: u64) = word_of_int (j div 1024)"
    "nat (i mod 1024) = nat (j mod 1024)"
  shows "i = j"
proof -
  have "uint (word_of_int (i div 1024) :: u64) = uint (word_of_int (j div 1024) :: u64)"
    by (simp only: assms(3))
  then have "i div 1024 = j div 1024" by (simp only: bit_index_parts(3) [OF assms(1)] bit_index_parts(3) [OF assms(2)])
  moreover have "i mod 1024 = j mod 1024"
    using assms(4) by (subst (asm) eq_nat_nat_iff) (rule pos_mod_sign, simp)+
  ultimately show ?thesis
    using div_mult_mod_eq [of i 1024] div_mult_mod_eq [of j 1024] by linarith
qed

lemma kv_get_filter: "kv_get (filter (\<lambda>e. P (fst e)) s) k = (if P k then kv_get s k else None)"
  by (induction s) auto

lemma bitmap_value:
  assumes "bit_index i"
  shows "GetMissedBlockBitmapValue f pk i \<longleftrightarrow>
    (\<exists>chunk. kv_get (fs_missed_bitmap f) (pk, word_of_int (i div 1024)) = Some chunk \<and> nat (i mod 1024) \<in> chunk)"
  by (simp add: GetMissedBlockBitmapValue_def getMissedBlockBitmapChunk_def bit_index_parts [OF assms] Let_def
      split: option.splits)

interpretation mb: missed_bitmap GetMissedBlockBitmapValue SetMissedBlockBitmapValue DeleteMissedBlockBitmap
proof
  fix i j pk v s q assume ij: "bit_index i" "bit_index j"
  show "GetMissedBlockBitmapValue (SetMissedBlockBitmapValue pk i v s) q j =
      (if q = pk \<and> j = i then v else GetMissedBlockBitmapValue s q j)"
  proof (cases "(word_of_int (j div 1024) :: u64) = word_of_int (i div 1024)")
    case chunk: True
    show ?thesis
    proof (cases "nat (j mod 1024) = nat (i mod 1024)")
      case True
      then have "j = i" by (rule bit_index_eq [OF ij(2,1) chunk])
      then show ?thesis
        by (simp add: bitmap_value [OF ij(1)] SetMissedBlockBitmapValue_def SetMissedBlockBitmapChunk_def
            bit_index_parts [OF ij(1)] Let_def)
    next
      case False
      then have "j \<noteq> i" by auto
      with False chunk show ?thesis
        by (simp add: bitmap_value [OF ij(2)] SetMissedBlockBitmapValue_def SetMissedBlockBitmapChunk_def
            getMissedBlockBitmapChunk_def bit_index_parts [OF ij(1)] Let_def split: option.splits)
    qed
  next
    case False
    then have "j \<noteq> i" by auto
    with False show ?thesis
      by (simp add: bitmap_value [OF ij(2)] SetMissedBlockBitmapValue_def SetMissedBlockBitmapChunk_def
          bit_index_parts [OF ij(1)] Let_def)
  qed
next
  fix pk s q j
  show "GetMissedBlockBitmapValue (DeleteMissedBlockBitmap pk s) q j = (q \<noteq> pk \<and> GetMissedBlockBitmapValue s q j)"
    by (auto simp: GetMissedBlockBitmapValue_def getMissedBlockBitmapChunk_def DeleteMissedBlockBitmap_def
        kv_get_filter [of "\<lambda>k. fst k \<noteq> pk"] Let_def)
qed

subsection \<open>Counter and bitmap\<close>

definition missed_indices :: "fin_state \<Rightarrow> btcpk \<Rightarrow> int set" where
  "missed_indices f pk = {i. bit_index i \<and> GetMissedBlockBitmapValue f pk i}"

lemma missed_indices_ones: "missed_indices f pk = mb.ones f pk"
  by (simp add: missed_indices_def mb.ones_def)

text \<open>The counter of a provider is the number of its missed blocks in the bitmap.\<close>

definition signing_inv :: "fin_state \<Rightarrow> bool" where
  "signing_inv f \<longleftrightarrow> (\<forall>pk si. fs_signing_tracker f pk = Some si \<longrightarrow>
     fsi_MissedBlocksCounter si = int (card (missed_indices f pk)))"

abbreviation window :: "fin_state \<Rightarrow> int" where
  "window f \<equiv> fpar_SignedBlocksWindow (fin_GetParams f)"

definition window_ok :: "fin_state \<Rightarrow> bool" where
  "window_ok f \<longleftrightarrow> 0 < window f \<and> window f < 2 ^ 63"

definition index_of :: "fin_state \<Rightarrow> FinalityProviderSigningInfo \<Rightarrow> int \<Rightarrow> int" where
  "index_of f si height = (height - fsi_StartHeight si) mod window f"

lemma index_of_bit: "window_ok f \<Longrightarrow> bit_index (index_of f si height)"
  using pos_mod_bound [of "window f" "height - fsi_StartHeight si"]
    pos_mod_sign [of "window f" "height - fsi_StartHeight si"]
  unfolding window_ok_def index_of_def bit_index_def by linarith

lemma smod_nonneg: "0 \<le> a \<Longrightarrow> 0 < b \<Longrightarrow> a smod b = a mod (b :: int)"
  by (cases "a = 0") (simp_all add: signed_modulo_int_def)

text \<open>What a missed or a signed block does to the bits and to the counter.\<close>

definition mark :: "fin_state \<Rightarrow> FinalityProviderSigningInfo \<Rightarrow> btcpk \<Rightarrow> int \<Rightarrow> bool \<Rightarrow> int set" where
  "mark f si pk height missed =
     (if missed then insert (index_of f si height) (missed_indices f pk)
      else missed_indices f pk - {index_of f si height})"

definition signing_step ::
  "fin_state \<Rightarrow> FinalityProviderSigningInfo \<Rightarrow> btcpk \<Rightarrow> int \<Rightarrow> bool \<Rightarrow> fin_state \<Rightarrow> bool \<Rightarrow>
   FinalityProviderSigningInfo \<Rightarrow> bool" where
  "signing_step f si pk height missed f1 updated si1 \<longleftrightarrow>
     (\<exists>m. f1 = f\<lparr>fs_missed_bitmap := m\<rparr>) \<and>
     missed_indices f1 pk = mark f si pk height missed \<and>
     (\<forall>q. q \<noteq> pk \<longrightarrow> missed_indices f1 q = missed_indices f q) \<and>
     si1 = si\<lparr>fsi_MissedBlocksCounter := fsi_MissedBlocksCounter si +
       (int (card (mark f si pk height missed)) - int (card (missed_indices f pk)))\<rparr> \<and>
     (\<not> updated \<longrightarrow> si1 = si)"

lemma UpdateSigningInfo_step:
  assumes "window_ok f" "fs_signing_tracker f pk = Some si" "fsi_StartHeight si \<le> height"
  shows "\<exists>f1 updated si1. UpdateSigningInfo f pk missed height = Inr (f1, updated, si1) \<and>
    signing_step f si pk height missed f1 updated si1"
proof -
  let ?i = "index_of f si height"
  note i = index_of_bit [OF assms(1), of si height]
  have idx: "(height - fsi_StartHeight si) smod window f = ?i" "window f \<noteq> 0" "\<not> height < fsi_StartHeight si"
    using assms by (auto simp: window_ok_def index_of_def intro!: smod_nonneg)
  have mem: "?i \<in> missed_indices f pk \<longleftrightarrow> GetMissedBlockBitmapValue f pk ?i" using i by (simp add: missed_indices_def)
  have upd: "\<exists>m. SetMissedBlockBitmapValue pk ?i v f = f\<lparr>fs_missed_bitmap := m\<rparr>" for v
    by (auto simp: SetMissedBlockBitmapValue_def SetMissedBlockBitmapChunk_def Let_def)
  have ones: "missed_indices (SetMissedBlockBitmapValue pk ?i v f) q =
      (if q = pk then (if v then insert ?i (missed_indices f q) else missed_indices f q - {?i}) else missed_indices f q)" for v q
    by (simp only: missed_indices_ones mb.ones_set [OF i])
  consider "\<not> GetMissedBlockBitmapValue f pk ?i" "missed" | "GetMissedBlockBitmapValue f pk ?i" "\<not> missed"
    | "GetMissedBlockBitmapValue f pk ?i = missed" by blast
  then show ?thesis
  proof cases
    case 1
    with mb.card_set [OF i this(1)] upd ones show ?thesis
      by (intro exI [of _ "SetMissedBlockBitmapValue pk ?i True f"] exI [of _ True]
          exI [of _ "IncrementMissedBlocksCounter si"]) (simp add: UpdateSigningInfo_def assms(2) idx Let_def signing_step_def mark_def
          IncrementMissedBlocksCounter_def missed_indices_ones mb.ones_set [OF i])
  next
    case 2
    with mb.card_unset [OF i this(1)] upd ones show ?thesis
      by (intro exI [of _ "SetMissedBlockBitmapValue pk ?i False f"] exI [of _ True]
          exI [of _ "DecrementMissedBlocksCounter si"]) (simp add: UpdateSigningInfo_def assms(2) idx Let_def signing_step_def mark_def
          DecrementMissedBlocksCounter_def missed_indices_ones mb.ones_set [OF i])
  next
    case 3
    then have "mark f si pk height missed = missed_indices f pk" using mem by (auto simp: mark_def)
    with 3 show ?thesis
      by (auto simp: UpdateSigningInfo_def assms(2) idx Let_def signing_step_def intro: exI [of _ "fs_missed_bitmap f"])
  qed
qed

lemma UpdateSigningInfo_early:
  assumes "fs_signing_tracker f pk = Some si" "height < fsi_StartHeight si"
  shows "UpdateSigningInfo f pk missed height = Inr (f, False, si)"
  using assms by (simp add: UpdateSigningInfo_def Let_def)

subsection \<open>The effect of a height on a provider\<close>

definition missed_threshold :: "fin_state \<Rightarrow> int \<Rightarrow> FinalityProviderSigningInfo \<Rightarrow> int \<Rightarrow> int \<Rightarrow> bool" where
  "missed_threshold f minSigned si height n \<longleftrightarrow>
     height > fsi_StartHeight si + window f \<and> n > window f - minSigned"

definition liveness_effect ::
  "ctx \<Rightarrow> int \<Rightarrow> btcpk \<Rightarrow> FinalityProvider \<Rightarrow> FinalityProviderSigningInfo \<Rightarrow> int set \<Rightarrow> int \<Rightarrow> 'h world \<Rightarrow> 'h world \<Rightarrow> bool" where
  "liveness_effect c minSigned pk fp si M height w w' \<longleftrightarrow>
     (let f = w_fin w; f' = w_fin w'; jail = missed_threshold f minSigned si height (int (card M)) in
      fps_inv (w_bs w') \<and>
      GetFinalityProvider (w_bs w') pk = Inr (if jail then fp\<lparr>fp_Jailed := True\<rparr> else fp) \<and>
      missed_indices f' pk = (if jail then {} else M) \<and>
      fs_signing_tracker f' pk = Some (si\<lparr>fsi_MissedBlocksCounter := (if jail then 0 else int (card M)),
         fsi_JailedUntil := (if jail then cx_Time c + fpar_JailDuration (fin_GetParams f) else fsi_JailedUntil si)\<rparr>) \<and>
      (\<forall>q. q \<noteq> pk \<longrightarrow> GetFinalityProvider (w_bs w') q = GetFinalityProvider (w_bs w) q \<and>
         missed_indices f' q = missed_indices f q \<and> fs_signing_tracker f' q = fs_signing_tracker f q) \<and>
      f'\<lparr>fs_missed_bitmap := fs_missed_bitmap f, fs_signing_tracker := fs_signing_tracker f\<rparr> = f)"

lemma missed_indices_tracker [simp]:
  "missed_indices (f\<lparr>fs_signing_tracker := tr\<rparr>) pk = missed_indices f pk"
  "missed_indices (set_signing_info pk' si f) pk = missed_indices f pk"
  by (simp_all add: missed_indices_def GetMissedBlockBitmapValue_def getMissedBlockBitmapChunk_def set_signing_info_def)

lemma missed_indices_delete: "missed_indices (DeleteMissedBlockBitmap pk f) q = (if q = pk then {} else missed_indices f q)"
  by (simp add: missed_indices_ones mb.ones_clear)

lemma jailSluggish_ok:
  assumes "fps_inv (w_bs w)" "GetFinalityProvider (w_bs w) pk = Inr fp" "\<not> IsSlashed fp" "\<not> IsJailed fp"
    and "cx_BtcTip c = Some tip"
  shows "\<exists>w'. jailSluggishFinalityProvider c pk w = Inr w' \<and> fps_inv (w_bs w') \<and> w_fin w' = w_fin w \<and>
    (\<forall>q. GetFinalityProvider (w_bs w') q =
      (if q = pk then Inr (fp\<lparr>fp_Jailed := True\<rparr>) else GetFinalityProvider (w_bs w) q))"
proof -
  obtain b where b: "JailFinalityProvider c pk (w_bs w) = Inr b"
    using assms by (simp add: JailFinalityProvider_def Let_def)
  from bsk.jail_effect [OF assms(1) b] assms(2) b show ?thesis
    by (auto simp: jailSluggishFinalityProvider_def)
qed

lemma HandleFinalityProviderLiveness_mark:
  assumes fps: "fps_inv (w_bs w)" "GetFinalityProvider (w_bs w) pk = Inr fp" "\<not> IsSlashed fp" "\<not> IsJailed fp"
    and win: "window_ok (w_fin w)" and inv: "signing_inv (w_fin w)"
    and si: "fs_signing_tracker (w_fin w) pk = Some si" "fsi_StartHeight si \<le> height"
    and "MinSignedPerWindowInt x (fin_GetParams (w_fin w)) = Inr mn" "cx_BtcTip c = Some tip"
  shows "\<exists>w'. HandleFinalityProviderLiveness x c pk missed height w = Inr w' \<and>
    liveness_effect c mn pk fp si (mark (w_fin w) si pk height missed) height w w'"
proof -
  let ?f = "w_fin w" and ?M = "mark (w_fin w) si pk height missed"
  obtain f1 upd si1 where upd: "UpdateSigningInfo ?f pk missed height = Inr (f1, upd, si1)"
    and step: "signing_step ?f si pk height missed f1 upd si1"
    using UpdateSigningInfo_step [OF win si] by blast
  have si1: "si1 = si\<lparr>fsi_MissedBlocksCounter := int (card ?M)\<rparr>"
    using step inv si(1) by (simp add: signing_step_def signing_inv_def)
  obtain m where f1: "f1 = ?f\<lparr>fs_missed_bitmap := m\<rparr>" using step by (auto simp: signing_step_def)
  have bits: "missed_indices f1 pk = ?M" "\<And>q. q \<noteq> pk \<Longrightarrow> missed_indices f1 q = missed_indices ?f q"
    using step by (auto simp: signing_step_def)
  show ?thesis
  proof (cases "missed_threshold ?f mn si height (int (card ?M))")
    case True
    then have cond: "height > fsi_StartHeight si1 + window ?f" "fsi_MissedBlocksCounter si1 > window ?f - mn"
      by (simp_all add: si1 missed_threshold_def)
    obtain w2 where w2: "jailSluggishFinalityProvider c pk (w\<lparr>w_fin := f1\<rparr>) = Inr w2" "fps_inv (w_bs w2)"
        "w_fin w2 = f1" "\<And>q. GetFinalityProvider (w_bs w2) q =
          (if q = pk then Inr (fp\<lparr>fp_Jailed := True\<rparr>) else GetFinalityProvider (w_bs w) q)"
      using jailSluggish_ok [of "w\<lparr>w_fin := f1\<rparr>" pk fp c tip] fps assms(10) by auto
    show ?thesis
      using True cond w2 fps bits
      by (simp add: HandleFinalityProviderLiveness_def upd assms(9) Let_def liveness_effect_def si1
          missed_indices_delete) (auto simp: set_signing_info_def DeleteMissedBlockBitmap_def f1)
  next
    case False
    then have cond: "\<not> (height > fsi_StartHeight si1 + window ?f \<and> fsi_MissedBlocksCounter si1 > window ?f - mn)"
      by (simp add: si1 missed_threshold_def)
    have same: "si1 = si" "fs_signing_tracker f1 pk = Some si" if "\<not> upd"
      using that step si(1) by (auto simp: signing_step_def f1)
    let ?w = "w\<lparr>w_fin := (if upd then set_signing_info pk si1 f1 else f1)\<rparr>"
    have "HandleFinalityProviderLiveness x c pk missed height w = Inr ?w"
      using cond fps by (auto simp: HandleFinalityProviderLiveness_def upd assms(9) Let_def)
    moreover have "liveness_effect c mn pk fp si ?M height w ?w"
      using False fps bits same si1 by (auto simp: liveness_effect_def Let_def) (auto simp: set_signing_info_def f1)
    ultimately show ?thesis by blast
  qed
qed

lemma effect_params:
  assumes "liveness_effect c mn pk fp si M height w w'"
  shows "fin_GetParams (w_fin w') = fin_GetParams (w_fin w)" "fs_voting_power (w_fin w') = fs_voting_power (w_fin w)"
    "fs_votes (w_fin w') = fs_votes (w_fin w)" "fs_blocks (w_fin w') = fs_blocks (w_fin w)"
proof -
  have eq: "(w_fin w')\<lparr>fs_missed_bitmap := fs_missed_bitmap (w_fin w), fs_signing_tracker := fs_signing_tracker (w_fin w)\<rparr> = w_fin w"
    using assms by (simp add: liveness_effect_def Let_def)
  show "fin_GetParams (w_fin w') = fin_GetParams (w_fin w)" "fs_voting_power (w_fin w') = fs_voting_power (w_fin w)"
    "fs_votes (w_fin w') = fs_votes (w_fin w)" "fs_blocks (w_fin w') = fs_blocks (w_fin w)"
    using arg_cong [OF eq, of fs_params] arg_cong [OF eq, of fs_voting_power] arg_cong [OF eq, of fs_votes]
      arg_cong [OF eq, of fs_blocks] by (simp_all add: fin_GetParams_def)
qed

lemma effect_signing_inv:
  assumes "signing_inv (w_fin w)" "liveness_effect c mn pk fp si M height w w'"
  shows "signing_inv (w_fin w')"
proof -
  have "fsi_MissedBlocksCounter si' = int (card (missed_indices (w_fin w') q))"
    if "fs_signing_tracker (w_fin w') q = Some si'" for q si'
    using that assms by (cases "q = pk") (auto simp: liveness_effect_def signing_inv_def Let_def split: if_splits)
  then show ?thesis by (simp add: signing_inv_def)
qed

text \<open>All branches of the handler: it does nothing for a provider that is slashed or jailed, and nothing
  but return for one that was activated after the height.\<close>

lemma HandleFinalityProviderLiveness_branches:
  assumes fps: "fps_inv (w_bs w)" "GetFinalityProvider (w_bs w) pk = Inr fp"
    and win: "window_ok (w_fin w)" and inv: "signing_inv (w_fin w)"
    and si: "fs_signing_tracker (w_fin w) pk = Some si"
    and "MinSignedPerWindowInt x (fin_GetParams (w_fin w)) = Inr mn" "0 \<le> mn" "mn \<le> window (w_fin w)" "cx_BtcTip c = Some tip"
  shows "\<exists>w'. HandleFinalityProviderLiveness x c pk missed height w = Inr w' \<and>
    (w' = w \<and> (IsSlashed fp \<or> IsJailed fp \<or> height < fsi_StartHeight si) \<or>
     \<not> IsSlashed fp \<and> \<not> IsJailed fp \<and> fsi_StartHeight si \<le> height \<and>
       liveness_effect c mn pk fp si (mark (w_fin w) si pk height missed) height w w')"
proof (cases "IsSlashed fp \<or> IsJailed fp")
  case True
  then have "HandleFinalityProviderLiveness x c pk missed height w = Inr w"
    by (simp add: HandleFinalityProviderLiveness_def fps(2) Let_def)
  with True show ?thesis by blast
next
  case ok: False
  show ?thesis
  proof (cases "height < fsi_StartHeight si")
    case True
    moreover from this win have "\<not> height > fsi_StartHeight si + window (w_fin w)" by (simp add: window_ok_def)
    ultimately have "HandleFinalityProviderLiveness x c pk missed height w = Inr w"
      using ok by (simp add: HandleFinalityProviderLiveness_def fps(2) UpdateSigningInfo_early [OF si] assms(6) Let_def)
    with True show ?thesis by blast
  next
    case False
    with ok HandleFinalityProviderLiveness_mark [OF fps _ _ win inv si _ assms(6) assms(9)] show ?thesis by auto
  qed
qed

subsection \<open>The sliding window\<close>

text \<open>The heights among the last \<open>W\<close> up to \<open>n\<close>, from the start height on, that were missed.\<close>

definition missed_heights :: "(int \<Rightarrow> bool) \<Rightarrow> int \<Rightarrow> int \<Rightarrow> int \<Rightarrow> int set" where
  "missed_heights m s W n = {h. s \<le> h \<and> h \<le> n \<and> n - W < h \<and> m h}"

lemma missed_heights_step:
  assumes "s \<le> n" "0 < W"
  shows "missed_heights m s W n = (if m n then insert n else id) (missed_heights m s W (n - 1) - {n - W})"
  using assms by (auto simp: missed_heights_def intro!: order.not_eq_order_implies_strict)

lemma index_inj:
  assumes "0 < W" "n - W < h" "h \<le> n" "n - W < h'" "h' \<le> n" "(h - s) mod W = (h' - s) mod (W :: int)"
  shows "h = h'"
proof -
  have "(h - s - (h' - s)) mod W = 0" using assms(6) by (simp add: mod_eq_dvd_iff mod_eq_0_iff_dvd)
  then have "W dvd h - h'" by (simp add: mod_eq_0_iff_dvd)
  then have "\<not> h' < h" using zdvd_imp_le [of W "h - h'"] assms(2-5) by linarith
  moreover have "W dvd h' - h" using \<open>W dvd h - h'\<close> by (simp add: dvd_diff_commute)
  then have "\<not> h < h'" using zdvd_imp_le [of W "h' - h"] assms(2-5) by linarith
  ultimately show ?thesis by simp
qed

lemma index_image_step:
  assumes "s \<le> n" "0 < W"
  shows "(\<lambda>h. (h - s) mod W) ` missed_heights m s W n =
    (if m n then insert ((n - s) mod W) else (\<lambda>A. A - {(n - s) mod W}))
      ((\<lambda>h. (h - s) mod W) ` missed_heights m s W (n - 1))"
proof -
  have "n - W - s = (n - s) - W" by simp
  then have same: "(n - W - s) mod W = (n - s) mod W" by (simp only: minus_mod_self2)
  have old: "(h - s) mod W = (n - s) mod W \<longleftrightarrow> h = n - W" if "h \<in> missed_heights m s W (n - 1)" for h
  proof
    assume "(h - s) mod W = (n - s) mod W"
    then have e: "(h - s) mod W = (n - W - s) mod W" by (simp only: same)
    show "h = n - W"
      by (rule index_inj [OF assms(2) _ _ _ _ e, of "n - 1"])
        (insert that assms(2), simp_all add: missed_heights_def)
  qed (simp only: same)
  let ?g = "\<lambda>h. (h - s) mod W" and ?A = "missed_heights m s W (n - 1)"
  have img: "?g ` (?A - {n - W}) = ?g ` ?A - {?g n}"
  proof (intro equalityI subsetI)
    fix x assume "x \<in> ?g ` (?A - {n - W})"
    then obtain h where "h \<in> ?A" "h \<noteq> n - W" "x = ?g h" by blast
    then show "x \<in> ?g ` ?A - {?g n}" using old [of h] by simp
  next
    fix x assume "x \<in> ?g ` ?A - {?g n}"
    then obtain h where "h \<in> ?A" "x = ?g h" "?g h \<noteq> ?g n" by blast
    then show "x \<in> ?g ` (?A - {n - W})" using same by blast
  qed
  show ?thesis
    unfolding missed_heights_step [OF assms] by (cases "m n") (simp_all only: if_True if_False id_apply image_insert img insert_Diff_single)
qed

lemma card_index_image:
  assumes "0 < W"
  shows "card ((\<lambda>h. (h - s) mod W) ` missed_heights m s W n) = card (missed_heights m s W n)"
proof (rule card_image, rule inj_onI)
  fix h h' assume "h \<in> missed_heights m s W n" "h' \<in> missed_heights m s W n" "(h - s) mod W = (h' - s) mod W"
  then show "h = h'" by (intro index_inj [OF assms, of n h h' s]) (simp_all add: missed_heights_def)
qed

text \<open>The state of a provider after the heights up to \<open>k\<close>, as long as it was not jailed.\<close>

definition tracked ::
  "FinalityParams \<Rightarrow> btcpk \<Rightarrow> FinalityProvider \<Rightarrow> FinalityProviderSigningInfo \<Rightarrow> (int \<Rightarrow> bool) \<Rightarrow> int \<Rightarrow> 'h world \<Rightarrow> bool" where
  "tracked params pk fp si m k w \<longleftrightarrow>
     (let s = fsi_StartHeight si; W = fpar_SignedBlocksWindow params in
      fps_inv (w_bs w) \<and> GetFinalityProvider (w_bs w) pk = Inr fp \<and> fin_GetParams (w_fin w) = params \<and>
      signing_inv (w_fin w) \<and>
      fs_signing_tracker (w_fin w) pk =
        Some (si\<lparr>fsi_MissedBlocksCounter := int (card (missed_heights m s W k))\<rparr>) \<and>
      missed_indices (w_fin w) pk = (\<lambda>h. (h - s) mod W) ` missed_heights m s W k)"

definition sluggish :: "FinalityParams \<Rightarrow> int \<Rightarrow> FinalityProviderSigningInfo \<Rightarrow> (int \<Rightarrow> bool) \<Rightarrow> int \<Rightarrow> bool" where
  "sluggish params minSigned si m k \<longleftrightarrow>
     (let s = fsi_StartHeight si; W = fpar_SignedBlocksWindow params in
      k > s + W \<and> int (card (missed_heights m s W k)) > W - minSigned)"

lemma tracked_step:
  assumes tr: "tracked params pk fp si m (k - 1) w" and fp: "\<not> IsSlashed fp" "\<not> IsJailed fp"
    and win: "0 < fpar_SignedBlocksWindow params" "fpar_SignedBlocksWindow params < 2 ^ 63"
    and mn: "MinSignedPerWindowInt x params = Inr mn" and "cx_BtcTip c = Some tip" "fsi_StartHeight si \<le> k"
  shows "\<exists>w'. HandleFinalityProviderLiveness x c pk (m k) k w = Inr w' \<and>
    (if sluggish params mn si m k then GetFinalityProvider (w_bs w') pk = Inr (fp\<lparr>fp_Jailed := True\<rparr>)
     else tracked params pk fp si m k w')"
proof -
  let ?s = "fsi_StartHeight si" and ?W = "fpar_SignedBlocksWindow params"
  let ?si = "si\<lparr>fsi_MissedBlocksCounter := int (card (missed_heights m ?s ?W (k - 1)))\<rparr>"
  let ?M = "mark (w_fin w) ?si pk k (m k)"
  have w: "fps_inv (w_bs w)" "GetFinalityProvider (w_bs w) pk = Inr fp" "fin_GetParams (w_fin w) = params"
    "signing_inv (w_fin w)" "fs_signing_tracker (w_fin w) pk = Some ?si"
    "missed_indices (w_fin w) pk = (\<lambda>h. (h - ?s) mod ?W) ` missed_heights m ?s ?W (k - 1)"
    using tr by (simp_all add: tracked_def Let_def)
  have wok: "window_ok (w_fin w)" using win w(3) by (simp add: window_ok_def)
  have M: "?M = (\<lambda>h. (h - ?s) mod ?W) ` missed_heights m ?s ?W k"
    by (simp add: index_image_step [OF assms(8) win(1)] mark_def index_of_def w(3,6))
  have mn': "MinSignedPerWindowInt x (fin_GetParams (w_fin w)) = Inr mn" using mn w(3) by simp
  obtain w' where w': "HandleFinalityProviderLiveness x c pk (m k) k w = Inr w'"
    and eff: "liveness_effect c mn pk fp ?si ?M k w w'"
    using HandleFinalityProviderLiveness_mark [OF w(1,2) fp wok w(4,5) _ mn' assms(7), of k "m k"] assms(8) by auto
  have jail: "missed_threshold (w_fin w) mn ?si k (int (card ?M)) \<longleftrightarrow> sluggish params mn si m k"
    by (simp add: missed_threshold_def sluggish_def Let_def w(3) M card_index_image [OF win(1)])
  have "GetFinalityProvider (w_bs w') pk = Inr (fp\<lparr>fp_Jailed := True\<rparr>)" if "sluggish params mn si m k"
    using eff that jail by (simp add: liveness_effect_def Let_def)
  moreover have "tracked params pk fp si m k w'" if "\<not> sluggish params mn si m k"
    using eff that jail effect_params(1) [OF eff] effect_signing_inv [OF w(4) eff] w(3)
    by (simp add: liveness_effect_def tracked_def Let_def M card_index_image [OF win(1)])
  ultimately show ?thesis using w' by auto
qed

lemma tracked_run:
  assumes "tracked params pk fp si m (fsi_StartHeight si - 1) w" "\<not> IsSlashed fp" "\<not> IsJailed fp"
    "0 < fpar_SignedBlocksWindow params" "fpar_SignedBlocksWindow params < 2 ^ 63"
    "MinSignedPerWindowInt x params = Inr mn" "\<And>h. cx_BtcTip (c h) \<noteq> None"
    and "\<And>k. fsi_StartHeight si \<le> k \<Longrightarrow> k \<le> fsi_StartHeight si + int j - 1 \<Longrightarrow> \<not> sluggish params mn si m k"
  shows "\<exists>w'. foldR (\<lambda>w h. HandleFinalityProviderLiveness x (c h) pk (m h) h w) w
      [fsi_StartHeight si..fsi_StartHeight si + int j - 1] = Inr w' \<and>
    tracked params pk fp si m (fsi_StartHeight si + int j - 1) w'"
  using assms(8)
proof (induction j)
  case 0
  then show ?case using assms(1) by simp
next
  case (Suc j)
  let ?k = "fsi_StartHeight si + int j"
  have "\<exists>w'. foldR (\<lambda>w h. HandleFinalityProviderLiveness x (c h) pk (m h) h w) w
      [fsi_StartHeight si..?k - 1] = Inr w' \<and> tracked params pk fp si m (?k - 1) w'"
    by (rule Suc.IH) (simp add: Suc.prems)
  then obtain w' where w': "foldR (\<lambda>w h. HandleFinalityProviderLiveness x (c h) pk (m h) h w) w
      [fsi_StartHeight si..?k - 1] = Inr w'" "tracked params pk fp si m (?k - 1) w'" by blast
  have "\<not> sluggish params mn si m ?k" by (rule Suc.prems) simp_all
  moreover obtain tip where "cx_BtcTip (c ?k) = Some tip" using assms(7) by blast
  ultimately show ?case
    using tracked_step [OF w'(2) assms(2-6), of "c ?k" tip] w'(1)
    by (auto simp: upto_rec2 [of "fsi_StartHeight si" ?k] foldR_append)
qed

subsection \<open>Properties\<close>

text \<open>C18. A provider whose signing info starts at height \<open>s\<close> with an empty bitmap and that is handled at
  every height from \<open>s\<close> to \<open>n\<close> is jailed at \<open>n\<close> exactly when \<open>n\<close> is past the first window and the number of
  blocks it missed among the last \<open>SignedBlocksWindow\<close> heights exceeds the window minus the required
  signatures; the bitmap of chunks indexed modulo the window and the incremental counter compute that
  number. The handler never fails on the way.\<close>

theorem jailed_by_sliding_window:
  assumes "fps_inv (w_bs w)" "GetFinalityProvider (w_bs w) pk = Inr fp" "\<not> IsSlashed fp" "\<not> IsJailed fp"
    and "window_ok (w_fin w)" "signing_inv (w_fin w)" "fin_GetParams (w_fin w) = params"
    and "MinSignedPerWindowInt x params = Inr mn" "\<And>h. cx_BtcTip (c h) \<noteq> None"
    and "fs_signing_tracker (w_fin w) pk = Some si" "missed_indices (w_fin w) pk = {}"
    and "fsi_StartHeight si \<le> n" "\<And>k. fsi_StartHeight si \<le> k \<Longrightarrow> k < n \<Longrightarrow> \<not> sluggish params mn si m k"
  shows "\<exists>w'. foldR (\<lambda>w h. HandleFinalityProviderLiveness x (c h) pk (m h) h w) w [fsi_StartHeight si..n] = Inr w' \<and>
    GetFinalityProvider (w_bs w') pk = Inr (fp\<lparr>fp_Jailed :=
      (n > fsi_StartHeight si + fpar_SignedBlocksWindow params \<and>
       int (card {h. fsi_StartHeight si \<le> h \<and> h \<le> n \<and> n - fpar_SignedBlocksWindow params < h \<and> m h}) >
         fpar_SignedBlocksWindow params - mn)\<rparr>)"
proof -
  let ?s = "fsi_StartHeight si" and ?run = "foldR (\<lambda>w h. HandleFinalityProviderLiveness x (c h) pk (m h) h w) w"
  obtain j where j: "n = ?s + int j" using assms(12) zle_iff_zadd by blast
  have win: "0 < fpar_SignedBlocksWindow params" "fpar_SignedBlocksWindow params < 2 ^ 63"
    using assms(5,7) by (auto simp: window_ok_def)
  have none: "missed_heights m ?s (fpar_SignedBlocksWindow params) (?s - 1) = {}" by (auto simp: missed_heights_def)
  have "fsi_MissedBlocksCounter si = 0" using assms(6,10,11) by (simp add: signing_inv_def)
  then have "tracked params pk fp si m (?s - 1) w"
    using assms by (simp add: tracked_def Let_def none)
  then have "\<exists>w1. ?run [?s..?s + int j - 1] = Inr w1 \<and> tracked params pk fp si m (?s + int j - 1) w1"
    by (rule tracked_run [OF _ assms(3,4) win assms(8,9)]) (use assms(13) j in auto)
  then obtain w1 where w1: "?run [?s..n - 1] = Inr w1" "tracked params pk fp si m (n - 1) w1"
    unfolding j by blast
  obtain tip where "cx_BtcTip (c n) = Some tip" using assms(9) by blast
  from tracked_step [OF w1(2) assms(3,4) win assms(8) this assms(12)] obtain w'
    where w': "HandleFinalityProviderLiveness x (c n) pk (m n) n w1 = Inr w'"
      "if sluggish params mn si m n then GetFinalityProvider (w_bs w') pk = Inr (fp\<lparr>fp_Jailed := True\<rparr>)
       else tracked params pk fp si m n w'" by blast
  have "GetFinalityProvider (w_bs w') pk = Inr (fp\<lparr>fp_Jailed := sluggish params mn si m n\<rparr>)"
    using w'(2) assms(4) by (cases "sluggish params mn si m n") (simp_all add: tracked_def Let_def IsJailed_def)
  moreover have "?run [?s..n] = Inr w'" using w1(1) w'(1) assms(12) by (simp add: upto_rec2 foldR_append)
  ultimately show ?thesis unfolding sluggish_def missed_heights_def Let_def by blast
qed

text \<open>What \<open>HandleLiveness\<close> relies on: every provider with voting power at the height is registered and
  has a signing info.\<close>

definition liveness_ready :: "u64 \<Rightarrow> 'h world \<Rightarrow> bool" where
  "liveness_ready h w \<longleftrightarrow> (\<forall>pk\<in>table_pks (w_fin w) h.
     (\<exists>fp. GetFinalityProvider (w_bs w) pk = Inr fp) \<and> fs_signing_tracker (w_fin w) pk \<noteq> None)"

definition liveness_inv :: "ext \<Rightarrow> u64 \<Rightarrow> 'h world \<Rightarrow> bool" where
  "liveness_inv x h w \<longleftrightarrow> fps_inv (w_bs w) \<and> window_ok (w_fin w) \<and> signing_inv (w_fin w) \<and> liveness_ready h w \<and>
     (\<exists>mn. MinSignedPerWindowInt x (fin_GetParams (w_fin w)) = Inr mn \<and> 0 \<le> mn \<and> mn \<le> window (w_fin w))"

lemma slashed_jail [simp]: "IsSlashed (fp\<lparr>fp_Jailed := v\<rparr>) = IsSlashed fp"
  by (simp add: IsSlashed_def)

lemma liveness_step_inv:
  assumes inv: "liveness_inv x h w" and pk: "pk \<in> table_pks (w_fin w) h" and tip: "cx_BtcTip c \<noteq> None"
  shows "\<exists>w'. HandleFinalityProviderLiveness x c pk missed height w = Inr w' \<and> liveness_inv x h w' \<and>
    fs_voting_power (w_fin w') = fs_voting_power (w_fin w) \<and>
    (\<forall>q. slashed w' q = slashed w q) \<and> (\<forall>q. q \<noteq> pk \<longrightarrow> GetFinalityProvider (w_bs w') q = GetFinalityProvider (w_bs w) q)"
proof -
  obtain fp si mn t where ok: "fps_inv (w_bs w)" "GetFinalityProvider (w_bs w) pk = Inr fp" "window_ok (w_fin w)"
    "signing_inv (w_fin w)" "fs_signing_tracker (w_fin w) pk = Some si"
    "MinSignedPerWindowInt x (fin_GetParams (w_fin w)) = Inr mn" "0 \<le> mn" "mn \<le> window (w_fin w)" "cx_BtcTip c = Some t"
    using inv pk tip by (auto simp: liveness_inv_def liveness_ready_def)
  from HandleFinalityProviderLiveness_branches [OF ok, of missed height] obtain w' where
    run: "HandleFinalityProviderLiveness x c pk missed height w = Inr w'" and
    br: "w' = w \<or> liveness_effect c mn pk fp si (mark (w_fin w) si pk height missed) height w w'" by blast
  from br show ?thesis
  proof
    assume "w' = w" with run inv show ?thesis by blast
  next
    assume eff: "liveness_effect c mn pk fp si (mark (w_fin w) si pk height missed) height w w'"
    note par = effect_params [OF eff]
    have tab: "table_pks (w_fin w') h = table_pks (w_fin w) h" by (simp add: table_pks_def par)
    have get: "GetFinalityProvider (w_bs w') q = (if q = pk then Inr (if missed_threshold (w_fin w) mn si height
        (int (card (mark (w_fin w) si pk height missed))) then fp\<lparr>fp_Jailed := True\<rparr> else fp)
        else GetFinalityProvider (w_bs w) q)" for q
      using eff by (simp add: liveness_effect_def Let_def)
    have "liveness_ready h w'"
      using inv eff tab by (auto simp: liveness_ready_def liveness_inv_def get liveness_effect_def Let_def)
    moreover have "slashed w' q = slashed w q" for q using ok(2) by (simp add: slashed_def get)
    ultimately show ?thesis
      using run inv effect_signing_inv [OF ok(4) eff] eff par
      by (auto simp: liveness_inv_def window_ok_def liveness_effect_def Let_def)
  qed
qed

lemma ordered_table:
  assumes "keys_ok f"
  shows "\<exists>tab. GetVotingPowerTableOrdered f h = Inr tab \<and> fst ` set tab = table_pks f h"
proof -
  have "must_pk (fst e) = Inr (fst e)" if "e \<in> set (kv_sub h (fs_voting_power f))" for e
    using that assms kv_sub_SomeD [of "fst e" "snd e" h "fs_voting_power f"]
    by (intro must_pk_ok) (auto simp: keys_ok_def)
  from foldR_collect [of _ must_pk, OF this] show ?thesis
    by (simp add: GetVotingPowerTableOrdered_def table_pks_def)
qed

text \<open>C31. \<open>HandleLiveness\<close> does not panic when every provider with voting power at the height is
  registered and has a signing info. It keeps for every provider the equality of its counter and the
  number of set bits of its bitmap, slashes nobody, and leaves every provider without voting power at
  the height as it was.\<close>

theorem liveness_keeps_counters:
  assumes "keys_ok (w_fin w)" "liveness_inv x (word_of_int height) w" "cx_BtcTip c \<noteq> None"
  shows "\<exists>w'. HandleLiveness x c height w = Inr w' \<and> fps_inv (w_bs w') \<and>
    (\<forall>pk si. fs_signing_tracker (w_fin w') pk = Some si \<longrightarrow>
       fsi_MissedBlocksCounter si = int (card {i. bit_index i \<and> GetMissedBlockBitmapValue (w_fin w') pk i})) \<and>
    (\<forall>pk. slashed w' pk = slashed w pk) \<and>
    (\<forall>pk. pk \<notin> table_pks (w_fin w) (word_of_int height) \<longrightarrow>
       GetFinalityProvider (w_bs w') pk = GetFinalityProvider (w_bs w) pk)"
proof -
  let ?h = "word_of_int height :: u64"
  obtain tab where tab: "GetVotingPowerTableOrdered (w_fin w) ?h = Inr tab" "fst ` set tab = table_pks (w_fin w) ?h"
    using ordered_table [OF assms(1)] by blast
  let ?V = "{pk. HasSig (w_fin w) ?h pk}"
  define I where "I v \<longleftrightarrow> liveness_inv x ?h v \<and> fs_voting_power (w_fin v) = fs_voting_power (w_fin w) \<and>
    (\<forall>pk. slashed v pk = slashed w pk) \<and>
    (\<forall>pk. pk \<notin> table_pks (w_fin w) ?h \<longrightarrow> GetFinalityProvider (w_bs v) pk = GetFinalityProvider (w_bs w) pk)"
    for v :: "'a world"
  have "\<exists>w'. foldR (\<lambda>w (pk, vp). panic_on_error (HandleFinalityProviderLiveness x c pk (pk \<notin> ?V) height w)) w tab
      = Inr w' \<and> I w'"
  proof (rule foldR_total)
    show "I w" using assms(2) by (simp add: I_def)
    fix v e assume v: "I v" and e: "e \<in> set tab"
    have pk: "fst e \<in> table_pks (w_fin v) ?h" "fst e \<in> table_pks (w_fin w) ?h"
      using v e tab(2) by (auto simp: I_def table_pks_def)
    obtain v' where "HandleFinalityProviderLiveness x c (fst e) (fst e \<notin> ?V) height v = Inr v'" "I v'"
      using liveness_step_inv [of x ?h v, OF _ pk(1) assms(3), of "fst e \<notin> ?V" height] v pk(2)
      unfolding I_def by metis
    then show "\<exists>v'. (case e of (pk, vp) \<Rightarrow>
        panic_on_error (HandleFinalityProviderLiveness x c pk (pk \<notin> ?V) height v)) = Inr v' \<and> I v'"
      by (auto simp: panic_on_error_def case_prod_beta)
  qed
  then show ?thesis
    by (simp add: HandleLiveness_def tab(1) GetVoters_ok [OF assms(1)] I_def liveness_inv_def signing_inv_def
        missed_indices_def) blast
qed

text \<open>A provider can be unjailed exactly by a message signed with its own address, when it is
  registered, jailed and not slashed, has a signing info, and the block time is past the end of its
  jailing period; unjailing changes nothing else of any provider.\<close>

theorem unjail_iff:
  assumes "fps_inv (w_bs w)" "mu_FpBtcPk req = Some pk" "cx_BtcTip c \<noteq> None"
    and "\<And>si. fs_signing_tracker (w_fin w) pk = Some si \<Longrightarrow> fsi_JailedUntil si \<noteq> zero_time"
  shows "((\<exists>w'. Msg_UnjailFinalityProvider c req w = Inr w') \<longleftrightarrow>
      (\<exists>fp si. GetFinalityProvider (w_bs w) pk = Inr fp \<and> fp_Addr fp = mu_Signer req \<and> IsJailed fp \<and> \<not> IsSlashed fp \<and>
        fs_signing_tracker (w_fin w) pk = Some si \<and> fsi_JailedUntil si < cx_Time c)) \<and>
    (\<forall>w'. Msg_UnjailFinalityProvider c req w = Inr w' \<longrightarrow> fps_inv (w_bs w') \<and> w_fin w' = w_fin w \<and>
      (\<exists>fp. GetFinalityProvider (w_bs w) pk = Inr fp \<and> (\<forall>q. GetFinalityProvider (w_bs w') q =
        (if q = pk then Inr (fp\<lparr>fp_Jailed := False\<rparr>) else GetFinalityProvider (w_bs w) q))))"
proof (intro conjI allI impI)
  obtain tip where tip: "cx_BtcTip c = Some tip" using assms(3) by blast
  show "(\<exists>w'. Msg_UnjailFinalityProvider c req w = Inr w') \<longleftrightarrow>
      (\<exists>fp si. GetFinalityProvider (w_bs w) pk = Inr fp \<and> fp_Addr fp = mu_Signer req \<and> IsJailed fp \<and> \<not> IsSlashed fp \<and>
        fs_signing_tracker (w_fin w) pk = Some si \<and> fsi_JailedUntil si < cx_Time c)"
    using assms(4) tip
    by (fastforce simp: Msg_UnjailFinalityProvider_def assms(2) bindR_eq_Inr guardR_eq_Inr option_to_result_eq_Inr
        IsJailingPeriodPassed_def UnjailFinalityProvider_def Let_def)
  fix w' assume "Msg_UnjailFinalityProvider c req w = Inr w'"
  then obtain b where b: "UnjailFinalityProvider c pk (w_bs w) = Inr b" "w' = w\<lparr>w_bs := b\<rparr>"
    by (auto simp: Msg_UnjailFinalityProvider_def assms(2) bindR_eq_Inr guardR_eq_Inr)
  from bsk.unjail_effect [OF assms(1) b(1)] b(2) show "fps_inv (w_bs w')" "w_fin w' = w_fin w"
    "\<exists>fp. GetFinalityProvider (w_bs w) pk = Inr fp \<and> (\<forall>q. GetFinalityProvider (w_bs w') q =
        (if q = pk then Inr (fp\<lparr>fp_Jailed := False\<rparr>) else GetFinalityProvider (w_bs w) q))"
    by auto
qed

subsection \<open>The list of missed blocks\<close>

abbreviation collect_missed :: "int \<Rightarrow> bool \<Rightarrow> int list \<Rightarrow> int list \<times> bool" where
  "collect_missed \<equiv> \<lambda>index missed missedBlocks. (if missed then missedBlocks @ [index] else missedBlocks, False)"

definition chunk_bits :: "nat set \<Rightarrow> nat list" where
  "chunk_bits bs = filter (\<lambda>i. i \<in> bs) [0..<1024]"

lemma iterate_chunk_collect:
  "i \<le> m \<Longrightarrow> iterate_chunk collect_missed bs [i..<m] (b + int i, a) =
    (b + int m, a @ map (\<lambda>k. b + int k) (filter (\<lambda>k. k \<in> bs) [i..<m]))"
proof (induction "m - i" arbitrary: i a)
  case (Suc d)
  then have "i < m" by simp
  moreover have "iterate_chunk collect_missed bs [Suc i..<m] (b + int (Suc i), a') =
    (b + int m, a' @ map (\<lambda>k. b + int k) (filter (\<lambda>k. k \<in> bs) [Suc i..<m]))" for a'
    using Suc by (intro Suc.hyps(1)) simp_all
  ultimately show ?case by (simp add: upt_conv_Cons ac_simps)
qed simp

text \<open>The code numbers the bits of the chunks that exist one after the other.\<close>

lemma missed_blocks_by_position:
  "GetFinalityProviderMissedBlocks f pk =
    concat (map (\<lambda>(k, e). map (\<lambda>i. 1024 * int k + int i) (chunk_bits (snd e))) (enumerate 0 (kv_sub pk (fs_missed_bitmap f))))"
proof -
  have one: "iterate_chunk collect_missed bs [0..<nat MissedBlockBitmapChunkSize] (b, a) =
      (b + 1024, a @ map (\<lambda>k. b + int k) (chunk_bits bs))" for bs b a
    using iterate_chunk_collect [of 0 1024 bs b a] by (simp add: MissedBlockBitmapChunkSize_def chunk_bits_def)
  have "snd (foldl (\<lambda>s e. iterate_chunk collect_missed (snd e) [0..<nat MissedBlockBitmapChunkSize] s) (1024 * int n, a) es) =
      a @ concat (map (\<lambda>(k, e). map (\<lambda>i. 1024 * int k + int i) (chunk_bits (snd e))) (enumerate n es))" for n a and es :: "(u64 \<times> nat set) list"
  proof (induction es arbitrary: n a)
    case (Cons e es)
    show ?case using Cons [of "Suc n"] by (simp add: one algebra_simps)
  qed simp
  from this [of 0 "[]"] show ?thesis
    by (simp add: GetFinalityProviderMissedBlocks_def IterateMissedBlockBitmap_def)
qed

text \<open>Chunks hold bits below their size, and exist from the first one on without a gap.\<close>

definition chunks_contiguous :: "fin_state \<Rightarrow> btcpk \<Rightarrow> bool" where
  "chunks_contiguous f pk \<longleftrightarrow> (let es = kv_sub pk (fs_missed_bitmap f) in
     map fst es = map of_nat [0..<length es] \<and> length es < 2 ^ 53 \<and> (\<forall>e\<in>set es. snd e \<subseteq> {..<1024}))"

lemma small_nat_inj:
  assumes "j < 2 ^ 53" "k < 2 ^ 53" "(of_nat k :: u64) = of_nat j"
  shows "j = k"
proof -
  have "(2::nat) ^ 53 \<le> 2 ^ LENGTH(64)" by (intro power_increasing) simp_all
  then have "j < 2 ^ LENGTH(64)" "k < 2 ^ LENGTH(64)" using assms(1,2) by (simp_all only: order_less_le_trans)
  from this [THEN take_bit_nat_eq_self] show ?thesis using arg_cong [OF assms(3), of unat] by (simp only: unat_of_nat take_bit_eq_mod)
qed

lemma chunk_get:
  assumes "stores_wf f" "chunks_contiguous f pk" "k < 2 ^ 53"
  shows "kv_get (fs_missed_bitmap f) (pk, of_nat k) = Some bs \<longleftrightarrow>
    k < length (kv_sub pk (fs_missed_bitmap f)) \<and> bs = snd (kv_sub pk (fs_missed_bitmap f) ! k)"
proof -
  define es where "es = kv_sub pk (fs_missed_bitmap f)"
  have keys: "map fst es = map of_nat [0..<length es]" and len: "length es < 2 ^ 53"
    using assms(2) by (simp_all only: chunks_contiguous_def Let_def es_def)
  have wf: "kv_wf es" using assms(1) by (simp add: stores_wf_def es_def)
  have nth: "fst (es ! j) = of_nat j" if "j < length es" for j
    using arg_cong [OF keys, of "\<lambda>l. l ! j"] that by simp
  have "kv_get (fs_missed_bitmap f) (pk, of_nat k) = Some bs \<longleftrightarrow> (of_nat k, bs) \<in> set es"
    using kv_entries [OF wf, of "of_nat k" bs] by (simp add: es_def)
  also have "\<dots> \<longleftrightarrow> (\<exists>j<length es. es ! j = (of_nat k, bs))" by (simp add: in_set_conv_nth)
  also have "\<dots> \<longleftrightarrow> k < length es \<and> bs = snd (es ! k)"
  proof
    assume "\<exists>j<length es. es ! j = (of_nat k, bs)"
    then obtain j where j: "j < length es" "es ! j = (of_nat k, bs)" by blast
    then have "j = k" using nth [OF j(1)] len by (intro small_nat_inj [OF _ assms(3)]) (simp_all only: order_less_trans fst_conv)
    with j show "k < length es \<and> bs = snd (es ! k)" by simp
  next
    assume "k < length es \<and> bs = snd (es ! k)"
    then show "\<exists>j<length es. es ! j = (of_nat k, bs)" using nth [of k] by (intro exI [of _ k]) (simp add: prod_eq_iff)
  qed
  finally show ?thesis by (simp only: es_def)
qed

lemma set_missed_blocks:
  "set (GetFinalityProviderMissedBlocks f pk) =
    {1024 * int k + int i |k i. k < length (kv_sub pk (fs_missed_bitmap f)) \<and> i < 1024 \<and>
       i \<in> snd (kv_sub pk (fs_missed_bitmap f) ! k)}"
proof -
  have "set (enumerate 0 es) = (\<lambda>k. (k, es ! k)) ` {..<length es}" for es :: "(u64 \<times> nat set) list"
    by (auto simp: enumerate_eq_zip set_zip intro!: exI)
  then have "set (GetFinalityProviderMissedBlocks f pk) = (\<Union>k<length (kv_sub pk (fs_missed_bitmap f)).
      (\<lambda>i. 1024 * int k + int i) ` {i. i < 1024 \<and> i \<in> snd (kv_sub pk (fs_missed_bitmap f) ! k)})"
    unfolding missed_blocks_by_position by (simp add: chunk_bits_def image_image case_prod_beta)
  then show ?thesis by blast
qed

lemma index_split:
  assumes "i < 1024"
  shows "(1024 * int k + int i) div 1024 = int k" "(1024 * int k + int i) mod 1024 = int i"
  using assms by (simp_all add: div_pos_pos_trivial)

lemma value_split:
  assumes "stores_wf f" "chunks_contiguous f pk" "i < 1024" "k < 2 ^ 53"
  shows "bit_index (1024 * int k + int i)" "GetMissedBlockBitmapValue f pk (1024 * int k + int i) \<longleftrightarrow>
    k < length (kv_sub pk (fs_missed_bitmap f)) \<and> i \<in> snd (kv_sub pk (fs_missed_bitmap f) ! k)"
proof -
  have "int k + 1 \<le> 2 ^ 53" using assms(4) by (simp add: zless_iff_Suc_zadd)
  then have "1024 * int k + int i < 1024 * 2 ^ 53" using assms(3) by linarith
  also have "(1024::int) * 2 ^ 53 = 2 ^ 63" by simp
  finally show b: "bit_index (1024 * int k + int i)" unfolding bit_index_def by simp
  have w: "word_of_int (int k) = (of_nat k :: u64)" by simp
  show "GetMissedBlockBitmapValue f pk (1024 * int k + int i) \<longleftrightarrow>
    k < length (kv_sub pk (fs_missed_bitmap f)) \<and> i \<in> snd (kv_sub pk (fs_missed_bitmap f) ! k)"
    unfolding bitmap_value [OF b] index_split [OF assms(3)] w chunk_get [OF assms(1,2,4)] by auto
qed

text \<open>When the chunks of a provider exist without a gap, the exported list of missed blocks has
  exactly the indices whose bit is set.\<close>

theorem missed_blocks_exact:
  assumes "stores_wf f" "chunks_contiguous f pk"
  shows "set (GetFinalityProviderMissedBlocks f pk) = {i. bit_index i \<and> GetMissedBlockBitmapValue f pk i}"
proof (intro equalityI subsetI)
  let ?es = "kv_sub pk (fs_missed_bitmap f)"
  have len: "length ?es < 2 ^ 53" using assms(2) by (simp only: chunks_contiguous_def Let_def)
  fix x assume "x \<in> set (GetFinalityProviderMissedBlocks f pk)"
  then obtain k i where x: "x = 1024 * int k + int i" "k < length ?es" "i < 1024" "i \<in> snd (?es ! k)"
    unfolding set_missed_blocks by blast
  then have "k < 2 ^ 53" using len by (simp only: order_less_trans)
  from value_split [OF assms x(3) this] x show "x \<in> {i. bit_index i \<and> GetMissedBlockBitmapValue f pk i}" by simp
next
  fix x assume x: "x \<in> {i. bit_index i \<and> GetMissedBlockBitmapValue f pk i}"
  define k i where "k = nat (x div 1024)" and "i = nat (x mod 1024)"
  have nn: "0 \<le> x" "x < 2 ^ 63" using x by (auto simp: bit_index_def)
  then have "int k = x div 1024" "int i = x mod 1024" by (simp_all add: k_def i_def pos_imp_zdiv_nonneg_iff)
  then have xi: "x = 1024 * int k + int i" by (simp add: mult.commute)
  have i: "i < 1024" by (simp add: i_def nat_less_iff)
  have "x div 1024 < 2 ^ 53" using nn(2) div_mult_mod_eq [of x 1024] pos_mod_sign [of 1024 x] by simp
  then have "int k < int (2 ^ 53)" using \<open>int k = x div 1024\<close> by simp
  then have "k < 2 ^ 53" by (simp only: of_nat_less_iff)
  from value_split [OF assms i this] x i show "x \<in> set (GetFinalityProviderMissedBlocks f pk)"
    unfolding set_missed_blocks xi by blast
qed

text \<open>C37. When the only chunk of a provider is not the first, as for a provider that missed no block
  early in a window of more than one chunk, the list reports positions in that chunk as indices: for bit
  \<open>i\<close> of chunk \<open>c\<close> it has \<open>i\<close>, while the index whose bit is set is \<open>1024 c + i\<close>.\<close>

theorem missed_blocks_shifted:
  assumes "kv_sub pk (fs_missed_bitmap f) = [(of_nat c, {i})]" "i < 1024" "c < 2 ^ 53"
  shows "GetFinalityProviderMissedBlocks f pk = [int i] \<and>
    GetMissedBlockBitmapValue f pk (1024 * int c + int i) \<and>
    (c \<noteq> 0 \<longrightarrow> \<not> GetMissedBlockBitmapValue f pk (int i))"
proof (intro conjI impI)
  have "[0..<1024] = [0..<i] @ i # [Suc i..<1024]"
    using upt_add_eq_append [of 0 i "1024 - i"] upt_conv_Cons [OF assms(2)] assms(2) by simp
  then have "chunk_bits {i} = [i]" unfolding chunk_bits_def by (simp add: filter_empty_conv)
  then show "GetFinalityProviderMissedBlocks f pk = [int i]"
    by (simp add: missed_blocks_by_position assms(1))
  have get: "kv_get (fs_missed_bitmap f) (pk, k) = (if k = of_nat c then Some {i} else None)" for k
    unfolding kv_get_sub [of pk "fs_missed_bitmap f" k, symmetric] assms(1) by simp
  have "bit_index (1024 * int k + int i)" if "k < 2 ^ 53" for k
  proof -
    have "int k + 1 \<le> 2 ^ 53" using that by (simp add: zless_iff_Suc_zadd)
    then show ?thesis using assms(2) unfolding bit_index_def by simp
  qed
  from this [OF assms(3)] this [of 0] have b: "bit_index (1024 * int c + int i)" "bit_index (int i)" by simp_all
  have w: "word_of_int (int c) = (of_nat c :: u64)" by simp
  show "GetMissedBlockBitmapValue f pk (1024 * int c + int i)"
    unfolding bitmap_value [OF b(1)] index_split [OF assms(2)] w get by simp
  assume "c \<noteq> 0"
  then have "(of_nat c :: u64) \<noteq> of_nat 0" using small_nat_inj [of 0 c] assms(3) by auto
  then show "\<not> GetMissedBlockBitmapValue f pk (int i)"
    unfolding bitmap_value [OF b(2)] get using assms(2) by simp
qed

subsection \<open>A provider that stops voting\<close>

definition live_params :: FinalityParams where
  "live_params = \<lparr>fpar_MaxActiveFinalityProviders = 2, fpar_SignedBlocksWindow = 2, fpar_FinalitySigTimeout = 3,
     fpar_MinSignedPerWindow = Some (dec_one div 2), fpar_MinPubRand = 100, fpar_JailDuration = 1000,
     fpar_FinalityActivationHeight = 1\<rparr>"

definition live_info :: FinalityProviderSigningInfo where
  "live_info = NewFinalityProviderSigningInfo pkA 5 0"

definition live_world :: "unit world" where
  "live_world = \<lparr>w_bs = staked_bs, w_fin = empty_fin\<lparr>fs_params := Some live_params,
     fs_voting_power := [((5, pkA), 300)], fs_signing_tracker := [pkA \<mapsto> live_info]\<rparr>, w_ext = (), w_events = []\<rparr>"

lemma live_world_bits: "missed_indices (w_fin live_world) pk = {}"
  by (simp add: missed_indices_def GetMissedBlockBitmapValue_def getMissedBlockBitmapChunk_def live_world_def
      empty_fin_def)

lemma live_world_facts:
  "fps_inv (w_bs live_world)" "GetFinalityProvider (w_bs live_world) pkA = Inr (sample_fp pkA)"
  "\<not> IsSlashed (sample_fp pkA)" "\<not> IsJailed (sample_fp pkA)" "window_ok (w_fin live_world)"
  "signing_inv (w_fin live_world)" "fin_GetParams (w_fin live_world) = live_params"
  "MinSignedPerWindowInt sample_ext live_params = Inr 1"
  "fs_signing_tracker (w_fin live_world) pkA = Some live_info" "fsi_StartHeight live_info = 5"
proof -
  show "fps_inv (w_bs live_world)" using staked_bs_fps by (simp add: live_world_def)
  show "GetFinalityProvider (w_bs live_world) pkA = Inr (sample_fp pkA)"
    by (simp add: live_world_def staked_bs_def GetFinalityProvider_def)
  show "\<not> IsSlashed (sample_fp pkA)" "\<not> IsJailed (sample_fp pkA)" by (simp_all add: IsSlashed_def IsJailed_def sample_fp_def)
  show par: "fin_GetParams (w_fin live_world) = live_params" by (simp add: live_world_def fin_GetParams_def)
  then show "window_ok (w_fin live_world)" by (simp add: window_ok_def live_params_def)
  show "signing_inv (w_fin live_world)"
    unfolding signing_inv_def live_world_bits
    by (simp add: live_world_def empty_fin_def live_info_def NewFinalityProviderSigningInfo_def)
  show "MinSignedPerWindowInt sample_ext live_params = Inr 1" by code_simp
qed (simp_all add: live_world_def live_info_def NewFinalityProviderSigningInfo_def)

theorem jailed_by_sliding_window_witness:
  "\<exists>w'. foldR (\<lambda>w h. HandleFinalityProviderLiveness sample_ext (sample_ctx h) pkA True h w) live_world [5..8] = Inr w' \<and>
    GetFinalityProvider (w_bs w') pkA = Inr (sample_fp pkA\<lparr>fp_Jailed := True\<rparr>)"
proof -
  have tip: "cx_BtcTip (sample_ctx h) \<noteq> None" for h by (simp add: sample_ctx_def)
  have W: "fpar_SignedBlocksWindow live_params = 2" by (simp add: live_params_def)
  have early: "\<not> sluggish live_params 1 live_info (\<lambda>_. True) k" if "fsi_StartHeight live_info \<le> k" "k < 8" for k
    using that by (simp add: sluggish_def Let_def W live_world_facts(10))
  have "{h::int. 5 \<le> h \<and> h \<le> 8 \<and> 8 - 2 < h \<and> True} = {7, 8}" by auto
  then have "card {h::int. 5 \<le> h \<and> h \<le> 8 \<and> 8 - 2 < h \<and> True} = 2" by simp
  with jailed_by_sliding_window [of live_world pkA "sample_fp pkA" live_params sample_ext 1 sample_ctx live_info 8 "\<lambda>_. True",
      OF live_world_facts(1-8) tip live_world_facts(9) live_world_bits _ early]
  show ?thesis by (simp add: W live_world_facts(10))
qed

theorem liveness_keeps_counters_witness:
  "\<exists>w'. HandleLiveness sample_ext (sample_ctx 8) 5 live_world = Inr w' \<and> fps_inv (w_bs w') \<and>
    slashed w' pkA = slashed live_world pkA"
proof -
  have k: "keys_ok (w_fin live_world)" by code_simp
  have tab: "table_pks (w_fin live_world) (word_of_int 5) = {pkA}" by (simp add: table_pks_def live_world_def)
  have "liveness_ready (word_of_int 5) live_world"
    unfolding liveness_ready_def tab using live_world_facts(2,9) by simp
  moreover have "window (w_fin live_world) = 2" by (simp add: live_world_facts(7) live_params_def)
  ultimately have "liveness_inv sample_ext (word_of_int 5) live_world"
    using live_world_facts(1,5-8) by (simp add: liveness_inv_def)
  from liveness_keeps_counters [OF k this, of "sample_ctx 8"] show ?thesis by (auto simp: sample_ctx_def)
qed

definition jailed_world :: "unit world" where
  "jailed_world = live_world\<lparr>w_bs := SetFinalityProvider (sample_fp pkA\<lparr>fp_Jailed := True\<rparr>) staked_bs\<rparr>"

theorem unjail_iff_witness:
  "\<exists>w'. Msg_UnjailFinalityProvider (sample_ctx 8\<lparr>cx_Time := 5000\<rparr>) \<lparr>mu_Signer = ''addr'', mu_FpBtcPk = Some pkA\<rparr> jailed_world = Inr w'"
proof -
  let ?c = "sample_ctx 8\<lparr>cx_Time := 5000\<rparr>" and ?req = "\<lparr>mu_Signer = ''addr'', mu_FpBtcPk = Some pkA\<rparr>"
  have "fps_inv (w_bs jailed_world)" using staked_bs_fps by (simp add: jailed_world_def)
  moreover have fp: "GetFinalityProvider (w_bs jailed_world) pkA = Inr (sample_fp pkA\<lparr>fp_Jailed := True\<rparr>)"
    "fp_Addr (sample_fp pkA\<lparr>fp_Jailed := True\<rparr>) = mu_Signer ?req" "IsJailed (sample_fp pkA\<lparr>fp_Jailed := True\<rparr>)"
    "\<not> IsSlashed (sample_fp pkA\<lparr>fp_Jailed := True\<rparr>)" "fs_signing_tracker (w_fin jailed_world) pkA = Some live_info"
    "fsi_JailedUntil live_info < cx_Time ?c"
    by (simp_all add: jailed_world_def sample_fp_def IsJailed_def IsSlashed_def live_world_def live_info_def
        NewFinalityProviderSigningInfo_def)
  moreover have "fsi_JailedUntil si \<noteq> zero_time" if "fs_signing_tracker (w_fin jailed_world) pkA = Some si" for si
    using that fp(5) by (auto simp: live_info_def NewFinalityProviderSigningInfo_def zero_time_def)
  ultimately show ?thesis using unjail_iff [of jailed_world ?req pkA ?c] by (auto simp: sample_ctx_def)
qed

definition shifted_fin :: fin_state where
  "shifted_fin = empty_fin\<lparr>fs_missed_bitmap := [((pkA, 0), {3}), ((pkA, 1), {5})]\<rparr>"

theorem missed_blocks_exact_witness:
  "set (GetFinalityProviderMissedBlocks shifted_fin pkA) =
    {i. bit_index i \<and> GetMissedBlockBitmapValue shifted_fin pkA i}"
proof (rule missed_blocks_exact)
  show "stores_wf shifted_fin"
    by (simp add: stores_wf_def shifted_fin_def empty_fin_def kv_wf_Cons less_prod_simp)
  show "chunks_contiguous shifted_fin pkA" by (simp add: chunks_contiguous_def shifted_fin_def)
qed

theorem missed_blocks_shifted_witness:
  "GetFinalityProviderMissedBlocks (empty_fin\<lparr>fs_missed_bitmap := [((pkA, 1), {5})]\<rparr>) pkA = [5] \<and>
    GetMissedBlockBitmapValue (empty_fin\<lparr>fs_missed_bitmap := [((pkA, 1), {5})]\<rparr>) pkA 1029"
  using missed_blocks_shifted [of pkA "empty_fin\<lparr>fs_missed_bitmap := [((pkA, 1), {5})]\<rparr>" 1 5] by simp

end
