(* ===== verification/Rewarding.thy ===== *)
theory Rewarding
  imports Liveness
begin

text \<open>
  Rewards of finalised blocks (\<open>keeper/rewarding.go\<close>). From the next height to reward on, up to the
  height whose votes are complete, each finalised block is handed to the incentive module with its
  voting power distribution and its voters, and its distribution cache is removed. The incentive
  module's function is a parameter (\<open>env_RewardBTCStaking\<close>).
\<close>

subsection \<open>Operations\<close>

definition GetNextHeightToReward :: "fin_state \<Rightarrow> u64" where
  "GetNextHeightToReward f = (case fs_next_height_to_reward f of None \<Rightarrow> 0 | Some h \<Rightarrow> h)"

definition SetNextHeightToReward :: "u64 \<Rightarrow> fin_state \<Rightarrow> fin_state" where
  "SetNextHeightToReward h f = f\<lparr>fs_next_height_to_reward := Some h\<rparr>"

definition refresh_commission :: "bs_state \<Rightarrow> FinalityProviderDistInfo \<Rightarrow> FinalityProviderDistInfo" where
  "refresh_commission b fp = (case GetFinalityProvider b (di_BtcPk fp) of
       Inl _ \<Rightarrow> fp
     | Inr currentFP \<Rightarrow> fp\<lparr>di_Commission := fp_Commission currentFP\<rparr>)"

definition refreshFPCommissions :: "bs_state \<Rightarrow> VotingPowerDistCache \<Rightarrow> VotingPowerDistCache result" where
  "refreshFPCommissions b dc =
     bindR (slice_to (unat (dc_NumActiveFps dc)) (dc_FinalityProviders dc)) (\<lambda>actives.
     Inr (dc\<lparr>dc_FinalityProviders := map (refresh_commission b) actives @
                drop (unat (dc_NumActiveFps dc)) (dc_FinalityProviders dc)\<rparr>))"

definition rewardBTCStaking :: "'h env \<Rightarrow> u64 \<Rightarrow> 'h world \<Rightarrow> 'h world result" where
  "rewardBTCStaking en height w = (case GetVotingPowerDistCache (w_fin w) height of
       None \<Rightarrow> Inl (Panic ''voting power distribution cache not found'')
     | Some dc \<Rightarrow>
         bindR (refreshFPCommissions (w_bs w) dc) (\<lambda>dc1.
         bindR (GetVoters (w_fin w) height) (\<lambda>voterBTCPKs.
         Inr (w\<lparr>w_ext := env_RewardBTCStaking en height dc1 voterBTCPKs (w_ext w),
                w_fin := RemoveVotingPowerDistCache height (w_fin w)\<rparr>))))"

text \<open>The body of the loop; the state is the next height to reward and the world.\<close>

definition reward_step :: "'h env \<Rightarrow> u64 \<times> 'h world \<Rightarrow> u64 \<Rightarrow> (u64 \<times> 'h world) result" where
  "reward_step en s height =
     bindR (panic_on_error (GetBlock (w_fin (snd s)) height)) (\<lambda>block.
     if \<not> ib_Finalized block then Inr s
     else bindR (rewardBTCStaking en height (snd s)) (\<lambda>w1. Inr (height + 1, w1)))"

definition reward_start :: "fin_state \<Rightarrow> u64 result" where
  "reward_start f =
     (if GetNextHeightToReward f = 0 then panic_on_error (GetBTCStakingActivatedHeight f)
      else Inr (GetNextHeightToReward f))"

definition HandleRewarding :: "'h env \<Rightarrow> int \<Rightarrow> u64 \<Rightarrow> 'h world \<Rightarrow> 'h world result" where
  "HandleRewarding en targetHeight maxRewardedBlocks w =
     bindR (reward_start (w_fin w)) (\<lambda>nextHeightToReward.
     let maxHeightToReward = min (nextHeightToReward + maxRewardedBlocks - 1) (word_of_int targetHeight)
     in bindR (foldR (reward_step en) (nextHeightToReward, w) (heights_upto nextHeightToReward maxHeightToReward)) (\<lambda>(next1, w1).
        if next1 \<noteq> nextHeightToReward then Inr (w1\<lparr>w_fin := SetNextHeightToReward next1 (w_fin w1)\<rparr>)
        else Inr w1))"

subsection \<open>The blocks that are rewarded\<close>

definition finalized_at :: "fin_state \<Rightarrow> u64 \<Rightarrow> bool" where
  "finalized_at f h \<longleftrightarrow> (\<exists>ib. fs_blocks f h = Some ib \<and> ib_Finalized ib)"

definition reward_heights :: "fin_state \<Rightarrow> u64 \<Rightarrow> u64 \<Rightarrow> int \<Rightarrow> u64 list" where
  "reward_heights f start m targetHeight =
     filter (finalized_at f) (heights_upto start (min (start + m - 1) (word_of_int targetHeight)))"

text \<open>The distribution that a block is rewarded with: that of its height, with the commissions the
  active providers have now.\<close>

definition reward_cache :: "bs_state \<Rightarrow> VotingPowerDistCache \<Rightarrow> VotingPowerDistCache" where
  "reward_cache b dc = dc\<lparr>dc_FinalityProviders :=
     map (refresh_commission b) (take (unat (dc_NumActiveFps dc)) (dc_FinalityProviders dc)) @
     drop (unat (dc_NumActiveFps dc)) (dc_FinalityProviders dc)\<rparr>"

definition reward_block :: "'h env \<Rightarrow> 'h world \<Rightarrow> u64 \<Rightarrow> 'h \<Rightarrow> 'h" where
  "reward_block en w h e = env_RewardBTCStaking en h
     (reward_cache (w_bs w) (the (GetVotingPowerDistCache (w_fin w) h))) (voters (w_fin w) h) e"

text \<open>What the loop relies on for a height: its block is indexed, and if it is finalised there is a
  distribution cache with the active providers it counts.\<close>

definition reward_ready :: "fin_state \<Rightarrow> u64 \<Rightarrow> bool" where
  "reward_ready f h \<longleftrightarrow> h \<noteq> 0 \<and> (\<exists>ib. fs_blocks f h = Some ib \<and> ib_Height ib = h \<and>
     (ib_Finalized ib \<longrightarrow> (\<exists>dc. GetVotingPowerDistCache f h = Some dc \<and>
        unat (dc_NumActiveFps dc) \<le> length (dc_FinalityProviders dc))))"

text \<open>The world after rewarding a list of heights.\<close>

definition rewarded :: "'h env \<Rightarrow> u64 list \<Rightarrow> 'h world \<Rightarrow> 'h world" where
  "rewarded en hs w = w\<lparr>w_ext := foldl (\<lambda>e h. reward_block en w h e) (w_ext w) hs,
     w_fin := (w_fin w)\<lparr>fs_vp_dist_cache := (\<lambda>h. if h \<in> set hs then None else fs_vp_dist_cache (w_fin w) h)\<rparr>\<rparr>"

lemma reward_step_rewarded:
  assumes "keys_ok (w_fin w)" "reward_ready (w_fin w) h" "h \<notin> set hs"
  shows "reward_step en (n, rewarded en hs w) h =
    Inr (if finalized_at (w_fin w) h then (h + 1, rewarded en (hs @ [h]) w) else (n, rewarded en hs w))"
proof -
  let ?w = "rewarded en hs w"
  obtain ib where ib: "h \<noteq> 0" "fs_blocks (w_fin w) h = Some ib" "ib_Height ib = h"
    and dc: "ib_Finalized ib \<Longrightarrow> \<exists>dc. GetVotingPowerDistCache (w_fin w) h = Some dc \<and>
        unat (dc_NumActiveFps dc) \<le> length (dc_FinalityProviders dc)"
    using assms(2) by (auto simp: reward_ready_def)
  have blk: "GetBlock (w_fin ?w) h = Inr ib" using ib by (auto simp: GetBlock_def rewarded_def zero_block_def)
  have fin: "finalized_at (w_fin w) h \<longleftrightarrow> ib_Finalized ib" using ib by (simp add: finalized_at_def)
  show ?thesis
  proof (cases "ib_Finalized ib")
    case False
    then show ?thesis using fin by (simp add: reward_step_def blk panic_on_error_def)
  next
    case True
    then obtain dc where d: "GetVotingPowerDistCache (w_fin w) h = Some dc"
      "unat (dc_NumActiveFps dc) \<le> length (dc_FinalityProviders dc)" using dc by blast
    have d': "GetVotingPowerDistCache (w_fin ?w) h = Some dc"
      using d(1) assms(3) by (simp add: GetVotingPowerDistCache_def rewarded_def)
    have "keys_ok (w_fin ?w)" using assms(1) by (simp add: keys_ok_def rewarded_def)
    then have v: "GetVoters (w_fin ?w) h = Inr (voters (w_fin w) h)"
      by (simp add: GetVoters_ok voters_def HasSig_def rewarded_def)
    have r: "refreshFPCommissions (w_bs ?w) dc = Inr (reward_cache (w_bs w) dc)"
      using d(2) by (simp add: refreshFPCommissions_def reward_cache_def slice_to_def rewarded_def)
    have "rewardBTCStaking en h ?w = Inr (rewarded en (hs @ [h]) w)"
      by (simp add: rewardBTCStaking_def d' r v) (simp add: rewarded_def reward_block_def d(1) RemoveVotingPowerDistCache_def fun_eq_iff)
    then show ?thesis using True fin by (simp add: reward_step_def blk panic_on_error_def)
  qed
qed

lemma reward_loop:
  assumes "keys_ok (w_fin w)" "\<And>h. h \<in> set ks \<Longrightarrow> reward_ready (w_fin w) h" "distinct ks" "set hs \<inter> set ks = {}"
  shows "foldR (reward_step en) (n, rewarded en hs w) ks =
    Inr (if filter (finalized_at (w_fin w)) ks = [] then n else last (filter (finalized_at (w_fin w)) ks) + 1,
         rewarded en (hs @ filter (finalized_at (w_fin w)) ks) w)"
  using assms(2-)
proof (induction ks arbitrary: n hs)
  case (Cons k ks)
  have "reward_step en (n, rewarded en hs w) k =
      Inr (if finalized_at (w_fin w) k then (k + 1, rewarded en (hs @ [k]) w) else (n, rewarded en hs w))"
    using Cons.prems by (intro reward_step_rewarded assms(1)) auto
  moreover have "foldR (reward_step en) (n', rewarded en hs' w) ks =
    Inr (if filter (finalized_at (w_fin w)) ks = [] then n' else last (filter (finalized_at (w_fin w)) ks) + 1,
         rewarded en (hs' @ filter (finalized_at (w_fin w)) ks) w)" if "set hs' \<inter> set ks = {}" for n' hs'
    using Cons.prems that by (intro Cons.IH) auto
  ultimately show ?case using Cons.prems by auto
qed simp

lemma rewarded_Nil: "rewarded en [] w = w"
  by (simp add: rewarded_def)

lemma sorted_heights_upto: "sorted_wrt (<) (heights_upto a (b :: 'a::len word))"
proof -
  have "sorted_wrt (\<lambda>i j. word_of_nat i < (word_of_nat j :: 'a word)) [unat a..<Suc (unat b)]"
  proof (rule sorted_wrt_mono_rel [OF _ sorted_wrt_upt])
    fix i j assume ij: "i \<in> set [unat a..<Suc (unat b)]" "j \<in> set [unat a..<Suc (unat b)]" "i < j"
    then have "i \<le> unat b" "j \<le> unat b" by auto
    from this [THEN unat_word_of_nat_le] ij(3) show "word_of_nat i < (word_of_nat j :: 'a word)"
      by (simp only: word_less_nat_alt)
  qed
  then show ?thesis by (simp only: heights_upto_def sorted_wrt_map)
qed

lemma reward_heights_past:
  assumes "(word_of_int target :: u64) \<noteq> - 1" "h \<in> set (reward_heights f s m target)"
  shows "h < last (reward_heights f s m target) + 1"
proof -
  let ?hs = "reward_heights f s m target"
  have "sorted_wrt (<) ?hs" unfolding reward_heights_def by (intro sorted_wrt_filter sorted_heights_upto)
  then have "h \<le> last ?hs" using assms(2) by (cases ?hs rule: rev_cases) (auto simp: sorted_wrt_append)
  moreover have "?hs \<noteq> []" using assms(2) by auto
  then have "last ?hs \<in> set ?hs" by (rule last_in_set)
  then have "last ?hs \<le> word_of_int target" by (simp add: reward_heights_def)
  then have "last ?hs \<noteq> - 1" using assms(1) by (auto simp: word_order.extremum_unique)
  then have "last ?hs < last ?hs + 1" by (rule word_less_succ)
  ultimately show ?thesis by (rule order_le_less_trans)
qed

subsection \<open>Properties\<close>

text \<open>C17. \<open>HandleRewarding\<close> gives the incentive module, in ascending order, exactly the finalised blocks
  from the next height to reward to the height examined (at most \<open>maxRewardedBlocks\<close> heights), each once, with
  the distribution recorded at its height, the current commissions and the voters of the height. It then
  removes the distributions it used, leaves every other store and module as it was, and moves the next
  height to reward past every block it rewarded, so that no later call rewards it again.\<close>

theorem rewards_each_finalized_block_once:
  fixes w :: "'h world"
  assumes "keys_ok (w_fin w)" "reward_start (w_fin w) = Inr s"
    and "\<And>h. s \<le> h \<Longrightarrow> h \<le> word_of_int target \<Longrightarrow> reward_ready (w_fin w) h" "(word_of_int target :: u64) \<noteq> - 1"
  shows "\<exists>w'. HandleRewarding en target m w = Inr w' \<and>
    w_ext w' = foldl (\<lambda>e h. env_RewardBTCStaking en h
        (reward_cache (w_bs w) (the (GetVotingPowerDistCache (w_fin w) h))) {pk. HasSig (w_fin w) h pk} e)
      (w_ext w) (reward_heights (w_fin w) s m target) \<and>
    w_bs w' = w_bs w \<and> w_events w' = w_events w \<and>
    fs_vp_dist_cache (w_fin w') =
      (\<lambda>h. if h \<in> set (reward_heights (w_fin w) s m target) then None else fs_vp_dist_cache (w_fin w) h) \<and>
    (\<forall>h\<in>set (reward_heights (w_fin w) s m target). h < GetNextHeightToReward (w_fin w')) \<and>
    (w_fin w')\<lparr>fs_vp_dist_cache := fs_vp_dist_cache (w_fin w), fs_next_height_to_reward := fs_next_height_to_reward (w_fin w)\<rparr> = w_fin w"
proof -
  let ?max = "min (s + m - 1) (word_of_int target) :: u64"
  let ?ks = "heights_upto s ?max" and ?hs = "reward_heights (w_fin w) s m target"
  have hs: "filter (finalized_at (w_fin w)) ?ks = ?hs" by (simp add: reward_heights_def)
  have "foldR (reward_step en) (s, rewarded en [] w) ?ks = Inr (if ?hs = [] then s else last ?hs + 1, rewarded en ([] @ ?hs) w)"
    unfolding hs [symmetric] by (rule reward_loop) (simp_all add: assms(1,3))
  then have loop: "foldR (reward_step en) (s, w) ?ks = Inr (if ?hs = [] then s else last ?hs + 1, rewarded en ?hs w)"
    by (simp add: rewarded_Nil)
  note past = reward_heights_past [OF assms(4), of _ "w_fin w" s m]
  let ?w = "rewarded en ?hs w"
  let ?w' = "if ?hs \<noteq> [] \<and> last ?hs + 1 \<noteq> s then ?w\<lparr>w_fin := SetNextHeightToReward (last ?hs + 1) (w_fin ?w)\<rparr> else ?w"
  have s0: "s \<le> last ?hs" if "?hs \<noteq> []"
    using last_in_set [OF that] by (auto simp: reward_heights_def)
  have ne: "last ?hs + 1 \<noteq> s" if "?hs \<noteq> []" using past [OF last_in_set [OF that]] s0 [OF that] by auto
  have run: "HandleRewarding en target m w = Inr ?w'"
    by (simp add: HandleRewarding_def assms(2) loop Let_def)
  have nxt: "\<forall>h\<in>set ?hs. h < GetNextHeightToReward (w_fin ?w')"
  proof
    fix h assume h: "h \<in> set ?hs"
    then have "?hs \<noteq> []" by auto
    with ne [OF this] past [OF h] show "h < GetNextHeightToReward (w_fin ?w')"
      by (simp add: SetNextHeightToReward_def GetNextHeightToReward_def)
  qed
  have ext: "w_ext ?w' = foldl (\<lambda>e h. env_RewardBTCStaking en h
      (reward_cache (w_bs w) (the (GetVotingPowerDistCache (w_fin w) h))) {pk. HasSig (w_fin w) h pk} e) (w_ext w) ?hs"
    by (simp add: rewarded_def reward_block_def voters_def)
  show ?thesis
    by (intro exI [of _ ?w'] conjI run ext nxt) (simp_all add: rewarded_def SetNextHeightToReward_def)
qed

subsection \<open>Two blocks, one of them finalised\<close>

definition reward_env :: "(u64 \<times> btcpk set) list env" where
  "reward_env = \<lparr>env_AfterBtcDelegationUnbonded = (\<lambda>_ _ _ _ _ e. Inr e),
     env_AfterBtcDelegationActivated = (\<lambda>_ _ _ _ _ e. Inr e),
     env_AfterBbnFpEntersActiveSet = (\<lambda>_ e. Inr e), env_AfterBbnFpRemovedFromActiveSet = (\<lambda>_ e. Inr e),
     env_BtcDelegationActivated = (\<lambda>_ _ _ e. Inr e), env_BtcDelegationUnbonded = (\<lambda>_ _ _ e. Inr e),
     env_RewardBTCStaking = (\<lambda>h dc V e. e @ [(h, V)]), env_IndexRefundableMsg = (\<lambda>e. e)\<rparr>"

definition reward_world :: "(u64 \<times> btcpk set) list world" where
  "reward_world = \<lparr>w_bs = staked_bs, w_fin = voted_fin\<lparr>
     fs_blocks := [5 \<mapsto> \<lparr>ib_Height = 5, ib_AppHash = ''hash'', ib_Finalized = True\<rparr>,
                   6 \<mapsto> \<lparr>ib_Height = 6, ib_AppHash = ''hash'', ib_Finalized = False\<rparr>],
     fs_vp_dist_cache := [5 \<mapsto> sample_dc [sample_di pkA 300] 1]\<rparr>, w_ext = [], w_events = []\<rparr>"

theorem rewards_each_finalized_block_once_witness:
  "\<exists>w'. HandleRewarding reward_env 6 10000 reward_world = Inr w' \<and> w_ext w' = [(5, {pkA})] \<and>
    5 < GetNextHeightToReward (w_fin w') \<and> fs_vp_dist_cache (w_fin w') 5 = None"
proof -
  let ?f = "w_fin reward_world"
  have k: "keys_ok ?f" "reward_start ?f = Inr 5" by code_simp+
  have "reward_ready ?f 5" "reward_ready ?f 6"
    by (simp_all add: reward_ready_def reward_world_def GetVotingPowerDistCache_def sample_dc_def
        NewVotingPowerDistCache_def)
  moreover have "h = 5 \<or> h = 6" if "5 \<le> h" "h \<le> word_of_int 6" for h :: u64
  proof -
    have "unat h = 5 \<or> unat h = 6" using that by (auto simp: word_le_nat_alt)
    then show ?thesis by (auto simp: word_unat_eq_iff)
  qed
  ultimately have ready: "reward_ready ?f h" if "5 \<le> h" "h \<le> word_of_int 6" for h using that by blast
  have hs: "reward_heights ?f 5 10000 6 = [5]"
  proof -
    have "heights_upto 5 (min (5 + 10000 - 1) (word_of_int 6 :: u64)) = [5, 6]" by code_simp
    then show ?thesis by (simp add: reward_heights_def finalized_at_def reward_world_def)
  qed
  have v: "{pk. HasSig ?f 5 pk} = {pkA}" by (auto simp: HasSig_def kv_has_def reward_world_def voted_fin_def)
  have r: "env_RewardBTCStaking reward_env h dc V e = e @ [(h, V)]" "w_ext reward_world = []" for h dc V e
    by (simp_all add: reward_env_def reward_world_def)
  have "(word_of_int 6 :: u64) \<noteq> - 1" by simp
  from rewards_each_finalized_block_once [where en = reward_env and target = 6 and m = 10000, OF k ready this]
  show ?thesis unfolding hs by (auto simp: v r)
qed

end
