(* ===== verification/Resume_Finality.thy ===== *)
theory Resume_Finality
  imports Rewarding
begin

text \<open>
  Governance of \<open>x/finality\<close> (\<open>keeper/gov.go\<close>, and \<open>UpdateParams\<close> and \<open>ResumeFinalityProposal\<close> of
  \<open>keeper/msg_server.go\<close>): when finality has halted, the listed providers are jailed and lose their voting
  power from the halting height to the current height.
\<close>

subsection \<open>Operations\<close>

record MsgResumeFinalityProposal =
  mr_Authority :: string
  mr_FpPksHex :: "string list"
  mr_HaltingHeight :: u32

text \<open>The loop of \<open>ValidateBasic\<close> over the keys, with the keys already seen.\<close>

fun resume_keys_ok :: "string set \<Rightarrow> string list \<Rightarrow> unit result" where
  "resume_keys_ok fps [] = Inr ()"
| "resume_keys_ok fps (fpPkHex # rest) = (case NewBIP340PubKeyFromHex fpPkHex of
       Inl _ \<Rightarrow> Inl (Finality ErrInvalidResumeFinality)
     | Inr _ \<Rightarrow> guardR (fpPkHex \<in> fps) (Finality ErrInvalidResumeFinality)
                 (resume_keys_ok (insert fpPkHex fps) rest))"

definition Resume_ValidateBasic :: "ext \<Rightarrow> MsgResumeFinalityProposal \<Rightarrow> unit result" where
  "Resume_ValidateBasic x m =
     guardR (ext_bech32 x (mr_Authority m) = None) (Lib ''ErrInvalidAddress'')
    (guardR (mr_HaltingHeight m = 0) (Finality ErrInvalidResumeFinality)
    (guardR (mr_FpPksHex m = []) (Finality ErrInvalidResumeFinality)
    (resume_keys_ok {} (mr_FpPksHex m))))"

text \<open>The body of the loop over the given keys: the world, and the keys to jail as they were given.\<close>

definition resume_jail ::
  "ctx \<Rightarrow> btcpk set \<Rightarrow> 'h world \<times> string set \<Rightarrow> string \<Rightarrow> ('h world \<times> string set) result" where
  "resume_jail c voted s fpPkHex =
     bindR (NewBIP340PubKeyFromHex fpPkHex) (\<lambda>fpPk.
     let w = fst s; fpPksToJail = insert fpPkHex (snd s) in
     guardR (fpPkHex \<in> voted) (Errorf ''the finality provider has voted for the height'')
    (bindR (GetFinalityProvider (w_bs w) fpPk) (\<lambda>fp.
     if IsSlashed fp \<or> IsJailed fp then Inr (w, fpPksToJail)
     else bindR (jailSluggishFinalityProvider c fpPk w) (\<lambda>w1.
          case fs_signing_tracker (w_fin w1) fpPk of
            None \<Rightarrow> Inl (Errorf ''the signing info of the finality provider is not created'')
          | Some signInfo \<Rightarrow>
              let signInfo1 = signInfo\<lparr>fsi_JailedUntil := cx_Time c + fpar_JailDuration (fin_GetParams (w_fin w)),
                                        fsi_MissedBlocksCounter := 0\<rparr>
              in Inr (w1\<lparr>w_fin := set_signing_info fpPk signInfo1 (DeleteMissedBlockBitmap fpPk (w_fin w1))\<rparr>,
                      fpPksToJail)))))"

text \<open>The body of the loop over the providers of a distribution cache.\<close>

definition resume_fp ::
  "u64 \<Rightarrow> bool \<Rightarrow> string set \<Rightarrow> ProcessingState \<times> VotingPowerDistCache \<times> fin_state \<Rightarrow> FinalityProviderDistInfo \<Rightarrow>
   ProcessingState \<times> VotingPowerDistCache \<times> fin_state" where
  "resume_fp blkHeight isCurrHeight fpPksToJail s fp =
     (let (state, newDc, f) = s; shouldJail = di_BtcPk fp \<in> fpPksToJail; jail = shouldJail \<and> \<not> di_IsSlashed fp;
          fp1 = (if jail then fp\<lparr>di_IsJailed := True\<rparr> else fp);
          state1 = (if jail \<and> isCurrHeight then set_fp_state (di_BtcPk fp) STATE_JAILED state else state);
          f1 = (if shouldJail then SetVotingPower (di_BtcPk fp) blkHeight 0 f else f)
      in (state1, AddFinalityProviderDistInfo fp1 newDc, f1))"

text \<open>Below the current height the processing state is nil; it is read for a provider that leaves the
  active set and is neither jailed nor slashed.\<close>

definition reads_state :: "VotingPowerDistCache \<Rightarrow> VotingPowerDistCache \<Rightarrow> bool" where
  "reads_state dc newDc = (case FindNewInactiveFinalityProviders newDc dc of
       Inl _ \<Rightarrow> False
     | Inr fps \<Rightarrow> list_ex (\<lambda>fp. \<not> (di_IsJailed fp \<or> di_IsSlashed fp)) fps)"

definition resume_height :: "'h env \<Rightarrow> ctx \<Rightarrow> string set \<Rightarrow> 'h world \<Rightarrow> u64 \<Rightarrow> 'h world result" where
  "resume_height en c fpPksToJail w blkHeight = (case GetVotingPowerDistCache (w_fin w) blkHeight of
       None \<Rightarrow> Inl (Panic ''nil distribution cache'')
     | Some dc \<Rightarrow>
         let isCurrHeight = (blkHeight = cx_height c);
             state0 = (if isCurrHeight then FillByPrevVpDstCache dc NewProcessingState else NewProcessingState);
             (state, newDc, f) = foldl (resume_fp blkHeight isCurrHeight fpPksToJail)
               (state0, NewVotingPowerDistCache, w_fin w) (dc_FinalityProviders dc);
             newDc1 = ApplyActiveFinalityProviders (dc_NumActiveFps dc) newDc;
             w1 = w\<lparr>w_fin := SetVotingPowerDistCache blkHeight newDc1 f\<rparr>
         in guardR (\<not> isCurrHeight \<and> reads_state dc newDc1) (Panic ''nil processing state'')
              (HandleFPStateUpdates en c state dc newDc1 isCurrHeight w1))"

definition HandleResumeFinalityProposal ::
  "'h env \<Rightarrow> ctx \<Rightarrow> string list \<Rightarrow> u32 \<Rightarrow> 'h world \<Rightarrow> 'h world result" where
  "HandleResumeFinalityProposal en c fpPksHex haltingHeight w =
     guardR (ucast haltingHeight < fpar_FinalityActivationHeight (fin_GetParams (w_fin w)))
       (Errorf ''finality halting height cannot be lower than finality activation height'')
    (guardR (uint haltingHeight > cx_Height c) (Errorf ''finality halting height is in the future'')
    (bindR (GetVoters (w_fin w) (ucast haltingHeight)) (\<lambda>voted.
     bindR (foldR (resume_jail c voted) (w, {}) fpPksHex) (\<lambda>(w1, fpPksToJail).
     foldR (resume_height en c fpPksToJail) w1 (heights_upto (ucast haltingHeight) (cx_height c))))))"

text \<open>\<open>authority\<close> is the field of the keeper.\<close>

definition Msg_ResumeFinalityProposal ::
  "string \<Rightarrow> 'h env \<Rightarrow> ctx \<Rightarrow> MsgResumeFinalityProposal \<Rightarrow> 'h world \<Rightarrow> 'h world result" where
  "Msg_ResumeFinalityProposal authority en c req w =
     guardR (authority \<noteq> mr_Authority req) (Lib ''ErrInvalidSigner'')
    (case HandleResumeFinalityProposal en c (mr_FpPksHex req) (mr_HaltingHeight req) w of
       Inl (Panic s) \<Rightarrow> Inl (Panic s)
     | Inl _ \<Rightarrow> Inl (Lib ''ErrInvalidProposalMsg'')
     | Inr w1 \<Rightarrow> Inr w1)"

definition Finality_UpdateParams :: "string \<Rightarrow> string \<Rightarrow> FinalityParams \<Rightarrow> fin_state \<Rightarrow> fin_state result" where
  "Finality_UpdateParams authority reqAuthority params f =
     guardR (authority \<noteq> reqAuthority) (Lib ''ErrInvalidSigner'')
    (case fin_Params_Validate params of
       Inl _ \<Rightarrow> Inl (Lib ''ErrInvalidProposalMsg'')
     | Inr _ \<Rightarrow> fin_SetParams params f)"

subsection \<open>The providers that are jailed\<close>

definition sidelined :: "'h world \<Rightarrow> btcpk \<Rightarrow> bool" where
  "sidelined w pk \<longleftrightarrow> (\<exists>fp. GetFinalityProvider (w_bs w) pk = Inr fp \<and> (IsSlashed fp \<or> IsJailed fp))"

text \<open>Only signing infos and bitmaps of the finality state change.\<close>

definition signing_only :: "fin_state \<Rightarrow> fin_state \<Rightarrow> bool" where
  "signing_only f f' \<longleftrightarrow>
     f'\<lparr>fs_missed_bitmap := fs_missed_bitmap f, fs_signing_tracker := fs_signing_tracker f\<rparr> = f"

lemma signing_only_fields:
  assumes "signing_only f f'"
  shows "fs_voting_power f' = fs_voting_power f" "fs_votes f' = fs_votes f" "fs_blocks f' = fs_blocks f"
    "fs_vp_dist_cache f' = fs_vp_dist_cache f" "fs_next_height_to_finalize f' = fs_next_height_to_finalize f"
    "fs_params f' = fs_params f"
proof -
  note eq = assms [unfolded signing_only_def]
  show "fs_voting_power f' = fs_voting_power f" "fs_votes f' = fs_votes f" "fs_blocks f' = fs_blocks f"
    "fs_vp_dist_cache f' = fs_vp_dist_cache f" "fs_next_height_to_finalize f' = fs_next_height_to_finalize f"
    "fs_params f' = fs_params f"
    using arg_cong [OF eq, of fs_voting_power] arg_cong [OF eq, of fs_votes] arg_cong [OF eq, of fs_blocks]
      arg_cong [OF eq, of fs_vp_dist_cache] arg_cong [OF eq, of fs_next_height_to_finalize]
      arg_cong [OF eq, of fs_params] by simp_all
qed

lemma signing_only_trans: "signing_only f g \<Longrightarrow> signing_only g k \<Longrightarrow> signing_only f k"
proof -
  assume fg: "signing_only f g" and gk: "signing_only g k"
  show "signing_only f k"
    unfolding signing_only_def
    using arg_cong [OF gk [unfolded signing_only_def], of "\<lambda>s. s\<lparr>fs_missed_bitmap := fs_missed_bitmap f, fs_signing_tracker := fs_signing_tracker f\<rparr>"]
      fg [unfolded signing_only_def] by simp
qed

definition jail_effect :: "btcpk set \<Rightarrow> 'h world \<Rightarrow> 'h world \<Rightarrow> bool" where
  "jail_effect A w w' \<longleftrightarrow> fps_inv (w_bs w') \<and> signing_only (w_fin w) (w_fin w') \<and> (\<forall>pk\<in>A. sidelined w' pk) \<and>
     (\<forall>pk. sidelined w pk \<longrightarrow> sidelined w' pk) \<and> (\<forall>pk. slashed w' pk = slashed w pk) \<and>
     (\<forall>pk. pk \<notin> A \<longrightarrow> GetFinalityProvider (w_bs w') pk = GetFinalityProvider (w_bs w) pk)"

lemma resume_jail_effect:
  assumes "fps_inv (w_bs w)" "resume_jail c V (w, J) hex = Inr (w', J')"
  shows "J' = insert hex J \<and> hex \<notin> V \<and> NewBIP340PubKeyFromHex hex = Inr (map to_lower hex) \<and>
    jail_effect {map to_lower hex} w w'"
proof -
  have pk: "NewBIP340PubKeyFromHex hex = Inr (map to_lower hex)"
    using assms(2) by (auto simp: resume_jail_def bindR_eq_Inr NewBIP340PubKeyFromHex_def split: if_splits)
  let ?pk = "map to_lower hex"
  obtain fp where fp: "GetFinalityProvider (w_bs w) ?pk = Inr fp" and V: "hex \<notin> V"
    using assms(2) by (auto simp: resume_jail_def pk bindR_eq_Inr guardR_eq_Inr Let_def)
  show ?thesis
  proof (cases "IsSlashed fp \<or> IsJailed fp")
    case True
    then have "w' = w" "J' = insert hex J" using assms(2) V by (auto simp: resume_jail_def pk fp Let_def)
    with True V pk fp assms(1) show ?thesis by (auto simp: jail_effect_def sidelined_def signing_only_def)
  next
    case False
    obtain w1 si1 where w1: "jailSluggishFinalityProvider c ?pk w = Inr w1"
      and w': "w' = w1\<lparr>w_fin := set_signing_info ?pk si1 (DeleteMissedBlockBitmap ?pk (w_fin w1))\<rparr>" "J' = insert hex J"
      using assms(2) V False by (auto simp: resume_jail_def pk fp Let_def bindR_eq_Inr split: option.splits)
    obtain b where b: "JailFinalityProvider c ?pk (w_bs w) = Inr b" "w_bs w1 = b" "w_fin w1 = w_fin w"
      using w1 by (auto simp: jailSluggishFinalityProvider_def bindR_eq_Inr)
    obtain fp' where eff: "fps_inv b" "GetFinalityProvider (w_bs w) ?pk = Inr fp'"
      "\<And>q. GetFinalityProvider b q = (if q = ?pk then Inr (fp'\<lparr>fp_Jailed := True\<rparr>) else GetFinalityProvider (w_bs w) q)"
      using bsk.jail_effect [OF assms(1) b(1)] by auto
    have "signing_only (w_fin w) (w_fin w')"
      by (simp add: w' b signing_only_def set_signing_info_def DeleteMissedBlockBitmap_def)
    moreover have "fps_inv (w_bs w')" "GetFinalityProvider (w_bs w') q =
        (if q = ?pk then Inr (fp'\<lparr>fp_Jailed := True\<rparr>) else GetFinalityProvider (w_bs w) q)" for q
      using eff(1,3) by (simp_all add: w' b)
    ultimately have "jail_effect {?pk} w w'"
      using eff(2) by (auto simp: jail_effect_def sidelined_def slashed_def IsJailed_def)
    with V pk w' show ?thesis by blast
  qed
qed

lemma jail_effect_trans: "jail_effect A w w1 \<Longrightarrow> jail_effect B w1 w2 \<Longrightarrow> jail_effect (A \<union> B) w w2"
  unfolding jail_effect_def by (auto intro: signing_only_trans)

lemma resume_jail_loop:
  assumes "fps_inv (w_bs w)" "foldR (resume_jail c V) (w, J) hs = Inr (w', J')"
  shows "J' = J \<union> set hs \<and> set hs \<inter> V = {} \<and> jail_effect (map to_lower ` set hs) w w'"
  using assms
proof (induction hs arbitrary: w J)
  case Nil
  then show ?case by (auto simp: jail_effect_def signing_only_def)
next
  case (Cons h hs)
  obtain w1 J1 where s: "resume_jail c V (w, J) h = Inr (w1, J1)" "foldR (resume_jail c V) (w1, J1) hs = Inr (w', J')"
    using Cons.prems(2) by (auto simp: bindR_eq_Inr)
  have one: "J1 = insert h J" "h \<notin> V" "jail_effect {map to_lower h} w w1"
    using resume_jail_effect [OF Cons.prems(1) s(1)] by blast+
  have "fps_inv (w_bs w1)" using one(3) by (simp add: jail_effect_def)
  from Cons.IH [OF this s(2)] one jail_effect_trans [OF one(3)] show ?case by auto
qed

subsection \<open>The power that is taken away\<close>

text \<open>The voting power store after the listed providers of a height lost their power.\<close>

definition zeroed :: "(u64 \<times> btcpk, u64) kv \<Rightarrow> (u64 \<times> btcpk) set \<Rightarrow> (u64 \<times> btcpk, u64) kv \<Rightarrow> bool" where
  "zeroed m K m' \<longleftrightarrow> (kv_wf m \<longrightarrow> kv_wf m') \<and> (\<forall>k. kv_get m' k = (if k \<in> K then Some 0 else kv_get m k))"

lemma zeroed_trans: "zeroed m K m1 \<Longrightarrow> zeroed m1 L m2 \<Longrightarrow> zeroed m (K \<union> L) m2"
  by (auto simp: zeroed_def)

lemma zeroed_refl: "zeroed m {} m"
  by (simp add: zeroed_def)

lemma resume_fps:
  "\<exists>m. snd (snd (foldl (resume_fp h cur J) s fps)) = (snd (snd s))\<lparr>fs_voting_power := m\<rparr> \<and>
    zeroed (fs_voting_power (snd (snd s))) ({h} \<times> (J \<inter> di_BtcPk ` set fps)) m"
proof (induction fps arbitrary: s)
  case Nil
  show ?case by (intro exI [of _ "fs_voting_power (snd (snd s))"]) (simp add: zeroed_refl)
next
  case (Cons fp fps)
  let ?s = "resume_fp h cur J s fp"
  obtain st dc f where s: "s = (st, dc, f)" by (cases s) auto
  obtain m1 where m1: "snd (snd ?s) = f\<lparr>fs_voting_power := m1\<rparr>"
    "zeroed (fs_voting_power f) ({h} \<times> (J \<inter> {di_BtcPk fp})) m1"
  proof (cases "di_BtcPk fp \<in> J")
    case True
    then show ?thesis
      by (intro that [of "kv_set (h, di_BtcPk fp) 0 (fs_voting_power f)"])
        (auto simp: resume_fp_def s SetVotingPower_def Let_def zeroed_def)
  next
    case False
    then show ?thesis
      by (intro that [of "fs_voting_power f"]) (auto simp: resume_fp_def s Let_def zeroed_def)
  qed
  obtain m2 where m2: "snd (snd (foldl (resume_fp h cur J) ?s fps)) = (snd (snd ?s))\<lparr>fs_voting_power := m2\<rparr>"
    "zeroed (fs_voting_power (snd (snd ?s))) ({h} \<times> (J \<inter> di_BtcPk ` set fps)) m2"
    using Cons.IH by blast
  have "zeroed (fs_voting_power f) ({h} \<times> (J \<inter> {di_BtcPk fp}) \<union> {h} \<times> (J \<inter> di_BtcPk ` set fps)) m2"
    using m1 m2(2) by (intro zeroed_trans [OF m1(2)]) simp
  moreover have "{h} \<times> (J \<inter> {di_BtcPk fp}) \<union> {h} \<times> (J \<inter> di_BtcPk ` set fps) = {h} \<times> (J \<inter> di_BtcPk ` set (fp # fps))" by auto
  ultimately show ?case using m1 m2(1) by (intro exI [of _ m2]) (simp add: s)
qed

definition cache_pks :: "fin_state \<Rightarrow> u64 \<Rightarrow> btcpk set" where
  "cache_pks f h = (case GetVotingPowerDistCache f h of
       None \<Rightarrow> {} | Some dc \<Rightarrow> di_BtcPk ` set (dc_FinalityProviders dc))"

text \<open>What the loop over the heights changes.\<close>

definition resume_change :: "u64 set \<Rightarrow> string set \<Rightarrow> 'h world \<Rightarrow> 'h world \<Rightarrow> bool" where
  "resume_change H J w w' \<longleftrightarrow> w_bs w' = w_bs w \<and>
     (\<forall>h. h \<notin> H \<longrightarrow> fs_vp_dist_cache (w_fin w') h = fs_vp_dist_cache (w_fin w) h) \<and>
     fs_votes (w_fin w') = fs_votes (w_fin w) \<and> fs_blocks (w_fin w') = fs_blocks (w_fin w) \<and>
     fs_next_height_to_finalize (w_fin w') = fs_next_height_to_finalize (w_fin w) \<and>
     zeroed (fs_voting_power (w_fin w)) {(h, pk). h \<in> H \<and> pk \<in> J \<inter> cache_pks (w_fin w) h} (fs_voting_power (w_fin w'))"

lemma resume_height_change:
  assumes "resume_height en c J w h = Inr w'"
  shows "resume_change {h} J w w'"
proof -
  obtain dc where dc: "GetVotingPowerDistCache (w_fin w) h = Some dc"
    using assms by (auto simp: resume_height_def split: option.splits)
  let ?st = "if h = cx_height c then FillByPrevVpDstCache dc NewProcessingState else NewProcessingState"
  let ?r = "foldl (resume_fp h (h = cx_height c) J) (?st, NewVotingPowerDistCache, w_fin w) (dc_FinalityProviders dc)"
  obtain m where m: "snd (snd ?r) = (w_fin w)\<lparr>fs_voting_power := m\<rparr>"
    "zeroed (fs_voting_power (w_fin w)) ({h} \<times> (J \<inter> di_BtcPk ` set (dc_FinalityProviders dc))) m"
    using resume_fps [of h "h = cx_height c" J "(?st, NewVotingPowerDistCache, w_fin w)"] by auto
  obtain newDc st where run: "HandleFPStateUpdates en c st dc newDc (h = cx_height c)
      (w\<lparr>w_fin := SetVotingPowerDistCache h newDc (snd (snd ?r))\<rparr>) = Inr w'"
    using assms by (auto simp: resume_height_def dc Let_def guardR_eq_Inr case_prod_beta)
  have "same_stores (w\<lparr>w_fin := SetVotingPowerDistCache h newDc (snd (snd ?r))\<rparr>) w'"
    by (rule HandleFPStateUpdates_stores [OF run])
  moreover have "{(h', pk). h' \<in> {h} \<and> pk \<in> J \<inter> cache_pks (w_fin w) h'} = {h} \<times> (J \<inter> di_BtcPk ` set (dc_FinalityProviders dc))"
    by (auto simp: cache_pks_def dc)
  ultimately show ?thesis using m unfolding resume_change_def same_stores_def SetVotingPowerDistCache_def by auto
qed

lemma resume_heights_change:
  assumes "foldR (resume_height en c J) w hs = Inr w'" "distinct hs"
  shows "resume_change (set hs) J w w'"
  using assms
proof (induction hs arbitrary: w)
  case Nil
  then show ?case by (simp add: resume_change_def zeroed_refl)
next
  case (Cons h hs)
  obtain w1 where w1: "resume_height en c J w h = Inr w1" "foldR (resume_height en c J) w1 hs = Inr w'"
    using Cons.prems(1) by (auto simp: bindR_eq_Inr)
  have one: "resume_change {h} J w w1" by (rule resume_height_change [OF w1(1)])
  have rest: "resume_change (set hs) J w1 w'" using Cons.IH [OF w1(2)] Cons.prems(2) by simp
  let ?K = "\<lambda>H v. {(k, pk). k \<in> H \<and> pk \<in> J \<inter> cache_pks (w_fin v) k}"
  have cache: "cache_pks (w_fin w1) k = cache_pks (w_fin w) k" if "k \<in> set hs" for k
  proof -
    have "k \<notin> {h}" using that Cons.prems(2) by auto
    then have "fs_vp_dist_cache (w_fin w1) k = fs_vp_dist_cache (w_fin w) k" using one unfolding resume_change_def by blast
    then show ?thesis by (simp only: cache_pks_def GetVotingPowerDistCache_def)
  qed
  have "zeroed (fs_voting_power (w_fin w)) (?K {h} w) (fs_voting_power (w_fin w1))"
    "zeroed (fs_voting_power (w_fin w1)) (?K (set hs) w1) (fs_voting_power (w_fin w'))"
    using one rest unfolding resume_change_def by blast+
  then have "zeroed (fs_voting_power (w_fin w)) (?K {h} w \<union> ?K (set hs) w1) (fs_voting_power (w_fin w'))"
    by (rule zeroed_trans)
  moreover have "?K {h} w \<union> ?K (set hs) w1 = ?K (set (h # hs)) w" using cache by auto
  ultimately have z: "zeroed (fs_voting_power (w_fin w)) (?K (set (h # hs)) w) (fs_voting_power (w_fin w'))" by (simp only:)
  show ?case
    unfolding resume_change_def
  proof (intro conjI allI impI z)
    fix k assume "k \<notin> set (h # hs)"
    then show "fs_vp_dist_cache (w_fin w') k = fs_vp_dist_cache (w_fin w) k"
      using one rest by (simp add: resume_change_def)
  qed (use one rest in \<open>simp_all add: resume_change_def\<close>)
qed

lemma resume_parts:
  assumes "fps_inv (w_bs w)" "keys_ok (w_fin w)" "HandleResumeFinalityProposal en c hexs hh w = Inr w'"
  shows "\<exists>w1. set hexs \<inter> voters (w_fin w) (ucast hh) = {} \<and> jail_effect (map to_lower ` set hexs) w w1 \<and>
    resume_change {ucast hh..cx_height c} (set hexs) w1 w'"
proof -
  obtain w1 J where s: "foldR (resume_jail c (voters (w_fin w) (ucast hh))) (w, {}) hexs = Inr (w1, J)"
    "foldR (resume_height en c J) w1 (heights_upto (ucast hh) (cx_height c)) = Inr w'"
    using assms(3) by (auto simp: HandleResumeFinalityProposal_def guardR_eq_Inr bindR_eq_Inr GetVoters_ok [OF assms(2)]
        voters_def)
  from resume_jail_loop [OF assms(1) s(1)] have J: "J = set hexs" "set hexs \<inter> voters (w_fin w) (ucast hh) = {}"
    "jail_effect (map to_lower ` set hexs) w w1" by auto
  from resume_heights_change [OF s(2)] J show ?thesis by (intro exI [of _ w1]) simp
qed

lemma resume_zeroed:
  assumes "jail_effect A w w1" "resume_change H J w1 w'"
  shows "zeroed (fs_voting_power (w_fin w)) {(h, pk). h \<in> H \<and> pk \<in> J \<inter> cache_pks (w_fin w) h} (fs_voting_power (w_fin w'))"
proof -
  have so: "signing_only (w_fin w) (w_fin w1)" using assms(1) by (simp add: jail_effect_def)
  have "cache_pks (w_fin w1) = cache_pks (w_fin w)"
    by (simp add: cache_pks_def GetVotingPowerDistCache_def signing_only_fields [OF so] fun_eq_iff)
  then show ?thesis using assms(2) unfolding resume_change_def signing_only_fields(1) [OF so] by (elim conjE) (simp only:)
qed

lemma GetVotingPower_zeroed:
  assumes "zeroed (fs_voting_power f) K (fs_voting_power f')"
  shows "GetVotingPower f' pk h = (if (h, pk) \<in> K then 0 else GetVotingPower f pk h)"
  using assms by (simp add: zeroed_def GetVotingPower_def)

subsection \<open>Properties\<close>

text \<open>C33. A resume proposal that succeeds leaves every listed provider jailed or slashed and nobody newly
  slashed. It takes the voting power of exactly the listed keys that are in the distribution cache, at
  exactly the heights from the halting height to the current one; no other voting power, and no vote,
  block or finalised height changes. None of the listed keys is that of a voter of the halting height.\<close>

theorem resume_takes_power:
  assumes "fps_inv (w_bs w)" "keys_ok (w_fin w)" "HandleResumeFinalityProposal en c hexs hh w = Inr w'"
  shows "(\<forall>hex\<in>set hexs. sidelined w' (map to_lower hex) \<and> \<not> HasSig (w_fin w) (ucast hh) hex) \<and>
    (\<forall>pk. slashed w' pk = slashed w pk) \<and>
    (\<forall>pk h. GetVotingPower (w_fin w') pk h =
      (if ucast hh \<le> h \<and> h \<le> cx_height c \<and> pk \<in> set hexs \<and> pk \<in> cache_pks (w_fin w) h then 0
       else GetVotingPower (w_fin w) pk h)) \<and>
    fs_votes (w_fin w') = fs_votes (w_fin w) \<and> fs_blocks (w_fin w') = fs_blocks (w_fin w) \<and>
    getNextHeightToFinalize (w_fin w') = getNextHeightToFinalize (w_fin w)"
proof -
  obtain w1 where w1: "set hexs \<inter> voters (w_fin w) (ucast hh) = {}" "jail_effect (map to_lower ` set hexs) w w1"
    and ch: "resume_change {ucast hh..cx_height c} (set hexs) w1 w'"
    using resume_parts [OF assms] by blast
  have so: "signing_only (w_fin w) (w_fin w1)" using w1(2) by (simp add: jail_effect_def)
  note same = signing_only_fields [OF so]
  have pow: "GetVotingPower (w_fin w') pk h =
      (if ucast hh \<le> h \<and> h \<le> cx_height c \<and> pk \<in> set hexs \<and> pk \<in> cache_pks (w_fin w) h then 0
       else GetVotingPower (w_fin w) pk h)" for pk h
    using GetVotingPower_zeroed [OF resume_zeroed [OF w1(2) ch], of pk h] by simp
  have side: "\<forall>hex\<in>set hexs. sidelined w' (map to_lower hex) \<and> \<not> HasSig (w_fin w) (ucast hh) hex"
    using w1 ch by (auto simp: jail_effect_def resume_change_def sidelined_def voters_def)
  have slash: "slashed w' pk = slashed w pk" for pk
    using w1(2) ch by (simp add: jail_effect_def resume_change_def slashed_def)
  show ?thesis
    using side slash pow ch same by (simp add: resume_change_def getNextHeightToFinalize_def)
qed

lemma table_pks_iff: "pk \<in> table_pks f h \<longleftrightarrow> kv_get (fs_voting_power f) (h, pk) \<noteq> None"
  using kv_get_None [of "fs_voting_power f" "(h, pk)"] by (auto simp: table_pks_def keys_kv_sub)

lemma zeroed_power:
  assumes z: "zeroed (fs_voting_power f) K (fs_voting_power f')" and K: "\<And>pk. (h, pk) \<in> K \<longleftrightarrow> pk \<in> A"
  shows "total_power f' h = power_of f h (- A)" "B \<inter> A = {} \<Longrightarrow> power_of f' h B = power_of f h B"
proof -
  have get: "kv_get (fs_voting_power f') (h, pk) = (if pk \<in> A then Some 0 else kv_get (fs_voting_power f) (h, pk))" for pk
    using z K by (simp add: zeroed_def)
  have tab: "table_pks f' h = table_pks f h \<union> A" by (auto simp: table_pks_iff get split: if_splits)
  have pow: "power_at f' h pk = (if pk \<in> A then 0 else power_at f h pk)" for pk
    by (simp add: power_at_def GetVotingPower_def get)
  have fin: "finite (table_pks f' h)" by (simp add: table_pks_def)
  have "total_power f' h = (\<Sum>pk\<in>table_pks f' h. if pk \<in> A then 0 else power_at f h pk)"
    by (simp only: total_power_def pow)
  also have "\<dots> = (\<Sum>pk\<in>table_pks f' h \<inter> - A. power_at f h pk)"
    using fin by (simp add: sum.If_cases)
  also have "table_pks f' h \<inter> - A = - A \<inter> table_pks f h" by (auto simp: tab)
  finally show "total_power f' h = power_of f h (- A)" by (simp only: power_of_def)
  assume B: "B \<inter> A = {}"
  then have "B \<inter> table_pks f' h = B \<inter> table_pks f h" by (auto simp: tab)
  then show "power_of f' h B = power_of f h B"
    using B unfolding power_of_def by (auto simp: pow intro!: sum.cong)
qed

text \<open>C19. The purpose of the proposal: when every listed key is in the cache of the halting height, the block at
  that height has a quorum afterwards exactly when its voters hold more than two thirds of the power of
  the providers that are not listed; a quorum it had before is kept.\<close>

theorem resume_restores_quorum:
  assumes "fps_inv (w_bs w)" "keys_ok (w_fin w)" "HandleResumeFinalityProposal en c hexs hh w = Inr w'"
    and "set hexs \<subseteq> cache_pks (w_fin w) (ucast hh)" "ucast hh \<le> cx_height c"
  shows "(has_quorum (w_fin w') (ucast hh) (voters (w_fin w') (ucast hh)) \<longleftrightarrow>
      3 * power_of (w_fin w) (ucast hh) (voters (w_fin w) (ucast hh)) > 2 * power_of (w_fin w) (ucast hh) (- set hexs)) \<and>
    (has_quorum (w_fin w) (ucast hh) (voters (w_fin w) (ucast hh)) \<longrightarrow>
      has_quorum (w_fin w') (ucast hh) (voters (w_fin w') (ucast hh)))"
proof -
  let ?h = "ucast hh :: u64" and ?f = "w_fin w"
  obtain w1 where w1: "set hexs \<inter> voters ?f ?h = {}" "jail_effect (map to_lower ` set hexs) w w1"
    and ch: "resume_change {?h..cx_height c} (set hexs) w1 w'"
    using resume_parts [OF assms(1-3)] by blast
  have K: "(?h, pk) \<in> {(h, pk). h \<in> {?h..cx_height c} \<and> pk \<in> set hexs \<inter> cache_pks ?f h} \<longleftrightarrow> pk \<in> set hexs" for pk
    using assms(4,5) by auto
  note pow = zeroed_power [OF resume_zeroed [OF w1(2) ch] K]
  have so: "signing_only ?f (w_fin w1)" using w1(2) by (simp add: jail_effect_def)
  have v: "voters (w_fin w') ?h = voters ?f ?h"
    using ch signing_only_fields(2) [OF so] by (simp add: resume_change_def voters_def HasSig_def)
  have q: "has_quorum (w_fin w') ?h (voters (w_fin w') ?h) \<longleftrightarrow>
      3 * power_of ?f ?h (voters ?f ?h) > 2 * power_of ?f ?h (- set hexs)"
    using pow w1(1) by (simp add: has_quorum_def v Int_commute)
  moreover have "power_of ?f ?h (- set hexs) \<le> total_power ?f ?h"
    unfolding power_of_def total_power_def by (rule sum_mono2) (auto simp: table_pks_def)
  ultimately show ?thesis by (auto simp: has_quorum_def)
qed

text \<open>C36. The keys are compared as they are written: a key in upper case passes the check that the provider
  has not voted. The provider is jailed although it voted for the halting height, and keeps its voting
  power at every height.\<close>

theorem resume_uppercase_jails_voter:
  assumes "fps_inv (w_bs w)" "keys_ok (w_fin w)" "HandleResumeFinalityProposal en c [hex] hh w = Inr w'"
    and "map to_lower hex = pk" "hex \<noteq> pk" "HasSig (w_fin w) (ucast hh) pk"
  shows "sidelined w' pk \<and> (\<forall>h. GetVotingPower (w_fin w') pk h = GetVotingPower (w_fin w) pk h) \<and>
    HasSig (w_fin w') (ucast hh) pk"
proof -
  obtain w1 where w1: "jail_effect (map to_lower ` set [hex]) w w1"
    and ch: "resume_change {ucast hh..cx_height c} (set [hex]) w1 w'"
    using resume_parts [OF assms(1-3)] by blast
  have so: "signing_only (w_fin w) (w_fin w1)" using w1 by (simp add: jail_effect_def)
  note same = signing_only_fields [OF so]
  have "sidelined w' pk" using w1 ch assms(4) by (simp add: jail_effect_def resume_change_def sidelined_def)
  moreover have "GetVotingPower (w_fin w') pk h = GetVotingPower (w_fin w) pk h" for h
    using GetVotingPower_zeroed [OF resume_zeroed [OF w1 ch], of pk h] assms(5) by simp
  moreover have "HasSig (w_fin w') (ucast hh) pk" using ch assms(6) same(2) by (simp add: resume_change_def HasSig_def)
  ultimately show ?thesis by blast
qed

subsection \<open>A halted height\<close>

text \<open>At height 12 only one of two providers voted; the other holds half of the power.\<close>

definition halted_world :: "unit world" where
  "halted_world = \<lparr>w_bs = staked_bs, w_fin = empty_fin\<lparr>
     fs_voting_power := [((12, pkA), 300), ((12, pkB), 300)],
     fs_votes := [((12, pkA), replicate 32 CHR ''s'')],
     fs_blocks := [12 \<mapsto> \<lparr>ib_Height = 12, ib_AppHash = ''hash'', ib_Finalized = False\<rparr>],
     fs_vp_dist_cache := [12 \<mapsto> sample_dc [sample_di pkA 300, sample_di pkB 300] 2],
     fs_signing_tracker := [pkA \<mapsto> NewFinalityProviderSigningInfo pkA 5 0, pkB \<mapsto> NewFinalityProviderSigningInfo pkB 5 0]\<rparr>,
     w_ext = (), w_events = []\<rparr>"

lemma halted_world_inv: "fps_inv (w_bs halted_world)" "keys_ok (w_fin halted_world)"
proof -
  show "fps_inv (w_bs halted_world)" using staked_bs_fps by (simp add: halted_world_def)
  show "keys_ok (w_fin halted_world)" by code_simp
qed

theorem resume_takes_power_witness:
  "\<exists>w'. HandleResumeFinalityProposal sample_env (sample_ctx 12) [pkB] 12 halted_world = Inr w' \<and> sidelined w' pkB \<and>
    GetVotingPower (w_fin w') pkB 12 = 0 \<and> GetVotingPower (w_fin w') pkA 12 = 300"
proof -
  let ?r = "HandleResumeFinalityProposal sample_env (sample_ctx 12) [pkB] 12 halted_world"
  have "case ?r of Inl _ \<Rightarrow> False | Inr _ \<Rightarrow> True" by code_simp
  then obtain w' where r: "?r = Inr w'" by (cases ?r) auto
  have c: "map to_lower pkB = pkB" "pkA \<noteq> pkB" "(ucast (12 :: u32) :: u64) = 12" "cx_height (sample_ctx 12) = 12"
    "pkB \<in> cache_pks (w_fin halted_world) 12" "GetVotingPower (w_fin halted_world) pkA 12 = 300"
    by code_simp+
  from resume_takes_power [OF halted_world_inv r] r show ?thesis unfolding c(3,4) using c by auto
qed

theorem resume_restores_quorum_witness:
  "\<exists>w'. HandleResumeFinalityProposal sample_env (sample_ctx 12) [pkB] 12 halted_world = Inr w' \<and>
    has_quorum (w_fin w') 12 (voters (w_fin w') 12) \<and> \<not> has_quorum (w_fin halted_world) 12 {pkA}"
proof -
  let ?r = "HandleResumeFinalityProposal sample_env (sample_ctx 12) [pkB] 12 halted_world"
  have "case ?r of Inl _ \<Rightarrow> False | Inr _ \<Rightarrow> True" by code_simp
  then obtain w' where r: "?r = Inr w'" by (cases ?r) auto
  have c: "(ucast (12 :: u32) :: u64) = 12" "cx_height (sample_ctx 12) = 12" "(12::u64) \<le> 12"
    "set [pkB] \<subseteq> cache_pks (w_fin halted_world) 12" "pkA \<noteq> pkB"
    by code_simp+
  have tab: "table_pks (w_fin halted_world) 12 = {pkA, pkB}" by (simp add: table_pks_def halted_world_def)
  have pow: "power_at (w_fin halted_world) 12 pk = (if pk = pkA \<or> pk = pkB then 300 else 0)" for pk
    by (simp add: power_at_def GetVotingPower_def halted_world_def empty_fin_def)
  have v: "voters (w_fin halted_world) 12 = {pkA}"
    by (auto simp: voters_def HasSig_def kv_has_def halted_world_def)
  have "- set [pkB] \<inter> {pkA, pkB} = {pkA}" "{pkA} \<inter> {pkA, pkB} = {pkA}" using c(5) by auto
  then have "power_of (w_fin halted_world) 12 {pkA} = 300" "power_of (w_fin halted_world) 12 (- set [pkB]) = 300"
    "total_power (w_fin halted_world) 12 = 600"
    using c(5) by (simp_all only: power_of_def total_power_def tab) (simp_all add: pow)
  then show ?thesis
    using resume_restores_quorum [OF halted_world_inv r, unfolded c(1,2), OF c(4,3)] r by (simp add: v has_quorum_def)
qed

definition upperA :: string where
  "upperA = replicate 64 CHR ''A''"

theorem resume_uppercase_jails_voter_witness:
  "\<exists>w'. HandleResumeFinalityProposal sample_env (sample_ctx 12) [upperA] 12 halted_world = Inr w' \<and> sidelined w' pkA \<and>
    GetVotingPower (w_fin w') pkA 12 = 300 \<and> HasSig (w_fin halted_world) 12 pkA"
proof -
  let ?r = "HandleResumeFinalityProposal sample_env (sample_ctx 12) [upperA] 12 halted_world"
  have "case ?r of Inl _ \<Rightarrow> False | Inr _ \<Rightarrow> True" by code_simp
  then obtain w' where r: "?r = Inr w'" by (cases ?r) auto
  have c: "map to_lower upperA = pkA" "upperA \<noteq> pkA" "HasSig (w_fin halted_world) (ucast (12 :: u32)) pkA"
    "GetVotingPower (w_fin halted_world) pkA 12 = 300" "HasSig (w_fin halted_world) 12 pkA"
    by code_simp+
  from resume_uppercase_jails_voter [OF halted_world_inv r c(1-3)] r c(4,5) show ?thesis by auto
qed

end
