(* ===== verification/Chain.thy ===== *)
theory Chain
  imports Resume_Finality
begin

text \<open>
  The end of a block (\<open>x/finality/abci.go\<close>), and the chain as a whole: the begin blockers, the messages of
  both modules and the end blockers as the steps of one transition system. The invariant of its
  reachable states gives accountable safety: a block is finalised only by a quorum, and a quorum of
  votes for forks of a finalised block costs more than a third of the voting power its stake.
\<close>

subsection \<open>The end of a block\<close>

definition MaxFinalizedRewardedBlocksPerEndBlock :: u64 where
  "MaxFinalizedRewardedBlocksPerEndBlock = 10000"

definition EndBlocker :: "ext \<Rightarrow> 'h env \<Rightarrow> ctx \<Rightarrow> 'h world \<Rightarrow> 'h world result" where
  "EndBlocker x en c w =
     (if IsFinalityActive c (w_fin w)
      then bindR (TallyBlocks c MaxFinalizedRewardedBlocksPerEndBlock (w_fin w)) (\<lambda>f.
           let w1 = w\<lparr>w_fin := f\<rparr>;
               heightToExamine = cx_Height c - fpar_FinalitySigTimeout (fin_GetParams f)
           in if heightToExamine \<ge> 1
              then bindR (HandleLiveness x c heightToExamine w1) (\<lambda>w2.
                   HandleRewarding en heightToExamine MaxFinalizedRewardedBlocksPerEndBlock w2)
              else Inr w1)
      else Inr w)"

subsection \<open>Steps\<close>

text \<open>What a message of the staking module does to the world: its state, the state behind the hooks,
  and its events.\<close>

definition with_bs :: "bs_state \<times> 'h \<Rightarrow> emitted list \<Rightarrow> 'h world \<Rightarrow> 'h world" where
  "with_bs sh evs w = w\<lparr>w_bs := fst sh, w_ext := snd sh, w_events := w_events w @ evs\<rparr>"

text \<open>A state of the chain is the context of the current block and the world. A message that fails
  leaves the world as it was, so that it is not a step; a begin or end blocker that fails halts the
  chain. The header of a block carries a 32-byte hash and an \<open>int64\<close> height. Between the steps of a block
  the view of the other modules may change (\<open>others\<close>). A proposal to resume finality lists a halting
  height that is not finalised, nor is any later one; the code leaves this to governance.\<close>

inductive chain_step :: "ext \<Rightarrow> 'h env \<Rightarrow> ctx \<times> 'h world \<Rightarrow> ctx \<times> 'h world \<Rightarrow> bool" for x en where
  next_block: "chain_step x en (c, w) (c', w')"
    if "cx_Height c' = cx_Height c + 1" "0 \<le> cx_Height c" "cx_Height c' < 2 ^ 63" "length (cx_AppHash c') = 32"
      "Finality_BeginBlocker x en c' (w\<lparr>w_bs := BTCStaking_BeginBlocker c' (w_bs w)\<rparr>) = Inr w'"
| others: "chain_step x en (c, w) (c', w)"
    if "cx_Height c' = cx_Height c" "cx_Time c' = cx_Time c" "cx_AppHash c' = cx_AppHash c"
| create_fp: "chain_step x en (c, w) (c, with_bs (b, w_ext w) evs w)"
    if "CreateFinalityProvider x c req (w_bs w) = Inr (b, evs)"
| edit_fp: "chain_step x en (c, w) (c, with_bs (b, w_ext w) evs w)"
    if "EditFinalityProvider x c req (w_bs w) = Inr (b, evs)"
| covenant_sigs: "chain_step x en (c, w) (c, with_bs sh evs w)"
    if "AddCovenantSigs x ce c refund req (w_bs w, w_ext w) = Inr (sh, evs)"
| inclusion_proof: "chain_step x en (c, w) (c, with_bs sh evs w)"
    if "Msg_AddBTCDelegationInclusionProof x bv c refund txHash proof (w_bs w, w_ext w) = Inr (sh, evs)"
| selective_slashing: "chain_step x en (c, w) (c, with_bs sh evs w)"
    if "SelectiveSlashingEvidence c pkOfSk refund sk (w_bs w, w_ext w) = Inr (sh, evs)" "0 < cx_height c"
| staking_params: "chain_step x en (c, w) (c, w\<lparr>w_bs := b\<rparr>)"
    if "BTCStaking_UpdateParams x authority n reqAuthority params (w_bs w) = Inr b"
| commit_pub_rand: "chain_step x en (c, w) (c, w\<lparr>w_fin := f\<rparr>)"
    if "CommitPubRandList x c (w_bs w) cmsg (w_fin w) = Inr f"
| vote: "chain_step x en (c, w) (c, w')"
    if "AddFinalitySig x en c vmsg w = Inr w'" "0 < cx_height c"
| unjail: "chain_step x en (c, w) (c, w')"
    if "Msg_UnjailFinalityProvider c umsg w = Inr w'"
| resume: "chain_step x en (c, w) (c, w')"
    if "Msg_ResumeFinalityProposal authority en c rmsg w = Inr w'"
      "\<And>h. ucast (mr_HaltingHeight rmsg) \<le> h \<Longrightarrow> \<not> finalized_at (w_fin w) h"
| finality_params: "chain_step x en (c, w) (c, w\<lparr>w_fin := f\<rparr>)"
    if "Finality_UpdateParams authority reqAuthority fparams (w_fin w) = Inr f"
| end_block: "chain_step x en (c, w) (c, w')"
    if "EndBlocker x en c w = Inr w'" "BTCStaking_EndBlocker kDepth (w_bs w) = Inr ()"

inductive reachable :: "ext \<Rightarrow> 'h env \<Rightarrow> ctx \<times> 'h world \<Rightarrow> ctx \<times> 'h world \<Rightarrow> bool" for x en s0 where
  start: "reachable x en s0 s0"
| step: "reachable x en s0 s \<Longrightarrow> chain_step x en s s' \<Longrightarrow> reachable x en s0 s'"

subsection \<open>What a step leaves alone\<close>

definition good :: "'h world \<Rightarrow> bool" where
  "good w \<longleftrightarrow> fps_inv (w_bs w) \<and> stores_wf (w_fin w)"

text \<open>Committed public randomness stays.\<close>

definition keeps_rand :: "fin_state \<Rightarrow> fin_state \<Rightarrow> bool" where
  "keeps_rand f f' \<longleftrightarrow> (pub_rand_inv f \<longrightarrow> pub_rand_inv f' \<and>
     (\<forall>pk h p. GetPubRandCommitForHeight f pk h = Inr p \<longrightarrow> GetPubRandCommitForHeight f' pk h = Inr p))"

lemma keeps_rand_refl [simp]: "keeps_rand f f"
  by (simp add: keeps_rand_def)

lemma keeps_rand_same [simp]:
  "fs_pub_rand_commit f' = fs_pub_rand_commit f \<Longrightarrow> fs_pub_rand_commit_index f' = fs_pub_rand_commit_index f \<Longrightarrow>
   keeps_rand f f'"
  by (simp add: keeps_rand_def pub_rand_inv_def pub_rand_inv_at_def commits_of_def GetPubRandCommitForHeight_def)

lemma keeps_rand_trans: "keeps_rand f g \<Longrightarrow> keeps_rand g k \<Longrightarrow> keeps_rand f k"
  by (auto simp: keeps_rand_def)

text \<open>Votes, evidence and blocks are the same, voting power changes only at the heights in \<open>H\<close>, committed
  randomness stays, and a slashed provider stays slashed.\<close>

definition moves :: "u64 set \<Rightarrow> 'h world \<Rightarrow> 'h world \<Rightarrow> bool" where
  "moves H w w' \<longleftrightarrow> (good w \<longrightarrow> good w' \<and> (\<forall>pk. slashed w pk \<longrightarrow> slashed w' pk)) \<and>
     fs_votes (w_fin w') = fs_votes (w_fin w) \<and> fs_evidence (w_fin w') = fs_evidence (w_fin w) \<and>
     fs_blocks (w_fin w') = fs_blocks (w_fin w) \<and> keeps_rand (w_fin w) (w_fin w') \<and>
     (\<forall>h pk. h \<notin> H \<longrightarrow> kv_get (fs_voting_power (w_fin w')) (h, pk) = kv_get (fs_voting_power (w_fin w)) (h, pk))"

lemma moves_refl [simp]: "moves H w w"
  by (simp add: moves_def)

lemma moves_trans: "moves H w w1 \<Longrightarrow> moves H w1 w2 \<Longrightarrow> moves H w w2"
  by (auto simp: moves_def intro: keeps_rand_trans)

lemma moves_weaken: "moves H w w' \<Longrightarrow> H \<subseteq> H' \<Longrightarrow> moves H' w w'"
  by (auto simp: moves_def)

lemma moves_bs:
  assumes "w_fin w' = w_fin w" and "fps_inv (w_bs w) \<Longrightarrow> fps_inv (w_bs w')"
    and "\<And>pk. fps_inv (w_bs w) \<Longrightarrow> slashed w pk \<Longrightarrow> slashed w' pk"
  shows "moves H w w'"
  using assms by (auto simp: moves_def good_def)

lemma moves_fps:
  assumes "w_fin w' = w_fin w" "bs_fps (w_bs w') = bs_fps (w_bs w)"
  shows "moves H w w'"
  using assms by (intro moves_bs) (auto simp: fps_inv_def slashed_def GetFinalityProvider_def)

lemma moves_fin:
  assumes "w_bs w' = w_bs w" "fs_votes (w_fin w') = fs_votes (w_fin w)" "fs_evidence (w_fin w') = fs_evidence (w_fin w)"
    "fs_blocks (w_fin w') = fs_blocks (w_fin w)" "fs_voting_power (w_fin w') = fs_voting_power (w_fin w)"
    "stores_wf (w_fin w) \<Longrightarrow> stores_wf (w_fin w')" "keeps_rand (w_fin w) (w_fin w')"
  shows "moves H w w'"
  using assms by (auto simp: moves_def good_def slashed_def)

lemma moves_foldR:
  assumes "foldR f w xs = Inr w'" and "\<And>v x v'. x \<in> set xs \<Longrightarrow> f v x = Inr v' \<Longrightarrow> moves H v v'"
  shows "moves H w w'"
  by (rule foldR_invariant [OF assms(1), of "moves H w"]) (auto intro: moves_trans assms(2))

subsubsection \<open>Messages of the staking module\<close>

lemma slash_monotone:
  assumes "fps_inv b" "GetFinalityProvider b pk = Inr fp" "IsSlashed fp" "SlashFinalityProvider c q b = Inr b'" "0 < cx_height c"
  shows "\<exists>fp'. GetFinalityProvider b' pk = Inr fp' \<and> IsSlashed fp'"
  using bsk.slash_effect [OF assms(1,4)] assms(2,3,5) by (auto simp: IsSlashed_def)

lemma setBTCDelegation_fps: "setBTCDelegation x d s = Inr s' \<Longrightarrow> bs_fps s' = bs_fps s"
  by (auto simp: setBTCDelegation_def bindR_eq_Inr)

lemma addPowerDistUpdateEvent_fps [simp]: "bs_fps (addPowerDistUpdateEvent h ev s) = bs_fps s"
  by (simp add: addPowerDistUpdateEvent_def Let_def)

lemma addCovenantSigs_fps:
  "addCovenantSigsToBTCDelegation x d pk a b e st tip s = Inr (s', evs) \<Longrightarrow> bs_fps s' = bs_fps s"
  by (auto simp: addCovenantSigsToBTCDelegation_def bindR_eq_Inr guardR_eq_Inr Let_def
    dest!: setBTCDelegation_fps split: if_splits prod.splits option.splits)

lemma AddCovenantSigs_moves:
  assumes "AddCovenantSigs x ce c refund req (w_bs w, w_ext w) = Inr (sh, evs)"
  shows "moves H w (with_bs sh evs w)"
proof (rule moves_fps)
  show "w_fin (with_bs sh evs w) = w_fin w" by (simp add: with_bs_def)
  show "bs_fps (w_bs (with_bs sh evs w)) = bs_fps (w_bs w)"
    using assms by (auto simp: AddCovenantSigs_def with_bs_def bindR_eq_Inr guardR_eq_Inr Let_def dest: addCovenantSigs_fps)
qed

lemma AddBTCDelegationInclusionProof_fps:
  "AddBTCDelegationInclusionProof x bv c d p s = Inr (s', evs) \<Longrightarrow> bs_fps s' = bs_fps s"
  by (auto simp: AddBTCDelegationInclusionProof_def bindR_eq_Inr guardR_eq_Inr Let_def dest!: setBTCDelegation_fps)

lemma inclusion_proof_moves:
  assumes "Msg_AddBTCDelegationInclusionProof x bv c refund txHash proof (w_bs w, w_ext w) = Inr (sh, evs)"
  shows "moves H w (with_bs sh evs w)"
proof (rule moves_fps)
  show "w_fin (with_bs sh evs w) = w_fin w" by (simp add: with_bs_def)
  show "bs_fps (w_bs (with_bs sh evs w)) = bs_fps (w_bs w)"
    using assms by (auto simp: Msg_AddBTCDelegationInclusionProof_def with_bs_def bindR_eq_Inr guardR_eq_Inr
      dest: AddBTCDelegationInclusionProof_fps)
qed

lemma SelectiveSlashing_moves:
  assumes "SelectiveSlashingEvidence c pkOfSk refund sk (w_bs w, w_ext w) = Inr (sh, evs)" "0 < cx_height c"
  shows "moves H w (with_bs sh evs w)"
proof -
  obtain b where b: "SlashFinalityProvider c (pkOfSk sk) (w_bs w) = Inr b" "w_bs (with_bs sh evs w) = b"
    using assms(1) by (auto simp: SelectiveSlashingEvidence_def bindR_eq_Inr with_bs_def Let_def)
  show ?thesis
  proof (rule moves_bs)
    show "w_fin (with_bs sh evs w) = w_fin w" by (simp add: with_bs_def)
    show "fps_inv (w_bs (with_bs sh evs w))" if "fps_inv (w_bs w)" using bsk.slash_effect [OF that b(1)] b(2) by simp
    show "slashed (with_bs sh evs w) pk" if "fps_inv (w_bs w)" "slashed w pk" for pk
      using that slash_monotone [OF that(1) _ _ b(1) assms(2)] unfolding slashed_def b(2) by blast
  qed
qed

text \<open>The provider that is created is new; an edit keeps the slashing heights.\<close>

lemma CreateFinalityProvider_moves:
  assumes "CreateFinalityProvider x c req (w_bs w) = Inr (b, evs)"
  shows "moves H w (with_bs (b, w_ext w) evs w)"
proof -
  obtain fp a where fp: "b = SetFinalityProvider fp (SetFpBbnAddr a (w_bs w))"
    "\<not> HasFinalityProvider (w_bs w) (fp_BtcPk fp)"
    using assms by (auto simp: CreateFinalityProvider_def AddFinalityProvider_def bindR_eq_Inr guardR_eq_Inr Let_def)
  then have b: "bs_fps b = kv_set (fp_BtcPk fp) fp (bs_fps (w_bs w))"
    by (simp add: SetFinalityProvider_def SetFpBbnAddr_def)
  show ?thesis
  proof (rule moves_bs)
    show "w_fin (with_bs (b, w_ext w) evs w) = w_fin w" by (simp add: with_bs_def)
    show "fps_inv (w_bs (with_bs (b, w_ext w) evs w))" if "fps_inv (w_bs w)"
      using that b by (simp add: with_bs_def fps_inv_def)
    show "slashed (with_bs (b, w_ext w) evs w) pk" if "slashed w pk" for pk
      using that fp(2) by (auto simp: slashed_def with_bs_def b HasFinalityProvider_def GetFinalityProvider_def
        option_to_result_eq_Inr kv_has_def)
  qed
qed

lemma EditFinalityProvider_moves:
  assumes "EditFinalityProvider x c req (w_bs w) = Inr (b, evs)"
  shows "moves H w (with_bs (b, w_ext w) evs w)"
proof -
  obtain fp fp1 fp2 where b: "GetFinalityProvider (w_bs w) (mefp_BtcPk req) = Inr fp"
    "UpdateFinalityProviderCommission c (mefp_Commission req) fp (w_bs w) = Inr fp1"
    "fp2 = fp1\<lparr>fp_Description := mefp_Description req\<rparr>" "b = SetFinalityProvider fp2 (w_bs w)"
    using assms by (auto simp: EditFinalityProvider_def bindR_eq_Inr guardR_eq_Inr Let_def)
  have same: "fp_BtcPk fp2 = fp_BtcPk fp" "IsSlashed fp2 = IsSlashed fp"
    using b(2) by (auto simp: b(3) UpdateFinalityProviderCommission_def bindR_eq_Inr guardR_eq_Inr Let_def IsSlashed_def
      split: option.splits if_splits)
  show ?thesis
  proof (rule moves_bs)
    show "w_fin (with_bs (b, w_ext w) evs w) = w_fin w" by (simp add: with_bs_def)
    show "fps_inv (w_bs (with_bs (b, w_ext w) evs w))" if "fps_inv (w_bs w)"
      using that by (simp add: with_bs_def b(4))
    show "slashed (with_bs (b, w_ext w) evs w) pk" if "fps_inv (w_bs w)" "slashed w pk" for pk
      using that(2) same b(1) fps_inv_key [OF that(1) b(1)]
      by (auto simp: slashed_def with_bs_def b(4))
  qed
qed

subsubsection \<open>Messages of the finality module\<close>

lemma CommitPubRandList_rand:
  assumes "CommitPubRandList x c b req f = Inr f'"
  shows "keeps_rand f f'"
  unfolding keeps_rand_def
proof
  assume inv: "pub_rand_inv f"
  obtain pk epoch where ok: "commit_ok (new_commit req epoch)"
    "\<And>l. GetLastPubRandCommit f pk = Some l \<Longrightarrow> commits_before l (new_commit req epoch)"
    "SetPubRandCommit pk (new_commit req epoch) f = Inr f'"
    by (rule CommitPubRandList_cases [OF assms]) (rule that)
  note app = SetPubRandCommit_appends [OF inv ok]
  show "pub_rand_inv f' \<and> (\<forall>pk h p. GetPubRandCommitForHeight f pk h = Inr p \<longrightarrow> GetPubRandCommitForHeight f' pk h = Inr p)"
    using app by (auto simp: lookup_Inr [OF inv] lookup_Inr [OF app(2)])
qed

lemma CommitPubRandList_moves:
  assumes "CommitPubRandList x c b req (w_fin w) = Inr f"
  shows "moves H w (w\<lparr>w_fin := f\<rparr>)"
proof -
  obtain pk pr where "SetPubRandCommit pk pr (w_fin w) = Inr f"
    using assms by (auto simp: CommitPubRandList_def bindR_eq_Inr guardR_eq_Inr Let_def split: option.splits sum.splits)
  then obtain i where "f = (w_fin w)\<lparr>fs_pub_rand_commit := kv_set (pk, prc_StartHeight pr) pr (fs_pub_rand_commit (w_fin w)),
      fs_pub_rand_commit_index := i\<rparr>"
    by (auto simp: SetPubRandCommit_def upsertPubRandCommitIdx_def Let_def guardR_eq_Inr)
  then show ?thesis using CommitPubRandList_rand [OF assms] by (intro moves_fin) (simp_all add: stores_wf_def)
qed

lemma Finality_UpdateParams_moves: "Finality_UpdateParams a r ps (w_fin w) = Inr f \<Longrightarrow> moves H w (w\<lparr>w_fin := f\<rparr>)"
  by (intro moves_fin) (auto simp: Finality_UpdateParams_def guardR_eq_Inr fin_SetParams_def bindR_eq_Inr stores_wf_def
    split: sum.splits)

lemma moves_signing:
  assumes "fps_inv (w_bs w) \<Longrightarrow> fps_inv (w_bs w')" "\<And>pk. fps_inv (w_bs w) \<Longrightarrow> slashed w pk \<Longrightarrow> slashed w' pk"
    and "w_fin w' = (w_fin w)\<lparr>fs_signing_tracker := t, fs_missed_bitmap := m\<rparr>"
    and "kv_wf (fs_missed_bitmap (w_fin w)) \<Longrightarrow> kv_wf m"
  shows "moves H w w'"
  using assms by (auto simp: moves_def good_def stores_wf_def)

lemma jailSluggish_slashed:
  assumes "jailSluggishFinalityProvider c q w = Inr w'"
  shows "w_fin w' = w_fin w" "fps_inv (w_bs w) \<Longrightarrow> fps_inv (w_bs w')"
    "fps_inv (w_bs w) \<Longrightarrow> slashed w' pk = slashed w pk"
proof -
  obtain b where b: "JailFinalityProvider c q (w_bs w) = Inr b" "w_bs w' = b"
    using assms by (auto simp: jailSluggishFinalityProvider_def bindR_eq_Inr)
  show "w_fin w' = w_fin w" using assms by (auto simp: jailSluggishFinalityProvider_def bindR_eq_Inr)
  show "fps_inv (w_bs w')" if "fps_inv (w_bs w)" using bsk.jail_effect [OF that b(1)] b(2) by simp
  show "slashed w' pk = slashed w pk" if "fps_inv (w_bs w)"
    using bsk.jail_effect [OF that b(1)] b(2) by (cases "pk = q") (auto simp: slashed_def)
qed

lemma unjail_moves:
  assumes "Msg_UnjailFinalityProvider c req w = Inr w'"
  shows "moves H w w'"
proof -
  obtain pk b where b: "UnjailFinalityProvider c pk (w_bs w) = Inr b" "w' = w\<lparr>w_bs := b\<rparr>"
    using assms by (auto simp: Msg_UnjailFinalityProvider_def bindR_eq_Inr guardR_eq_Inr split: option.splits)
  show ?thesis
  proof (rule moves_bs)
    show "fps_inv (w_bs w')" if "fps_inv (w_bs w)" using bsk.unjail_effect [OF that b(1)] b(2) by simp
    show "slashed w' q" if "fps_inv (w_bs w)" "slashed w q" for q
      using bsk.unjail_effect [OF that(1) b(1)] that(2) b(2) by (auto simp: slashed_def)
  qed (simp add: b(2))
qed

lemma kv_wf_delete [simp]:
  "kv_wf (fs_missed_bitmap f) \<Longrightarrow> kv_wf (fs_missed_bitmap (DeleteMissedBlockBitmap pk f))"
  by (simp add: DeleteMissedBlockBitmap_def kv_wf_def sorted_wrt_map sorted_wrt_filter)

lemma jail_moves:
  assumes "jailSluggishFinalityProvider c pk w1 = Inr w2" "w_bs w1 = w_bs w"
    and "w_fin w1 = (w_fin w)\<lparr>fs_missed_bitmap := m\<rparr>" "kv_wf (fs_missed_bitmap (w_fin w)) \<Longrightarrow> kv_wf m"
  shows "moves H w (w2\<lparr>w_fin := set_signing_info pk si (DeleteMissedBlockBitmap pk (w_fin w2))\<rparr>)"
    (is "moves H w ?w")
proof -
  note j = jailSluggish_slashed [OF assms(1)]
  have same: "slashed w1 q = slashed w q" for q by (simp add: slashed_def assms(2))
  show ?thesis
  proof (rule moves_signing)
    show "fps_inv (w_bs ?w)" if "fps_inv (w_bs w)" using j(2) that by (simp add: assms(2))
    show "slashed ?w q" if "fps_inv (w_bs w)" "slashed w q" for q
      using j(3) [of q] that same by (simp add: assms(2) slashed_def)
    show "w_fin ?w = (w_fin w)\<lparr>fs_signing_tracker := (fs_signing_tracker (w_fin w))(pk \<mapsto> si),
        fs_missed_bitmap := fs_missed_bitmap (DeleteMissedBlockBitmap pk ((w_fin w)\<lparr>fs_missed_bitmap := m\<rparr>))\<rparr>"
      by (simp add: j(1) assms(3) set_signing_info_def DeleteMissedBlockBitmap_def)
    show "kv_wf (fs_missed_bitmap (DeleteMissedBlockBitmap pk ((w_fin w)\<lparr>fs_missed_bitmap := m\<rparr>)))"
      if "kv_wf (fs_missed_bitmap (w_fin w))" using assms(4) that by simp
  qed
qed

lemma UpdateSigningInfo_bitmap:
  assumes "UpdateSigningInfo f pk missed height = Inr (f', u, si)"
  shows "\<exists>m. f' = f\<lparr>fs_missed_bitmap := m\<rparr> \<and> (kv_wf (fs_missed_bitmap f) \<longrightarrow> kv_wf m)"
proof -
  have "f' = f \<or> (\<exists>i v. f' = SetMissedBlockBitmapValue pk i v f)"
    using assms by (auto simp: UpdateSigningInfo_def Let_def guardR_eq_Inr split: option.splits if_splits)
  then show ?thesis
  proof
    assume "f' = f" then show ?thesis by (intro exI [of _ "fs_missed_bitmap f"]) simp
  qed (auto simp: SetMissedBlockBitmapValue_def SetMissedBlockBitmapChunk_def Let_def)
qed

lemma HandleFinalityProviderLiveness_moves:
  assumes "HandleFinalityProviderLiveness x c pk missed height w = Inr w'"
  shows "moves H w w'"
proof -
  obtain fp where fp: "GetFinalityProvider (w_bs w) pk = Inr fp"
    using assms by (auto simp: HandleFinalityProviderLiveness_def Let_def bindR_eq_Inr)
  show ?thesis
  proof (cases "IsSlashed fp \<or> IsJailed fp")
    case True
    then have "w' = w" using assms by (simp add: HandleFinalityProviderLiveness_def Let_def fp)
    then show ?thesis by simp
  next
    case False
    obtain f1 u si mn where u: "UpdateSigningInfo (w_fin w) pk missed height = Inr (f1, u, si)"
      "MinSignedPerWindowInt x (fin_GetParams (w_fin w)) = Inr mn"
      using assms False by (auto simp: HandleFinalityProviderLiveness_def Let_def fp bindR_eq_Inr)
    obtain m where m: "f1 = (w_fin w)\<lparr>fs_missed_bitmap := m\<rparr>" "kv_wf (fs_missed_bitmap (w_fin w)) \<Longrightarrow> kv_wf m"
      using UpdateSigningInfo_bitmap [OF u(1)] by blast
    consider (jail) w2 si' where "jailSluggishFinalityProvider c pk (w\<lparr>w_fin := f1\<rparr>) = Inr w2"
        "w' = w2\<lparr>w_fin := set_signing_info pk si' (DeleteMissedBlockBitmap pk (w_fin w2))\<rparr>"
      | (set) "w' = w\<lparr>w_fin := set_signing_info pk si f1\<rparr>" | (same) "w' = w\<lparr>w_fin := f1\<rparr>"
      using assms False by (auto simp: HandleFinalityProviderLiveness_def Let_def fp bindR_eq_Inr u split: if_splits)
    then show ?thesis
    proof cases
      case jail
      show ?thesis unfolding jail(2) by (rule jail_moves [OF jail(1) _ _ m(2)]) (simp_all add: m(1))
    next
      case set
      then show ?thesis using m by (intro moves_fin) (simp_all add: set_signing_info_def stores_wf_def)
    next
      case same
      then show ?thesis using m by (intro moves_fin) (simp_all add: stores_wf_def)
    qed
  qed
qed

lemma HandleLiveness_moves:
  assumes "HandleLiveness x c height w = Inr w'"
  shows "moves H w w'"
proof -
  obtain V and T :: "(btcpk \<times> u64) list" where "foldR (\<lambda>w (pk, vp). panic_on_error (HandleFinalityProviderLiveness x c pk (pk \<notin> V) height w)) w T = Inr w'"
    using assms unfolding HandleLiveness_def bindR_eq_Inr by (elim exE conjE) (rule that)
  then show ?thesis
    by (rule moves_foldR) (auto simp: case_prod_beta quorum_panic intro: HandleFinalityProviderLiveness_moves)
qed

lemma reward_step_moves: "reward_step en s h = Inr s' \<Longrightarrow> moves H (snd s) (snd s')"
  by (auto simp: reward_step_def rewardBTCStaking_def bindR_eq_Inr RemoveVotingPowerDistCache_def stores_wf_def
    split: if_splits option.splits intro!: moves_fin)

lemma HandleRewarding_moves:
  assumes "HandleRewarding en t n w = Inr w'"
  shows "moves H w w'"
proof -
  obtain a hs n1 w1 where run: "foldR (reward_step en) (a, w) hs = Inr (n1, w1)"
    and w': "w' = w1 \<or> w' = w1\<lparr>w_fin := SetNextHeightToReward n1 (w_fin w1)\<rparr>"
    using assms by (auto simp: HandleRewarding_def bindR_eq_Inr Let_def split: if_splits)
  have "moves H w (snd (n1, w1))"
    by (rule foldR_invariant [OF run, of "\<lambda>s. moves H w (snd s)"]) (auto intro: moves_trans reward_step_moves)
  moreover have "moves H w1 w'" using w' by (auto simp: SetNextHeightToReward_def stores_wf_def intro!: moves_fin)
  ultimately show ?thesis by (auto intro: moves_trans)
qed

subsubsection \<open>Begin blockers and the proposal to resume finality\<close>

lemma SetVotingPower_moves: "h \<in> H \<Longrightarrow> moves H w (w\<lparr>w_fin := SetVotingPower pk h v (w_fin w)\<rparr>)"
  by (auto simp: moves_def good_def slashed_def SetVotingPower_def stores_wf_def)

lemma foldl_SetVotingPower_moves:
  assumes "h \<in> H"
  shows "moves H w (w\<lparr>w_fin := foldl (\<lambda>f fp. SetVotingPower (k fp) h (v fp) f) (w_fin w) fps\<rparr>)"
proof (induction fps rule: rev_induct)
  case (snoc fp fps)
  show ?case
    using moves_trans [OF snoc SetVotingPower_moves [OF assms, of _ "k fp" "v fp"]] by simp
qed simp

lemma same_stores_moves: "same_stores w w' \<Longrightarrow> moves H w w'"
  by (auto simp: same_stores_def stores_wf_def intro!: moves_fin)

lemma Record_moves:
  assumes "RecordVotingPowerAndCache c dc (w_fin w) = Inr (f, dc')" "cx_height c \<in> H"
  shows "moves H w (w\<lparr>w_fin := f\<rparr>)"
proof -
  obtain fps :: "FinalityProviderDistInfo list" where f: "f = SetVotingPowerDistCache (cx_height c) dc'
      (foldl (\<lambda>f fp. SetVotingPower (di_BtcPk fp) (cx_height c) (di_TotalBondedSat fp) f) (w_fin w) fps)" (is "f = SetVotingPowerDistCache _ _ ?g")
    using assms(1) unfolding RecordVotingPowerAndCache_def Let_def
    by (cases dc) (auto simp only: option.case bindR_eq_Inr sum.inject prod.inject sum.distinct intro: that)
  have "moves H w (w\<lparr>w_fin := ?g\<rparr>)" by (rule foldl_SetVotingPower_moves [OF assms(2)])
  moreover have "moves H (w\<lparr>w_fin := ?g\<rparr>) (w\<lparr>w_fin := f\<rparr>)"
    by (rule moves_fin) (simp_all add: f SetVotingPowerDistCache_def stores_wf_def)
  ultimately show ?thesis by (rule moves_trans)
qed

lemma begin_moves:
  assumes "Finality_BeginBlocker x en c (w\<lparr>w_bs := BTCStaking_BeginBlocker c (w_bs w)\<rparr>) = Inr w'"
  shows "moves {cx_height c} w w'"
proof -
  let ?b = "BTCStaking_BeginBlocker c (w_bs w)"
  obtain dc f dc1 w1 hs st e evs pd where run: "RecordVotingPowerAndCache c dc (w_fin w) = Inr (f, dc1)"
    "HandleFPStateUpdates en c st pd dc1 True (w\<lparr>w_bs := ?b, w_fin := f, w_ext := e, w_events := evs\<rparr>) = Inr w1"
    "w' = w1\<lparr>w_bs := foldl (\<lambda>b i. ClearPowerDistUpdateEvents i b) (w_bs w1) hs\<rparr>"
    using assms by (auto simp: Finality_BeginBlocker_def UpdatePowerDist_def Let_def bindR_eq_Inr)
  have b: "bs_fps ?b = bs_fps (w_bs w)" by (simp add: BTCStaking_BeginBlocker_def IndexBTCHeight_def split: option.split)
  have "moves {cx_height c} w (w\<lparr>w_fin := f\<rparr>)" by (rule Record_moves [OF run(1)]) simp
  moreover have "moves {cx_height c} (w\<lparr>w_fin := f\<rparr>) (w\<lparr>w_bs := ?b, w_fin := f, w_ext := e, w_events := evs\<rparr>)"
    by (rule moves_fps) (simp_all add: b)
  moreover have "moves {cx_height c} (w\<lparr>w_bs := ?b, w_fin := f, w_ext := e, w_events := evs\<rparr>) w1"
    by (rule same_stores_moves [OF HandleFPStateUpdates_stores [OF run(2)]])
  moreover have "moves {cx_height c} w1 w'" by (rule moves_fps) (simp_all add: run(3) fps_clear_all)
  ultimately show ?thesis by (blast intro: moves_trans)
qed

lemma resume_jail_moves:
  assumes "resume_jail c V s hex = Inr s'"
  shows "moves H (fst s) (fst s')"
proof -
  obtain pk fp where pk: "NewBIP340PubKeyFromHex hex = Inr pk" "hex \<notin> V" "GetFinalityProvider (w_bs (fst s)) pk = Inr fp"
    using assms by (auto simp: resume_jail_def bindR_eq_Inr guardR_eq_Inr Let_def)
  then consider "s' = (fst s, insert hex (snd s))"
    | (jail) w1 si where "jailSluggishFinalityProvider c pk (fst s) = Inr w1"
      "s' = (w1\<lparr>w_fin := set_signing_info pk si (DeleteMissedBlockBitmap pk (w_fin w1))\<rparr>, insert hex (snd s))"
    using assms by (auto simp: resume_jail_def bindR_eq_Inr Let_def split: if_splits option.splits)
  then show ?thesis
  proof cases
    case jail
    show ?thesis unfolding jail(2) fst_conv
      by (rule jail_moves [OF jail(1) refl, of "fs_missed_bitmap (w_fin (fst s))"]) simp_all
  qed simp
qed

lemma resume_height_moves:
  assumes "resume_height en c J w h = Inr w'" "h \<in> H"
  shows "moves H w w'"
proof -
  obtain dc where dc: "GetVotingPowerDistCache (w_fin w) h = Some dc"
    using assms(1) by (auto simp: resume_height_def split: option.splits)
  let ?st = "if h = cx_height c then FillByPrevVpDstCache dc NewProcessingState else NewProcessingState"
  let ?r = "foldl (resume_fp h (h = cx_height c) J) (?st, NewVotingPowerDistCache, w_fin w) (dc_FinalityProviders dc)"
  obtain m where m: "snd (snd ?r) = (w_fin w)\<lparr>fs_voting_power := m\<rparr>"
    "zeroed (fs_voting_power (w_fin w)) ({h} \<times> (J \<inter> di_BtcPk ` set (dc_FinalityProviders dc))) m"
    using resume_fps [of h "h = cx_height c" J "(?st, NewVotingPowerDistCache, w_fin w)"] by auto
  obtain newDc st where run: "HandleFPStateUpdates en c st dc newDc (h = cx_height c)
      (w\<lparr>w_fin := SetVotingPowerDistCache h newDc (snd (snd ?r))\<rparr>) = Inr w'"
    using assms(1) by (auto simp: resume_height_def dc Let_def guardR_eq_Inr case_prod_beta)
  have "moves H w (w\<lparr>w_fin := SetVotingPowerDistCache h newDc (snd (snd ?r))\<rparr>)"
    using m assms(2) by (auto simp: moves_def good_def slashed_def SetVotingPowerDistCache_def stores_wf_def zeroed_def)
  then show ?thesis using same_stores_moves [OF HandleFPStateUpdates_stores [OF run]] by (rule moves_trans)
qed

lemma resume_moves:
  assumes "Msg_ResumeFinalityProposal authority en c req w = Inr w'"
  shows "moves {ucast (mr_HaltingHeight req)..cx_height c} w w'"
proof -
  obtain V J w1 where run: "foldR (resume_jail c V) (w, {}) (mr_FpPksHex req) = Inr (w1, J)"
    "foldR (resume_height en c J) w1 (heights_upto (ucast (mr_HaltingHeight req)) (cx_height c)) = Inr w'"
    using assms by (auto simp: Msg_ResumeFinalityProposal_def HandleResumeFinalityProposal_def guardR_eq_Inr bindR_eq_Inr
        split: sum.splits error.splits)
  let ?H = "{ucast (mr_HaltingHeight req)..cx_height c}"
  have "moves ?H w (fst (w1, J))"
    by (rule foldR_invariant [OF run(1), of "\<lambda>s. moves ?H w (fst s)"]) (auto intro: moves_trans resume_jail_moves)
  moreover have "moves ?H w1 w'"
    by (rule moves_foldR [OF run(2)]) (auto intro!: resume_height_moves)
  ultimately show ?thesis by (auto intro: moves_trans)
qed

subsection \<open>Tallying\<close>

text \<open>A block that \<open>TallyBlocks\<close> leaves in the store is a block that was there, the current block, or one of
  these finalised by a tally of its height.\<close>

lemma must_pk_eq_Inr: "must_pk pk = Inr q \<longleftrightarrow> q = pk \<and> pk_size pk = BIP340PubKeyLen"
  by (auto simp: must_pk_def NewBIP340PubKey_def)

lemma GetVoters_set:
  assumes "GetVoters f h = Inr V"
  shows "V = voters f h"
proof -
  have "foldR (\<lambda>voters e. bindR (must_pk (fst e)) (\<lambda>p. Inr (insert p voters))) A es = Inr V \<Longrightarrow> V = A \<union> fst ` set es"
    for A and es :: "(btcpk, bytes) kv"
    by (induction es arbitrary: A) (auto simp: bindR_eq_Inr must_pk_eq_Inr)
  from this [OF assms [unfolded GetVoters_def]] show ?thesis
    by (auto simp: voters_def HasSig_def kv_has_def keys_kv_sub kv_get_None)
qed

lemma GetVotingPowerTable_set:
  assumes "GetVotingPowerTable f h = Inr (Some fps)"
  shows "fps = kv_sub h (fs_voting_power f)"
proof -
  have entries: "foldR (\<lambda>fpSet (pk, v). bindR (must_pk pk) (\<lambda>p. Inr (fpSet @ [(p, v)]))) A es = Inr S \<Longrightarrow> S = A @ es"
    for A es S :: "(btcpk, u64) kv"
  proof (induction es arbitrary: A)
    case (Cons e es)
    then show ?case using Cons.IH [of "A @ [e]"] by (cases e) (auto simp: bindR_eq_Inr must_pk_eq_Inr)
  qed simp
  have "foldR (\<lambda>fpSet (pk, v). bindR (must_pk pk) (\<lambda>p. Inr (fpSet @ [(p, v)]))) [] (kv_sub h (fs_voting_power f)) = Inr fps"
    using assms by (auto simp: GetVotingPowerTable_def Let_def bindR_eq_Inr split: if_splits)
  from entries [OF this] show ?thesis by simp
qed

definition blocks_ok :: "fin_state \<Rightarrow> bool" where
  "blocks_ok f \<longleftrightarrow> (\<forall>h ib. fs_blocks f h = Some ib \<longrightarrow> ib_Height ib = h)"

definition final_ok :: "fin_state \<Rightarrow> bool" where
  "final_ok f \<longleftrightarrow> (\<forall>h. finalized_at f h \<and> power_bound f h \<longrightarrow> has_quorum f h (voters f h))"

text \<open>Only the blocks and the next height change; no block changes its hash.\<close>

definition tallied :: "fin_state \<Rightarrow> fin_state \<Rightarrow> bool" where
  "tallied f f' \<longleftrightarrow> f'\<lparr>fs_blocks := fs_blocks f, fs_next_height_to_finalize := fs_next_height_to_finalize f\<rparr> = f \<and>
     (\<forall>h. map_option ib_AppHash (fs_blocks f' h) = map_option ib_AppHash (fs_blocks f h))"

lemma tallied_fields:
  assumes "tallied f f'"
  shows "fs_votes f' = fs_votes f" "fs_evidence f' = fs_evidence f" "fs_voting_power f' = fs_voting_power f"
    "stores_wf f' = stores_wf f" "fs_pub_rand_commit f' = fs_pub_rand_commit f"
    "fs_pub_rand_commit_index f' = fs_pub_rand_commit_index f"
proof -
  have eq: "f'\<lparr>fs_blocks := fs_blocks f, fs_next_height_to_finalize := fs_next_height_to_finalize f\<rparr> = f"
    using assms by (simp add: tallied_def)
  show "fs_votes f' = fs_votes f" "fs_evidence f' = fs_evidence f" "fs_voting_power f' = fs_voting_power f"
    using arg_cong [OF eq, of fs_votes] arg_cong [OF eq, of fs_evidence] arg_cong [OF eq, of fs_voting_power] by simp_all
  show "fs_pub_rand_commit f' = fs_pub_rand_commit f" "fs_pub_rand_commit_index f' = fs_pub_rand_commit_index f"
    using arg_cong [OF eq, of fs_pub_rand_commit] arg_cong [OF eq, of fs_pub_rand_commit_index] by simp_all
  show "stores_wf f' = stores_wf f" using arg_cong [OF eq, of stores_wf] by (simp add: stores_wf_def)
qed

lemma tallied_hash: "tallied f f' \<Longrightarrow> map_option ib_AppHash (fs_blocks f' h) = map_option ib_AppHash (fs_blocks f h)"
  unfolding tallied_def by blast

lemma tallied_refl: "tallied f f"
  by (simp add: tallied_def)

lemma tallied_trans: "tallied f g \<Longrightarrow> tallied g k \<Longrightarrow> tallied f k"
proof -
  assume fg: "tallied f g" and gk: "tallied g k"
  have "k\<lparr>fs_blocks := fs_blocks g, fs_next_height_to_finalize := fs_next_height_to_finalize g\<rparr> = g"
    "g\<lparr>fs_blocks := fs_blocks f, fs_next_height_to_finalize := fs_next_height_to_finalize f\<rparr> = f"
    using fg gk by (simp_all add: tallied_def)
  from arg_cong [OF this(1), of "\<lambda>s. s\<lparr>fs_blocks := fs_blocks f, fs_next_height_to_finalize := fs_next_height_to_finalize f\<rparr>"]
    this(2) show ?thesis using fg gk by (simp add: tallied_def)
qed

lemma next_height_ok:
  "tallied f (setNextHeightToFinalize n f)" "blocks_ok (setNextHeightToFinalize n f) = blocks_ok f"
  "final_ok (setNextHeightToFinalize n f) = final_ok f"
  by (simp_all add: setNextHeightToFinalize_def tallied_def blocks_ok_def final_ok_def finalized_at_def
    power_bound_def has_quorum_def power_of_def total_power_def table_pks_def power_at_def GetVotingPower_def
    voters_def HasSig_def)

lemma finalize_ok:
  assumes "stores_wf f" "blocks_ok f" "final_ok f" "fs_blocks f h = Some ib" "tally (kv_sub h (fs_voting_power f)) (voters f h)"
  shows "tallied f (finalizeBlock ib f)" "blocks_ok (finalizeBlock ib f)" "final_ok (finalizeBlock ib f)"
proof -
  let ?g = "SetBlock (ib\<lparr>ib_Finalized := True\<rparr>) f"
  have h: "ib_Height ib = h" using assms(2,4) by (simp add: blocks_ok_def)
  have "tallied f ?g" using assms(4) h by (auto simp: tallied_def SetBlock_def)
  then show "tallied f (finalizeBlock ib f)" unfolding finalizeBlock_def by (blast intro: tallied_trans next_height_ok)
  show "blocks_ok (finalizeBlock ib f)"
    using assms(2) by (simp add: finalizeBlock_def next_height_ok) (simp add: blocks_ok_def SetBlock_def)
  have same: "has_quorum ?g k A = has_quorum f k A" "voters ?g k = voters f k" "power_bound ?g k = power_bound f k" for k A
    by (simp_all add: SetBlock_def power_bound_def has_quorum_def power_of_def total_power_def table_pks_def power_at_def
      GetVotingPower_def voters_def HasSig_def)
  have "has_quorum f h (voters f h)" if "power_bound f h" using tally_table [OF assms(1) that] assms(5) by simp
  moreover have "finalized_at ?g k \<Longrightarrow> k = h \<or> finalized_at f k" for k
    using h by (auto simp: finalized_at_def SetBlock_def split: if_splits)
  ultimately have "final_ok ?g" using assms(3) unfolding final_ok_def same by blast
  then show "final_ok (finalizeBlock ib f)" by (simp only: finalizeBlock_def next_height_ok)
qed

lemma tally_loop_ok:
  assumes "tally_loop hs f = Inr f'" "stores_wf f" "blocks_ok f" "final_ok f"
  shows "tallied f f' \<and> blocks_ok f' \<and> final_ok f'"
  using assms
proof (induction hs arbitrary: f)
  case Nil
  then show ?case by (simp add: tallied_refl)
next
  case (Cons h hs)
  obtain ib fpSet where ib: "GetBlock f h = Inr ib" "GetVotingPowerTable f (ib_Height ib) = Inr fpSet"
    using Cons.prems(1) by (auto simp: bindR_eq_Inr quorum_panic)
  have b: "fs_blocks f h = Some ib" using ib(1) by (auto simp: GetBlock_def split: option.splits if_splits)
  have h: "ib_Height ib = h" using b Cons.prems(3) by (simp add: blocks_ok_def)
  have pan: "panic_on_error (GetBlock f h) = Inr ib" using ib(1) by (simp add: quorum_panic)
  note run = Cons.prems(1) [unfolded tally_loop.simps pan bindR_Inr h ib(2) [unfolded h]]
  show ?case
  proof (cases fpSet)
    case None
    let ?g = "setNextHeightToFinalize (h + 1) f"
    have "tally_loop hs ?g = Inr f'" using run None by (auto split: if_splits)
    from Cons.IH [OF this] Cons.prems show ?thesis
      using next_height_ok tallied_trans tallied_fields(4) by blast
  next
    case (Some fps)
    have fps: "fps = kv_sub h (fs_voting_power f)" using GetVotingPowerTable_set ib(2) Some h by simp
    obtain V where V: "GetVoters f h = Inr V" using run Some by (auto simp: bindR_eq_Inr split: if_splits)
    consider "f' = f" | (fin) "tally fps V" "tally_loop hs (finalizeBlock ib f) = Inr f'"
      using run Some V by (auto split: if_splits)
    then show ?thesis
    proof cases
      case fin
      note ok = finalize_ok [OF Cons.prems(2-4) b fin(1) [unfolded fps GetVoters_set [OF V]]]
      from Cons.IH [OF fin(2)] ok Cons.prems(2) show ?thesis using tallied_trans tallied_fields(4) by blast
    qed (use Cons.prems in \<open>simp add: tallied_refl\<close>)
  qed
qed

subsection \<open>The invariant of the chain\<close>

definition chain_inv :: "ext \<Rightarrow> ctx \<times> 'h world \<Rightarrow> bool" where
  "chain_inv x s \<longleftrightarrow> voting_inv x (fst s) (snd s) \<and> accountable x (snd s) \<and> blocks_ok (w_fin (snd s)) \<and>
     final_ok (w_fin (snd s)) \<and> length (cx_AppHash (fst s)) = 32"

lemma voting_inv_block:
  "voting_inv x c w \<Longrightarrow> fs_blocks (w_fin w) h = Some ib \<Longrightarrow> h \<le> cx_height c \<and> length (ib_AppHash ib) = 32"
  by (simp add: voting_inv_def)

lemma same_power:
  assumes "\<And>pk. kv_get (fs_voting_power f') (h, pk) = kv_get (fs_voting_power f) (h, pk)"
  shows "has_quorum f' h A = has_quorum f h A" "power_bound f' h = power_bound f h"
proof -
  have "table_pks f' h = table_pks f h" by (auto simp: table_pks_iff assms)
  moreover have "power_at f' h = power_at f h" by (simp add: fun_eq_iff power_at_def GetVotingPower_def assms)
  ultimately show "has_quorum f' h A = has_quorum f h A" "power_bound f' h = power_bound f h"
    by (simp_all add: has_quorum_def power_bound_def power_of_def total_power_def)
qed

lemma moves_inv:
  assumes inv: "chain_inv x (c, w)" and mv: "moves H w w'"
    and c': "cx_height c \<le> cx_height c'" "length (cx_AppHash c') = 32"
    and H: "\<And>h. h \<in> H \<Longrightarrow> \<not> finalized_at (w_fin w) h"
  shows "chain_inv x (c', w')"
proof -
  have v: "voting_inv x c w" "accountable x w" "blocks_ok (w_fin w)" "final_ok (w_fin w)"
    using inv by (simp_all add: chain_inv_def)
  have good: "good w" using v(1) by (simp add: voting_inv_def good_def)
  have same: "fs_votes (w_fin w') = fs_votes (w_fin w)" "fs_evidence (w_fin w') = fs_evidence (w_fin w)"
    "fs_blocks (w_fin w') = fs_blocks (w_fin w)" and good': "good w'" "\<And>pk. slashed w pk \<Longrightarrow> slashed w' pk"
    using mv good by (simp_all add: moves_def)
  have "voting_inv x c' w'"
    using v(1) good' c'(1) unfolding voting_inv_def good_def same by (blast intro: order_trans)
  moreover have "accountable x w'" using v(2) good'(2) unfolding accountable_def HasSig_def HasEvidence_def same by blast
  moreover have "blocks_ok (w_fin w')" using v(3) by (simp add: blocks_ok_def same)
  moreover have "final_ok (w_fin w')"
    unfolding final_ok_def
  proof (intro allI impI, elim conjE)
    fix h assume fin: "finalized_at (w_fin w') h" and bound: "power_bound (w_fin w') h"
    then have fin: "finalized_at (w_fin w) h" by (simp add: finalized_at_def same)
    then have "kv_get (fs_voting_power (w_fin w')) (h, pk) = kv_get (fs_voting_power (w_fin w)) (h, pk)" for pk
      using H mv by (auto simp: moves_def)
    note pow = same_power [OF this]
    show "has_quorum (w_fin w') h (voters (w_fin w') h)"
      using v(4) fin bound by (simp add: final_ok_def pow voters_def HasSig_def same)
  qed
  ultimately show ?thesis using c'(2) by (simp add: chain_inv_def)
qed

lemma quiet_inv: "chain_inv x (c, w) \<Longrightarrow> moves {} w w' \<Longrightarrow> chain_inv x (c, w')"
  by (rule moves_inv [where H = "{}" and c = c]) (simp_all add: chain_inv_def)

lemma TallyBlocks_tallied:
  assumes inv: "chain_inv x (c, w)" and run: "TallyBlocks c n (w_fin w) = Inr f"
  shows "tallied (if \<not> HasBlock (w_fin w) (cx_height c) then IndexBlock c (w_fin w) else w_fin w) f \<and> blocks_ok f \<and> final_ok f"
proof -
  have v: "voting_inv x c w" "accountable x w" "blocks_ok (w_fin w)" "final_ok (w_fin w)" "length (cx_AppHash c) = 32"
    using inv by (simp_all add: chain_inv_def)
  let ?f1 = "if \<not> HasBlock (w_fin w) (cx_height c) then IndexBlock c (w_fin w) else w_fin w"
  obtain hs where run1: "tally_loop hs ?f1 = Inr f"
    using run by (auto simp: TallyBlocks_def Let_def split: sum.splits if_splits)
  have same: "fs_votes ?f1 = fs_votes (w_fin w)" "fs_evidence ?f1 = fs_evidence (w_fin w)"
    "fs_voting_power ?f1 = fs_voting_power (w_fin w)" "stores_wf ?f1 = stores_wf (w_fin w)"
    by (simp_all add: IndexBlock_def SetBlock_def stores_wf_def)
  have fin: "finalized_at ?f1 h = finalized_at (w_fin w) h" for h
    by (auto simp: finalized_at_def IndexBlock_def SetBlock_def HasBlock_def)
  have ok: "stores_wf ?f1" "blocks_ok ?f1" "final_ok ?f1"
  proof -
    show "stores_wf ?f1" using v(1) by (simp add: same(4) voting_inv_def)
    show "blocks_ok ?f1" using v(3) by (auto simp: blocks_ok_def IndexBlock_def SetBlock_def)
    have pow: "has_quorum ?f1 h A = has_quorum (w_fin w) h A" "power_bound ?f1 h = power_bound (w_fin w) h" for h A
      by (rule same_power, simp only: same(3))+
    have vot: "voters ?f1 h = voters (w_fin w) h" for h by (simp only: voters_def HasSig_def same(1))
    show "final_ok ?f1" using v(4) unfolding final_ok_def fin pow vot .
  qed
  show ?thesis by (rule tally_loop_ok [OF run1 ok])
qed

lemma TallyBlocks_inv:
  assumes inv: "chain_inv x (c, w)" and run: "TallyBlocks c n (w_fin w) = Inr f"
  shows "chain_inv x (c, w\<lparr>w_fin := f\<rparr>)"
proof -
  have v: "voting_inv x c w" "accountable x w" "length (cx_AppHash c) = 32"
    using inv by (simp_all add: chain_inv_def)
  let ?f1 = "if \<not> HasBlock (w_fin w) (cx_height c) then IndexBlock c (w_fin w) else w_fin w"
  have t: "tallied ?f1 f" "blocks_ok f" "final_ok f" using TallyBlocks_tallied [OF assms] by blast+
  have same: "fs_votes ?f1 = fs_votes (w_fin w)" "fs_evidence ?f1 = fs_evidence (w_fin w)"
    "fs_voting_power ?f1 = fs_voting_power (w_fin w)" "stores_wf ?f1 = stores_wf (w_fin w)"
    by (simp_all add: IndexBlock_def SetBlock_def stores_wf_def)
  have hash: "h \<le> cx_height c \<and> length (ib_AppHash ib) = 32" if ib: "fs_blocks f h = Some ib" for h ib
  proof -
    have "map_option ib_AppHash (fs_blocks ?f1 h) = Some (ib_AppHash ib)" using tallied_hash [OF t(1), of h] unfolding ib by (simp only: option.map)
    then obtain ib' where ib': "fs_blocks ?f1 h = Some ib'" "ib_AppHash ib' = ib_AppHash ib" by auto
    then have "fs_blocks (w_fin w) h = Some ib' \<or> h = cx_height c \<and> ib_AppHash ib' = cx_AppHash c"
      by (auto simp: IndexBlock_def SetBlock_def split: if_splits)
    then show ?thesis using voting_inv_block [OF v(1), of h ib'] v(3) ib'(2) by auto
  qed
  note f = tallied_fields [OF t(1), unfolded same]
  have "voting_inv x c (w\<lparr>w_fin := f\<rparr>)" using v(1) hash by (simp add: voting_inv_def f)
  moreover have "accountable x (w\<lparr>w_fin := f\<rparr>)"
    using v(2) by (simp add: accountable_def HasSig_def HasEvidence_def f slashed_def)
  ultimately show ?thesis using t v(3) by (simp add: chain_inv_def)
qed

lemma EndBlocker_parts:
  assumes "EndBlocker x en c w = Inr w'" "IsFinalityActive c (w_fin w)"
  obtains f where "TallyBlocks c MaxFinalizedRewardedBlocksPerEndBlock (w_fin w) = Inr f" "moves {} (w\<lparr>w_fin := f\<rparr>) w'"
proof -
  obtain f where f: "TallyBlocks c MaxFinalizedRewardedBlocksPerEndBlock (w_fin w) = Inr f"
    using assms by (auto simp: EndBlocker_def bindR_eq_Inr)
  have "moves {} (w\<lparr>w_fin := f\<rparr>) w'"
    using assms f by (auto simp: EndBlocker_def Let_def bindR_eq_Inr split: if_splits
      intro: moves_trans HandleLiveness_moves HandleRewarding_moves)
  with f show ?thesis by (rule that)
qed

lemma EndBlocker_inv:
  assumes inv: "chain_inv x (c, w)" and run: "EndBlocker x en c w = Inr w'"
  shows "chain_inv x (c, w')"
proof (cases "IsFinalityActive c (w_fin w)")
  case True
  obtain f where f: "TallyBlocks c MaxFinalizedRewardedBlocksPerEndBlock (w_fin w) = Inr f" "moves {} (w\<lparr>w_fin := f\<rparr>) w'"
    by (rule EndBlocker_parts [OF run True])
  from quiet_inv [OF TallyBlocks_inv [OF inv f(1)] f(2)] show ?thesis .
qed (use assms in \<open>simp add: EndBlocker_def\<close>)

lemma next_height:
  assumes "cx_Height c' = cx_Height c + 1" "0 \<le> cx_Height c" "cx_Height c' < 2 ^ 63"
  shows "cx_height c < cx_height c'"
proof -
  have "uint (word_of_int n :: u64) = n" if "0 \<le> n" "n < 2 ^ 63" for n
    using that by (simp add: uint_word_of_int)
  from this [of "cx_Height c"] this [of "cx_Height c'"] show ?thesis
    using assms unfolding cx_height_def word_less_def by simp
qed

lemma staking_params_moves: "BTCStaking_UpdateParams x a n r ps (w_bs w) = Inr b \<Longrightarrow> moves H w (w\<lparr>w_bs := b\<rparr>)"
  by (rule moves_fps) (auto simp: BTCStaking_UpdateParams_def guardR_eq_Inr bindR_eq_Inr)

lemmas quiet_moves = CreateFinalityProvider_moves EditFinalityProvider_moves AddCovenantSigs_moves inclusion_proof_moves
  SelectiveSlashing_moves staking_params_moves CommitPubRandList_moves unjail_moves Finality_UpdateParams_moves

lemma chain_step_inv:
  assumes "chain_step x en s s'" "chain_inv x s"
  shows "chain_inv x s'"
  using assms
proof (induction rule: chain_step.induct)
  case (next_block c' c w w')
  have lt: "cx_height c < cx_height c'" by (rule next_height [OF next_block(1-3)])
  have "\<not> finalized_at (w_fin w) h" if "h \<in> {cx_height c'}" for h
    using next_block.prems lt that voting_inv_block [of x c w h]
    by (auto simp: chain_inv_def finalized_at_def dest: leD)
  from moves_inv [OF next_block.prems begin_moves [OF next_block(5)] less_imp_le [OF lt] next_block(4) this]
  show ?case .
next
  case (others c' c w)
  then show ?case by (auto simp: chain_inv_def voting_inv_def cx_height_def)
next
  case (vote c req w w')
  have inv: "voting_inv x c w" "accountable x w" "blocks_ok (w_fin w)" "final_ok (w_fin w)"
    using vote.prems by (simp_all add: chain_inv_def)
  obtain pk pr sig ib where chk: "vote_checked x c req pk pr sig ib w" and eff: "vote_effect req pk pr sig ib w w'"
    using AddFinalitySig_effect [OF inv(1) vote(2,1)] by blast
  note st = vote_effect_stores [OF eff]
  have pow: "has_quorum (w_fin w') h A = has_quorum (w_fin w) h A" "power_bound (w_fin w') h = power_bound (w_fin w) h" for h A
    by (rule same_power, simp only: st(6))+
  have sub: "voters (w_fin w) h \<subseteq> voters (w_fin w') h" for h using st(1) by (auto simp: voters_def)
  have "final_ok (w_fin w')"
    using inv(4) quorum_mono [OF _ sub] unfolding final_ok_def pow finalized_at_def st(5) by blast
  moreover have "blocks_ok (w_fin w')" using inv(3) by (simp add: blocks_ok_def st(5))
  ultimately show ?case
    using vote_keeps_inv [OF inv(1) chk eff] vote_keeps_accountable [OF inv(1,2) chk eff] vote.prems
    by (simp add: chain_inv_def)
next
  case (resume authority c req w w')
  have hash: "length (cx_AppHash c) = 32" using resume.prems by (simp add: chain_inv_def)
  show ?case by (rule moves_inv [OF resume.prems resume_moves [OF resume(1)] order_refl hash]) (simp add: resume(2))
next
  case (end_block c w w' kDepth)
  then show ?case by (blast intro: EndBlocker_inv)
qed (blast intro: quiet_inv quiet_moves)+

lemma reachable_inv: "reachable x en s0 s \<Longrightarrow> chain_inv x s0 \<Longrightarrow> chain_inv x s"
  by (induction rule: reachable.induct) (auto intro: chain_step_inv)

subsection \<open>Accountable safety\<close>

text \<open>A chain starts without votes, evidence and blocks.\<close>

definition chain_start :: "ctx \<times> 'h world \<Rightarrow> bool" where
  "chain_start s \<longleftrightarrow> good (snd s) \<and> fs_votes (w_fin (snd s)) = [] \<and> fs_evidence (w_fin (snd s)) = [] \<and>
     fs_blocks (w_fin (snd s)) = Map.empty \<and> length (cx_AppHash (fst s)) = 32"

lemma chain_start_inv: "chain_start s \<Longrightarrow> chain_inv x s"
  by (simp add: chain_start_def chain_inv_def voting_inv_def good_def accountable_def blocks_ok_def final_ok_def
    finalized_at_def HasSig_def kv_has_def)

definition caught :: "ext \<Rightarrow> 'h world \<Rightarrow> u64 \<Rightarrow> btcpk set" where
  "caught x w h = {pk. slashed w pk \<and> (\<exists>e. kv_get (fs_evidence (w_fin w)) (pk, h) = Some e \<and> IsSlashable x e)}"

text \<open>C1. Accountable safety of the whole chain. In every state that a chain reaches, through any order of
  blocks and messages, a finalised height has the votes of providers with more than two thirds of its
  voting power. When providers with more than two thirds of the power of that height have also voted for
  forks of it, then providers with more than a third of the power are slashed, each with evidence that
  holds both its signatures.\<close>

theorem accountable_safety:
  assumes "chain_start s0" "reachable x en s0 (c, w)" "finalized_at (w_fin w) h" "power_bound (w_fin w) h"
  shows "has_quorum (w_fin w) h (voters (w_fin w) h) \<and>
    (\<forall>F. has_quorum (w_fin w) h F \<and> F \<subseteq> {pk. HasEvidence (w_fin w) pk h} \<longrightarrow>
      3 * power_of (w_fin w) h (F \<inter> caught x w h) > total_power (w_fin w) h)"
proof (intro conjI allI impI)
  have inv: "accountable x w" "final_ok (w_fin w)"
    using reachable_inv [OF assms(2) chain_start_inv [OF assms(1)]] by (simp_all add: chain_inv_def)
  show q: "has_quorum (w_fin w) h (voters (w_fin w) h)" using inv(2) assms(3,4) by (simp add: final_ok_def)
  fix F assume F: "has_quorum (w_fin w) h F \<and> F \<subseteq> {pk. HasEvidence (w_fin w) pk h}"
  then have "voters (w_fin w) h \<inter> F \<subseteq> F \<inter> caught x w h"
    using inv(1) by (auto simp: accountable_def caught_def voters_def)
  then have "power_of (w_fin w) h (voters (w_fin w) h \<inter> F) \<le> power_of (w_fin w) h (F \<inter> caught x w h)"
    unfolding vq_weight [symmetric] by (rule vq.weight_of_mono)
  with quorum_intersection [OF q] F show "3 * power_of (w_fin w) h (F \<inter> caught x w h) > total_power (w_fin w) h"
    by (fastforce simp: power_of_def total_power_def)
qed

subsection \<open>A run\<close>

text \<open>Block 12 ends, the only provider votes for it, the next end finalises it, and the provider votes for
  a fork.\<close>

definition run_ctx :: ctx where
  "run_ctx = (sample_ctx 12)\<lparr>cx_AppHash := replicate 32 CHR ''h'', cx_EpochByHeight := (\<lambda>_. 1000)\<rparr>"

definition run_start :: "unit world" where
  "run_start = vote_world\<lparr>w_fin := (w_fin vote_world)\<lparr>fs_blocks := Map.empty\<rparr>\<rparr>"

definition run_msg :: "char \<Rightarrow> char \<Rightarrow> MsgAddFinalitySig" where
  "run_msg = vote_msg pkA 12"

definition run_result :: "unit world result" where
  "run_result =
     bindR (EndBlocker sample_ext sample_env run_ctx run_start) (\<lambda>w1.
     bindR (AddFinalitySig sample_ext sample_env run_ctx (run_msg CHR ''h'' CHR ''s'') w1) (\<lambda>w2.
     bindR (EndBlocker sample_ext sample_env run_ctx w2) (\<lambda>w3.
     AddFinalitySig sample_ext sample_env run_ctx (run_msg CHR ''f'' CHR ''t'') w3)))"

lemma run_chain_start: "chain_start (run_ctx, run_start)"
  using vote_world_inv(1) by (auto simp: chain_start_def good_def run_start_def run_ctx_def voting_inv_def vote_world_def
    stores_wf_def committed_fin_def empty_fin_def)

lemma run_check: "case run_result of Inl _ \<Rightarrow> False | Inr w \<Rightarrow>
    (case fs_blocks (w_fin w) 12 of None \<Rightarrow> False | Some ib \<Rightarrow> ib_Finalized ib) \<and>
    HasEvidence (w_fin w) pkA 12 \<and> fs_voting_power (w_fin w) = [((12, pkA), 300)]"
  by code_simp

theorem accountable_safety_witness:
  "\<exists>w. reachable sample_ext sample_env (run_ctx, run_start) (run_ctx, w) \<and> finalized_at (w_fin w) 12 \<and>
    3 * power_of (w_fin w) 12 ({pkA} \<inter> caught sample_ext w 12) > total_power (w_fin w) 12"
proof -
  let ?x = sample_ext and ?en = sample_env and ?s0 = "(run_ctx, run_start)"
  obtain w1 w2 w3 w where run: "EndBlocker ?x ?en run_ctx run_start = Inr w1"
    "AddFinalitySig ?x ?en run_ctx (run_msg CHR ''h'' CHR ''s'') w1 = Inr w2" "EndBlocker ?x ?en run_ctx w2 = Inr w3"
    "AddFinalitySig ?x ?en run_ctx (run_msg CHR ''f'' CHR ''t'') w3 = Inr w" and res: "run_result = Inr w"
    using run_check by (auto simp: run_result_def bindR_eq_Inr split: sum.splits)
  have c: "0 < cx_height run_ctx" by (simp add: run_ctx_def sample_ctx_def cx_height_def)
  have halt: "BTCStaking_EndBlocker 10 (w_bs v) = Inr ()" if "bs_largest_reorg (w_bs v) = None" for v :: "unit world"
    using that by (simp add: BTCStaking_EndBlocker_def HaltIfBtcReorgLargerThanConfirmationDepth_def GetLargestBtcReorg_def)
  have none: "case bindR (EndBlocker ?x ?en run_ctx run_start)
      (AddFinalitySig ?x ?en run_ctx (run_msg CHR ''h'' CHR ''s'')) of Inl _ \<Rightarrow> False | Inr w \<Rightarrow> bs_largest_reorg (w_bs w) = None"
    "bs_largest_reorg (w_bs run_start) = None" by code_simp+
  have n2: "bs_largest_reorg (w_bs w2) = None" using none(1) by (simp only: run(1,2) bindR_Inr sum.case)
  have "reachable ?x ?en ?s0 (run_ctx, w1)"
    by (rule reachable.step [OF reachable.start end_block [OF run(1) halt [OF none(2)]]])
  then have "reachable ?x ?en ?s0 (run_ctx, w2)" by (rule reachable.step) (rule vote [OF run(2) c])
  then have "reachable ?x ?en ?s0 (run_ctx, w3)" by (rule reachable.step) (rule end_block [OF run(3) halt [OF n2]])
  then have reach: "reachable ?x ?en ?s0 (run_ctx, w)" by (rule reachable.step) (rule vote [OF run(4) c])
  note chk = run_check [unfolded res sum.case]
  have w: "finalized_at (w_fin w) 12" "HasEvidence (w_fin w) pkA 12" "fs_voting_power (w_fin w) = [((12, pkA), 300)]"
    using chk by (simp_all add: finalized_at_def split: option.splits)
  have tab: "table_pks (w_fin w) 12 = {pkA}" by (simp add: table_pks_def w(3))
  have pow: "power_at (w_fin w) 12 pkA = 300" by (simp add: power_at_def GetVotingPower_def w(3))
  have q: "has_quorum (w_fin w) 12 {pkA}" "power_bound (w_fin w) 12"
    by (simp_all add: has_quorum_def power_bound_def power_of_def total_power_def tab pow)
  from accountable_safety [OF run_chain_start reach w(1) q(2)] q(1) w(2) reach w(1) show ?thesis by blast
qed

end
