(* ===== verification/EOTS.thy ===== *)
theory EOTS
  imports Data_Model
begin

text \<open>
  Extractable one-time signatures (\<open>crypto/eots/eots.go\<close>, \<open>crypto/common/common.go\<close>): a Schnorr signature
  whose nonce is committed in advance. Two signatures with the same nonce reveal the secret key.

  The curve library (\<open>btcec\<close>, \<open>secp256k1\<close>) and the hash functions are the record \<open>curve\<close>. A scalar is an
  integer between zero and the group order, a field element (\<open>FieldVal\<close>, normalised) an integer, a
  public key a point.
\<close>

subsection \<open>The curve library\<close>

text \<open>\<open>cv_lift_x\<close> is \<open>schnorr.ParsePubKey\<close>, \<open>cv_field_bytes\<close> and \<open>cv_field\<close> are \<open>PutBytesUnchecked\<close> and
  \<open>SetByteSlice\<close> with \<open>Normalize\<close>, \<open>cv_inverse\<close> is \<open>InverseNonConst\<close>, and \<open>cv_challenge\<close> is \<open>TaggedHash\<close> with the tag
  \<open>BIP0340/challenge\<close>, read as a big-endian integer.\<close>

record 'p curve =
  cv_order :: int
  cv_base_mult :: "int \<Rightarrow> 'p"
  cv_mult :: "int \<Rightarrow> 'p \<Rightarrow> 'p"
  cv_add :: "'p \<Rightarrow> 'p \<Rightarrow> 'p"
  cv_is_infinity :: "'p \<Rightarrow> bool"
  cv_on_curve :: "'p \<Rightarrow> bool"
  cv_X :: "'p \<Rightarrow> int"
  cv_Y_odd :: "'p \<Rightarrow> bool"
  cv_lift_x :: "bytes \<Rightarrow> 'p option"
  cv_field_bytes :: "int \<Rightarrow> bytes"
  cv_field :: "bytes \<Rightarrow> int"
  cv_scalar :: "bytes \<Rightarrow> int"
  cv_inverse :: "int \<Rightarrow> int"
  cv_challenge :: "bytes \<Rightarrow> bytes \<Rightarrow> bytes \<Rightarrow> int"
  cv_sha256 :: "bytes \<Rightarrow> bytes"

datatype eots_error =
    ErrPrivateKeyIsZero
  | ErrSchnorrHashValue
  | ErrPubKeyParse
  | ErrPubKeyNotOnCurve
  | ErrSigRNotOnCurve
  | ErrSigRYIsOdd
  | ErrUnequalRValues
  | ErrRandomInput
  | ErrEqualSignatures
  | ErrKeyMismatch

subsection \<open>Operations\<close>

definition PubGen :: "'p curve \<Rightarrow> int \<Rightarrow> 'p" where
  "PubGen C k = cv_base_mult C k"

text \<open>\<open>sk\<close> is the key that \<open>KeyGen\<close> drew, or none when the source of randomness failed.\<close>

definition RandGen :: "'p curve \<Rightarrow> int option \<Rightarrow> eots_error + int \<times> int" where
  "RandGen C sk = (case sk of None \<Rightarrow> Inl ErrRandomInput | Some k \<Rightarrow> Inr (k, cv_X C (PubGen C k)))"

text \<open>\<open>SerializeCompressed()[1:]\<close>, also \<open>schnorr.SerializePubKey\<close>\<close>

definition x_only :: "'p curve \<Rightarrow> 'p \<Rightarrow> bytes" where
  "x_only C P = cv_field_bytes C (cv_X C P)"

text \<open>\<open>blind\<close> is the blinding factor before reduction, or none when \<open>rand.Read\<close> failed.\<close>

definition ScalarBaseMultWithBlinding :: "'p curve \<Rightarrow> int option \<Rightarrow> int \<Rightarrow> eots_error + 'p" where
  "ScalarBaseMultWithBlinding C blind k = (case blind of
       None \<Rightarrow> Inl ErrRandomInput
     | Some b \<Rightarrow>
         let r = b mod cv_order C;
             kr = (k + r) mod cv_order C;
             rNeg = (- r) mod cv_order C
         in Inr (cv_add C (cv_base_mult C kr) (cv_base_mult C rNeg)))"

text \<open>\<open>e.SetBytes\<close> with its overflow check.\<close>

definition challenge :: "'p curve \<Rightarrow> bytes \<Rightarrow> bytes \<Rightarrow> bytes \<Rightarrow> eots_error + int" where
  "challenge C rBytes pBytes hash =
     (let e = cv_challenge C rBytes pBytes hash
      in if e \<ge> cv_order C then Inl ErrSchnorrHashValue else Inr e)"

definition signHash :: "'p curve \<Rightarrow> int option \<Rightarrow> int \<Rightarrow> int \<Rightarrow> bytes \<Rightarrow> eots_error + int" where
  "signHash C blind sk privateRand hash =
     guardR (sk = 0) ErrPrivateKeyIsZero
    (let pubKey = PubGen C sk;
         privKeyScalarNegated = (- sk) mod cv_order C;
         isPyOdd = cv_Y_odd C pubKey;
         k = privateRand
     in bindR (ScalarBaseMultWithBlinding C blind k) (\<lambda>R.
        let kNegated = (- k) mod cv_order C;
            isRyOdd = cv_Y_odd C R;
            rBytes = cv_field_bytes C (cv_X C R);
            pBytes = x_only C pubKey
        in bindR (challenge C rBytes pBytes hash) (\<lambda>e.
           Inr (if isPyOdd \<and> isRyOdd then (e * privKeyScalarNegated + kNegated) mod cv_order C
                else if isPyOdd \<and> \<not> isRyOdd then (e * privKeyScalarNegated + k) mod cv_order C
                else if \<not> isPyOdd \<and> isRyOdd then (e * sk + kNegated) mod cv_order C
                else (e * sk + k) mod cv_order C))))"

definition Sign :: "'p curve \<Rightarrow> int option \<Rightarrow> int \<Rightarrow> int \<Rightarrow> bytes \<Rightarrow> eots_error + int" where
  "Sign C blind sk privateRand message = signHash C blind sk privateRand (cv_sha256 C message)"

definition verifyHash :: "'p curve \<Rightarrow> bytes \<Rightarrow> int \<Rightarrow> bytes \<Rightarrow> int \<Rightarrow> eots_error + unit" where
  "verifyHash C pubKeyBytes r hash sig =
     bindR (option_to_result ErrPubKeyParse (cv_lift_x C pubKeyBytes)) (\<lambda>pubKey.
     guardR (\<not> cv_on_curve C pubKey) ErrPubKeyNotOnCurve
    (bindR (challenge C (cv_field_bytes C r) (x_only C pubKey) hash) (\<lambda>e.
     let eNeg = (- e) mod cv_order C;
         R = cv_add C (cv_base_mult C sig) (cv_mult C eNeg pubKey)
     in guardR (cv_is_infinity C R) ErrSigRNotOnCurve
       (guardR (cv_Y_odd C R) ErrSigRYIsOdd
       (guardR (r \<noteq> cv_X C R) ErrUnequalRValues
       (Inr ()))))))"

definition Verify :: "'p curve \<Rightarrow> 'p \<Rightarrow> int \<Rightarrow> bytes \<Rightarrow> int \<Rightarrow> eots_error + unit" where
  "Verify C pubKey r message sig = verifyHash C (x_only C pubKey) r (cv_sha256 C message) sig"

text \<open>The private key, the error, and what the second signature, which is passed by reference, holds
  afterwards: \<open>sig2.Negate()\<close> negates it in place.\<close>

definition extractFromHashes ::
  "'p curve \<Rightarrow> 'p \<Rightarrow> int \<Rightarrow> bytes \<Rightarrow> int \<Rightarrow> bytes \<Rightarrow> int \<Rightarrow> (int option \<times> eots_error option) \<times> int" where
  "extractFromHashes C pubKey r hash1 sig1 hash2 sig2 =
     (let rBytes = cv_field_bytes C r; pBytes = x_only C pubKey in
      if sig1 = sig2 then ((None, Some ErrEqualSignatures), sig2)
      else case challenge C rBytes pBytes hash1 of
        Inl err \<Rightarrow> ((None, Some err), sig2)
      | Inr e1 \<Rightarrow> (case challenge C rBytes pBytes hash2 of
          Inl err \<Rightarrow> ((None, Some err), sig2)
        | Inr e2 \<Rightarrow>
            let denom = (e1 + (- e2) mod cv_order C) mod cv_order C;
                sig2' = (- sig2) mod cv_order C;
                x = ((sig1 + sig2') mod cv_order C * cv_inverse C denom) mod cv_order C;
                x' = (if cv_Y_odd C pubKey then (- x) mod cv_order C else x)
            in if PubGen C x' = pubKey then ((Some x', None), sig2')
               else ((Some x', Some ErrKeyMismatch), sig2')))"

definition Extract ::
  "'p curve \<Rightarrow> 'p \<Rightarrow> int \<Rightarrow> bytes \<Rightarrow> int \<Rightarrow> bytes \<Rightarrow> int \<Rightarrow> (int option \<times> eots_error option) \<times> int" where
  "Extract C pubKey r message1 sig1 message2 sig2 =
     extractFromHashes C pubKey r (cv_sha256 C message1) sig1 (cv_sha256 C message2) sig2"

subsection \<open>What the operations rely on\<close>

text \<open>The group has order \<open>n\<close> and is generated by the base point; points with the same X coordinate are
  equal or opposite, and exactly one of two opposite points has an odd Y coordinate; a parsed public
  key is the point with the given X coordinate and an even Y coordinate.\<close>

definition curve_ok :: "'p curve \<Rightarrow> bool" where
  "curve_ok C \<longleftrightarrow> cv_order C > 1 \<and>
     (\<forall>a b. cv_base_mult C a = cv_base_mult C b \<longleftrightarrow> a mod cv_order C = b mod cv_order C) \<and>
     (\<forall>a b. cv_add C (cv_base_mult C a) (cv_base_mult C b) = cv_base_mult C (a + b)) \<and>
     (\<forall>k a. cv_mult C k (cv_base_mult C a) = cv_base_mult C (k * a)) \<and>
     (\<forall>a. cv_is_infinity C (cv_base_mult C a) \<longleftrightarrow> a mod cv_order C = 0) \<and>
     (\<forall>a. cv_X C (cv_base_mult C (- a)) = cv_X C (cv_base_mult C a)) \<and>
     (\<forall>a b. a mod cv_order C \<noteq> 0 \<and> b mod cv_order C \<noteq> 0 \<and> cv_X C (cv_base_mult C a) = cv_X C (cv_base_mult C b) \<longrightarrow>
        cv_base_mult C a = cv_base_mult C b \<or> cv_base_mult C a = cv_base_mult C (- b)) \<and>
     (\<forall>a. a mod cv_order C \<noteq> 0 \<longrightarrow> cv_Y_odd C (cv_base_mult C (- a)) \<noteq> cv_Y_odd C (cv_base_mult C a)) \<and>
     (\<forall>bs P. cv_lift_x C bs = Some P \<longrightarrow> x_only C P = bs \<and> \<not> cv_Y_odd C P \<and> cv_on_curve C P \<and>
        (\<exists>a. a mod cv_order C \<noteq> 0 \<and> P = cv_base_mult C a)) \<and>
     (\<forall>a. a mod cv_order C \<noteq> 0 \<longrightarrow> cv_lift_x C (x_only C (cv_base_mult C a)) \<noteq> None) \<and>
     (\<forall>a b. a mod cv_order C \<noteq> 0 \<and> b mod cv_order C \<noteq> 0 \<and> x_only C (cv_base_mult C a) = x_only C (cv_base_mult C b) \<longrightarrow>
        cv_X C (cv_base_mult C a) = cv_X C (cv_base_mult C b)) \<and>
     (\<forall>a. a mod cv_order C \<noteq> 0 \<longrightarrow> (a * cv_inverse C (a mod cv_order C)) mod cv_order C = 1) \<and>
     (\<forall>r p h. 0 \<le> cv_challenge C r p h)"

subsection \<open>Keys and nonces\<close>

text \<open>The logarithm of the point with the X coordinate of \<open>a G\<close> and an even Y coordinate.\<close>

definition even_log :: "'p curve \<Rightarrow> int \<Rightarrow> int" where
  "even_log C a = (if cv_Y_odd C (cv_base_mult C a) then - a else a)"

lemma curve_laws:
  assumes "curve_ok C"
  shows "1 < cv_order C" "cv_base_mult C a = cv_base_mult C b \<longleftrightarrow> a mod cv_order C = b mod cv_order C"
    "cv_add C (cv_base_mult C a) (cv_base_mult C b) = cv_base_mult C (a + b)"
    "cv_mult C k (cv_base_mult C a) = cv_base_mult C (k * a)"
    "cv_is_infinity C (cv_base_mult C a) \<longleftrightarrow> a mod cv_order C = 0"
    "cv_X C (cv_base_mult C (- a)) = cv_X C (cv_base_mult C a)"
    "0 \<le> cv_challenge C rs ps hs"
  using assms unfolding curve_ok_def by simp_all

lemma lift_law:
  assumes "curve_ok C" "cv_lift_x C bs = Some P"
  obtains a where "x_only C P = bs" "\<not> cv_Y_odd C P" "cv_on_curve C P" "a mod cv_order C \<noteq> 0" "P = cv_base_mult C a"
  using assms unfolding curve_ok_def by (elim conjE allE [of _ bs] allE [of _ P]) (auto intro: that)

lemma lift_exists:
  assumes "curve_ok C" "a mod cv_order C \<noteq> 0"
  obtains P where "cv_lift_x C (x_only C (cv_base_mult C a)) = Some P"
  using assms unfolding curve_ok_def by (elim conjE) (metis not_None_eq that)

lemma x_only_law:
  assumes "curve_ok C" "a mod cv_order C \<noteq> 0" "b mod cv_order C \<noteq> 0"
    "x_only C (cv_base_mult C a) = x_only C (cv_base_mult C b)"
  shows "cv_X C (cv_base_mult C a) = cv_X C (cv_base_mult C b)"
proof -
  have "\<forall>a b. a mod cv_order C \<noteq> 0 \<and> b mod cv_order C \<noteq> 0 \<and> x_only C (cv_base_mult C a) = x_only C (cv_base_mult C b) \<longrightarrow>
      cv_X C (cv_base_mult C a) = cv_X C (cv_base_mult C b)"
    using assms(1) unfolding curve_ok_def by (elim conjE) assumption
  with assms(2-4) show ?thesis by blast
qed

lemma base_mod: "curve_ok C \<Longrightarrow> cv_base_mult C (a mod cv_order C) = cv_base_mult C a"
  by (simp add: curve_laws)

lemma uminus_mod_zero: "(- a) mod n = 0 \<longleftrightarrow> a mod n = (0 :: int)"
  by (simp add: mod_eq_0_iff_dvd)

lemma even_log_even:
  assumes "curve_ok C" "a mod cv_order C \<noteq> 0"
  shows "\<not> cv_Y_odd C (cv_base_mult C (even_log C a))" "even_log C a mod cv_order C \<noteq> 0"
    "cv_X C (cv_base_mult C (even_log C a)) = cv_X C (cv_base_mult C a)"
proof -
  have "cv_Y_odd C (cv_base_mult C (- a)) \<noteq> cv_Y_odd C (cv_base_mult C a)"
    using assms unfolding curve_ok_def by blast
  then show "\<not> cv_Y_odd C (cv_base_mult C (even_log C a))" by (simp add: even_log_def)
  show "even_log C a mod cv_order C \<noteq> 0" using assms(2) by (simp add: even_log_def uminus_mod_zero)
  show "cv_X C (cv_base_mult C (even_log C a)) = cv_X C (cv_base_mult C a)"
    by (simp add: even_log_def curve_laws [OF assms(1)])
qed

text \<open>A point is determined by its X coordinate and the parity of its Y coordinate.\<close>

lemma even_unique:
  assumes C: "curve_ok C" and a: "a mod cv_order C \<noteq> 0" "\<not> cv_Y_odd C (cv_base_mult C a)"
    and b: "b mod cv_order C \<noteq> 0" "\<not> cv_Y_odd C (cv_base_mult C b)"
    and eq: "cv_X C (cv_base_mult C a) = cv_X C (cv_base_mult C b)"
  shows "cv_base_mult C a = cv_base_mult C b"
proof -
  have "cv_base_mult C a = cv_base_mult C b \<or> cv_base_mult C a = cv_base_mult C (- b)"
    using C a(1) b(1) eq unfolding curve_ok_def by blast
  moreover have "cv_Y_odd C (cv_base_mult C (- b)) \<noteq> cv_Y_odd C (cv_base_mult C b)"
    using C b(1) unfolding curve_ok_def by blast
  ultimately show ?thesis using a(2) b(2) by auto
qed

lemma lift_even:
  assumes C: "curve_ok C" and a: "a mod cv_order C \<noteq> 0"
  shows "cv_lift_x C (x_only C (cv_base_mult C a)) = Some (cv_base_mult C (even_log C a))"
    "x_only C (cv_base_mult C (even_log C a)) = x_only C (cv_base_mult C a)"
    "cv_on_curve C (cv_base_mult C (even_log C a))"
proof -
  obtain P where P: "cv_lift_x C (x_only C (cv_base_mult C a)) = Some P" by (rule lift_exists [OF C a])
  obtain b where b: "x_only C P = x_only C (cv_base_mult C a)" "\<not> cv_Y_odd C P" "cv_on_curve C P"
    "b mod cv_order C \<noteq> 0" "P = cv_base_mult C b"
    by (rule lift_law [OF C P])
  have "cv_X C (cv_base_mult C b) = cv_X C (cv_base_mult C a)"
    by (rule x_only_law [OF C b(4) a]) (simp only: b(1) b(5) [symmetric])
  then have "P = cv_base_mult C (even_log C a)"
    using even_unique [OF C b(4) _ even_log_even(2,1) [OF C a]] b even_log_even(3) [OF C a] by simp
  with P b show "cv_lift_x C (x_only C (cv_base_mult C a)) = Some (cv_base_mult C (even_log C a))"
    "x_only C (cv_base_mult C (even_log C a)) = x_only C (cv_base_mult C a)"
    "cv_on_curve C (cv_base_mult C (even_log C a))" by simp_all
qed

text \<open>The verification equation over the logarithms.\<close>

lemma Verify_iff:
  assumes C: "curve_ok C" and d: "d mod cv_order C \<noteq> 0"
  shows "Verify C (cv_base_mult C d) r m s = Inr () \<longleftrightarrow>
    (\<exists>e. challenge C (cv_field_bytes C r) (x_only C (cv_base_mult C d)) (cv_sha256 C m) = Inr e \<and>
      (s - e * even_log C d) mod cv_order C \<noteq> 0 \<and> \<not> cv_Y_odd C (cv_base_mult C (s - e * even_log C d)) \<and>
      r = cv_X C (cv_base_mult C (s - e * even_log C d)))"
proof -
  note law = curve_laws [OF C]
  have R: "cv_add C (cv_base_mult C s) (cv_mult C ((- e) mod cv_order C) (cv_base_mult C (even_log C d))) =
      cv_base_mult C (s - e * even_log C d)" for e
    unfolding law(3,4) law(2) by (metis diff_conv_add_uminus mod_add_right_eq mod_mult_left_eq mult_minus_left)
  show ?thesis
    by (auto simp: Verify_def verifyHash_def lift_even [OF C d] bindR_eq_Inr guardR_eq_Inr Let_def R law(5)
      option_to_result_def)
qed

lemma blinding:
  assumes "curve_ok C"
  shows "ScalarBaseMultWithBlinding C (Some b) k = Inr (cv_base_mult C k)"
proof -
  let ?n = "cv_order C"
  have "((k + b mod ?n) mod ?n + (- (b mod ?n)) mod ?n) mod ?n = (k + b mod ?n - b mod ?n) mod ?n"
    by (metis diff_conv_add_uminus mod_add_eq)
  then show ?thesis
    by (simp add: ScalarBaseMultWithBlinding_def Let_def curve_laws(2,3) [OF assms])
qed

text \<open>The signature as an equation over the logarithms.\<close>

lemma mod_neg_mult: "(x * ((- a) mod n) + y) mod n = (y - x * a) mod (n :: int)"
proof -
  have "(x * ((- a) mod n) + y) mod n = (x * - a + y) mod n" by (metis mod_add_left_eq mod_mult_right_eq)
  then show ?thesis by (simp add: algebra_simps)
qed

lemma mod_neg_mult': "(y + x * ((- a) mod n)) mod n = (y - x * a) mod (n :: int)"
  using mod_neg_mult [of x a n y] by (simp add: add.commute)

lemma Sign_eq:
  assumes "curve_ok C" "sk \<noteq> 0"
  shows "Sign C (Some b) sk k m =
    bindR (challenge C (cv_field_bytes C (cv_X C (cv_base_mult C k))) (x_only C (cv_base_mult C sk)) (cv_sha256 C m))
      (\<lambda>e. Inr ((e * even_log C sk + even_log C k) mod cv_order C))"
  using assms(2) unfolding Sign_def signHash_def
  by (auto simp: guardR_def PubGen_def blinding [OF assms(1)] Let_def even_log_def fun_eq_iff mod_neg_mult'
      mod_diff_left_eq mod_add_right_eq algebra_simps minus_diff_commute intro!: arg_cong2 [where f = bindR])

subsection \<open>Properties\<close>

text \<open>C22. A signature verifies: whatever the secret key, the nonce, the message and the blinding factor,
  when \<open>Sign\<close> returns a signature then \<open>Verify\<close> accepts it for the public key and the public randomness of the
  nonce. \<open>Sign\<close> fails only when the challenge hash is not below the group order.\<close>

theorem sign_verify:
  assumes "curve_ok C" "sk mod cv_order C \<noteq> 0" "k mod cv_order C \<noteq> 0"
  shows "(\<forall>s. Sign C (Some b) sk k m = Inr s \<longrightarrow> Verify C (PubGen C sk) (cv_X C (PubGen C k)) m s = Inr ()) \<and>
    ((\<exists>err. Sign C (Some b) sk k m = Inl err) \<longleftrightarrow>
      cv_challenge C (cv_field_bytes C (cv_X C (PubGen C k))) (x_only C (PubGen C sk)) (cv_sha256 C m) \<ge> cv_order C)"
proof -
  have sk: "sk \<noteq> 0" using assms(2) by auto
  have "Verify C (PubGen C sk) (cv_X C (PubGen C k)) m s = Inr ()" if run: "Sign C (Some b) sk k m = Inr s" for s
  proof -
    obtain e where e: "challenge C (cv_field_bytes C (cv_X C (PubGen C k))) (x_only C (PubGen C sk)) (cv_sha256 C m) = Inr e"
      "s = (e * even_log C sk + even_log C k) mod cv_order C"
      using run unfolding Sign_eq [OF assms(1) sk] by (auto simp: bindR_eq_Inr PubGen_def)
    have "(s - e * even_log C sk) mod cv_order C = even_log C k mod cv_order C"
      unfolding e(2) by (simp add: mod_diff_left_eq)
    moreover from this have "cv_base_mult C (s - e * even_log C sk) = cv_base_mult C (even_log C k)"
      by (simp add: curve_laws(2) [OF assms(1)])
    ultimately show ?thesis
      using e(1) even_log_even [OF assms(1,3)] unfolding PubGen_def Verify_iff [OF assms(1,2)] by auto
  qed
  moreover have "(\<exists>err. Sign C (Some b) sk k m = Inl err) \<longleftrightarrow>
      cv_challenge C (cv_field_bytes C (cv_X C (PubGen C k))) (x_only C (PubGen C sk)) (cv_sha256 C m) \<ge> cv_order C"
    unfolding Sign_eq [OF assms(1) sk] by (simp add: challenge_def Let_def PubGen_def)
  ultimately show ?thesis by blast
qed

text \<open>Two accepted signatures over the same nonce.\<close>

lemma two_signatures:
  assumes C: "curve_ok C" and d: "d mod cv_order C \<noteq> 0"
    and ver: "Verify C (cv_base_mult C d) r m1 s1 = Inr ()" "Verify C (cv_base_mult C d) r m2 s2 = Inr ()"
  obtains e1 e2 where "challenge C (cv_field_bytes C r) (x_only C (cv_base_mult C d)) (cv_sha256 C m1) = Inr e1"
    "challenge C (cv_field_bytes C r) (x_only C (cv_base_mult C d)) (cv_sha256 C m2) = Inr e2"
    "(s1 - s2) mod cv_order C = ((e1 - e2) * even_log C d) mod cv_order C"
proof -
  let ?d = "even_log C d" and ?n = "cv_order C"
  obtain e1 e2 where e: "challenge C (cv_field_bytes C r) (x_only C (cv_base_mult C d)) (cv_sha256 C m1) = Inr e1"
    "challenge C (cv_field_bytes C r) (x_only C (cv_base_mult C d)) (cv_sha256 C m2) = Inr e2"
    and R1: "(s1 - e1 * ?d) mod ?n \<noteq> 0" "\<not> cv_Y_odd C (cv_base_mult C (s1 - e1 * ?d))"
      "r = cv_X C (cv_base_mult C (s1 - e1 * ?d))"
    and R2: "(s2 - e2 * ?d) mod ?n \<noteq> 0" "\<not> cv_Y_odd C (cv_base_mult C (s2 - e2 * ?d))"
      "r = cv_X C (cv_base_mult C (s2 - e2 * ?d))"
    using ver unfolding Verify_iff [OF C d] by blast
  have "cv_base_mult C (s1 - e1 * ?d) = cv_base_mult C (s2 - e2 * ?d)"
    using even_unique [OF C R1(1,2) R2(1,2)] R1(3) R2(3) by simp
  then have "?n dvd (s1 - e1 * ?d) - (s2 - e2 * ?d)"
    by (simp add: curve_laws(2) [OF C] mod_eq_dvd_iff)
  moreover have "(s1 - e1 * ?d) - (s2 - e2 * ?d) = (s1 - s2) - (e1 - e2) * ?d" by (simp add: algebra_simps)
  ultimately have "(s1 - s2) mod ?n = ((e1 - e2) * ?d) mod ?n" by (simp add: mod_eq_dvd_iff)
  with e show ?thesis by (rule that)
qed

lemma mod_add_neg: "(a + (- b) mod n) mod n = (a - b) mod (n :: int)"
  by (simp add: mod_add_right_eq)

definition extracted :: "'p curve \<Rightarrow> 'p \<Rightarrow> int \<Rightarrow> int \<Rightarrow> int \<Rightarrow> int \<Rightarrow> int" where
  "extracted C P s1 s2 e1 e2 =
     (let x = ((s1 - s2) mod cv_order C * cv_inverse C ((e1 - e2) mod cv_order C)) mod cv_order C
      in if cv_Y_odd C P then (- x) mod cv_order C else x)"

lemma Extract_eq:
  assumes "s1 \<noteq> s2" "challenge C (cv_field_bytes C r) (x_only C P) (cv_sha256 C m1) = Inr e1"
    "challenge C (cv_field_bytes C r) (x_only C P) (cv_sha256 C m2) = Inr e2"
  shows "Extract C P r m1 s1 m2 s2 = ((Some (extracted C P s1 s2 e1 e2),
    if PubGen C (extracted C P s1 s2 e1 e2) = P then None else Some ErrKeyMismatch), (- s2) mod cv_order C)"
  using assms unfolding Extract_def extractFromHashes_def Let_def extracted_def mod_add_neg by simp

lemma extract_pair:
  assumes "curve_ok C" "0 < sk" "sk < cv_order C"
    and "Verify C (PubGen C sk) r m1 s1 = Inr ()" "Verify C (PubGen C sk) r m2 s2 = Inr ()"
    and "cv_challenge C (cv_field_bytes C r) (x_only C (PubGen C sk)) (cv_sha256 C m1) \<noteq>
      cv_challenge C (cv_field_bytes C r) (x_only C (PubGen C sk)) (cv_sha256 C m2)"
  shows "fst (Extract C (PubGen C sk) r m1 s1 m2 s2) = (Some sk, None)"
proof -
  let ?n = "cv_order C" and ?d = "even_log C sk"
  have d: "sk mod ?n \<noteq> 0" and sk: "sk mod ?n = sk" using assms(2,3) by simp_all
  obtain e1 e2 where e: "challenge C (cv_field_bytes C r) (x_only C (PubGen C sk)) (cv_sha256 C m1) = Inr e1"
    "challenge C (cv_field_bytes C r) (x_only C (PubGen C sk)) (cv_sha256 C m2) = Inr e2"
    and eq: "(s1 - s2) mod ?n = ((e1 - e2) * ?d) mod ?n"
    by (rule two_signatures [OF assms(1) d assms(4,5) [unfolded PubGen_def], folded PubGen_def])
  have "0 \<le> e1" "e1 < ?n" "0 \<le> e2" "e2 < ?n" "e1 \<noteq> e2"
    using e assms(6) curve_laws(7) [OF assms(1)] by (auto simp: challenge_def Let_def split: if_splits)
  then have "e1 mod ?n \<noteq> e2 mod ?n" by simp
  then have ne: "(e1 - e2) mod ?n \<noteq> 0" by (simp add: mod_eq_dvd_iff mod_eq_0_iff_dvd)
  define inv where "inv = cv_inverse C ((e1 - e2) mod ?n)"
  have inv: "((e1 - e2) * inv) mod ?n = 1 mod ?n"
    using assms(1) ne curve_laws(1) [OF assms(1)] unfolding curve_ok_def inv_def by simp
  have "((s1 - s2) * inv) mod ?n = ((e1 - e2) * ?d * inv) mod ?n" by (metis eq mod_mult_left_eq)
  also have "(e1 - e2) * ?d * inv = (e1 - e2) * inv * ?d" by (simp add: ac_simps)
  also have "((e1 - e2) * inv * ?d) mod ?n = (((e1 - e2) * inv) mod ?n * ?d) mod ?n" by (simp add: mod_mult_left_eq)
  also have "\<dots> = ?d mod ?n" by (simp add: inv mod_mult_left_eq)
  finally have x: "((s1 - s2) mod ?n * inv) mod ?n = ?d mod ?n" by (simp add: mod_mult_left_eq)
  have "even_log C sk mod ?n \<noteq> 0" by (rule even_log_even(2) [OF assms(1) d])
  then have "(s1 - s2) mod ?n \<noteq> 0" using x by (metis mod_0 mult_zero_left)
  then have "s1 \<noteq> s2" by auto
  moreover have "(if cv_Y_odd C (PubGen C sk) then (- (?d mod ?n)) mod ?n else ?d mod ?n) = sk"
    by (simp add: even_log_def PubGen_def mod_minus_eq sk)
  then have "extracted C (PubGen C sk) s1 s2 e1 e2 = sk"
    unfolding extracted_def Let_def x [unfolded inv_def] .
  ultimately show ?thesis using Extract_eq [OF _ e] by simp
qed

text \<open>C23. Equivocation reveals the secret key: from two signatures that \<open>Verify\<close> accepts for one public key
  and one public randomness, over messages with different challenges, \<open>Extract\<close> computes the secret key
  of that public key, without an error.\<close>

theorem extract_reveals_key:
  assumes "curve_ok C" "0 < sk" "sk < cv_order C"
    and "Verify C (PubGen C sk) r m1 s1 = Inr ()" "Verify C (PubGen C sk) r m2 s2 = Inr ()"
    and "cv_challenge C (cv_field_bytes C r) (x_only C (PubGen C sk)) (cv_sha256 C m1) \<noteq>
      cv_challenge C (cv_field_bytes C r) (x_only C (PubGen C sk)) (cv_sha256 C m2)"
  shows "fst (Extract C (PubGen C sk) r m1 s1 m2 s2) = (Some sk, None)"
  by (rule extract_pair [OF assms])

text \<open>What the second signature holds afterwards matters: with it, the same call fails.\<close>

lemma extracted_inj:
  assumes C: "curve_ok C" and d: "sk mod cv_order C \<noteq> 0" and e: "(e1 - e2) mod cv_order C \<noteq> 0"
    and eq: "PubGen C (extracted C (PubGen C sk) s1 s2 e1 e2) = PubGen C sk"
      "PubGen C (extracted C (PubGen C sk) s1 s2' e1 e2) = PubGen C sk"
  shows "s2 mod cv_order C = s2' mod cv_order C"
proof -
  let ?n = "cv_order C"
  define inv where "inv = cv_inverse C ((e1 - e2) mod ?n)"
  have inv: "((e1 - e2) * inv) mod ?n = 1 mod ?n"
    using C e curve_laws(1) [OF C] unfolding curve_ok_def inv_def by simp
  define x where "x = (\<lambda>s. ((s1 - s) mod ?n * inv) mod ?n)"
  have "(if cv_Y_odd C (PubGen C sk) then - x s2 else x s2) mod ?n = (if cv_Y_odd C (PubGen C sk) then - x s2' else x s2') mod ?n"
    using eq unfolding PubGen_def curve_laws(2) [OF C] extracted_def Let_def inv_def x_def
    by (cases "cv_Y_odd C (cv_base_mult C sk)") simp_all
  then have "x s2 mod ?n = x s2' mod ?n"
    by (cases "cv_Y_odd C (PubGen C sk)") (simp_all add: mod_eq_dvd_iff dvd_diff_commute)
  then have "((s1 - s2) * inv) mod ?n = ((s1 - s2') * inv) mod ?n" by (simp add: x_def mod_mult_left_eq)
  then have "((s1 - s2) * inv * (e1 - e2)) mod ?n = ((s1 - s2') * inv * (e1 - e2)) mod ?n" by (metis mod_mult_left_eq)
  moreover have "(s * inv * (e1 - e2)) mod ?n = s mod ?n" for s
  proof -
    have "(s * inv * (e1 - e2)) mod ?n = (s * (((e1 - e2) * inv) mod ?n)) mod ?n" by (simp add: mod_mult_right_eq ac_simps)
    then show ?thesis by (simp add: inv mod_mult_right_eq)
  qed
  ultimately have "?n dvd (s1 - s2) - (s1 - s2')" by (simp add: mod_eq_dvd_iff)
  then show ?thesis by (simp add: mod_eq_dvd_iff dvd_diff_commute)
qed

text \<open>C38. \<open>Extract\<close> negates the second signature in the caller's variable. A second call with the same
  variables therefore reports an error, although both signatures were valid and the first call
  succeeded (unless twice the signature is zero modulo the group order).\<close>

theorem extract_twice_fails:
  assumes "curve_ok C" "sk mod cv_order C \<noteq> 0"
    and first: "Extract C (PubGen C sk) r m1 s1 m2 s2 = ((Some x, None), s2')"
    and "cv_challenge C (cv_field_bytes C r) (x_only C (PubGen C sk)) (cv_sha256 C m1) \<noteq>
      cv_challenge C (cv_field_bytes C r) (x_only C (PubGen C sk)) (cv_sha256 C m2)"
    and "(2 * s2) mod cv_order C \<noteq> 0"
  shows "snd (fst (Extract C (PubGen C sk) r m1 s1 m2 s2')) \<noteq> None"
proof (cases "s1 = s2'")
  case True
  then show ?thesis by (simp add: Extract_def extractFromHashes_def Let_def)
next
  case False
  let ?n = "cv_order C"
  obtain e1 e2 where e: "challenge C (cv_field_bytes C r) (x_only C (PubGen C sk)) (cv_sha256 C m1) = Inr e1"
    "challenge C (cv_field_bytes C r) (x_only C (PubGen C sk)) (cv_sha256 C m2) = Inr e2" and s: "s1 \<noteq> s2"
    using first by (auto simp: Extract_def extractFromHashes_def Let_def split: sum.splits if_splits)
  have "0 \<le> e1" "e1 < ?n" "0 \<le> e2" "e2 < ?n" "e1 \<noteq> e2"
    using e assms(4) curve_laws(7) [OF assms(1)] by (auto simp: challenge_def Let_def split: if_splits)
  then have "e1 mod ?n \<noteq> e2 mod ?n" by simp
  then have ne: "(e1 - e2) mod ?n \<noteq> 0" by (simp add: mod_eq_dvd_iff mod_eq_0_iff_dvd)
  have one: "PubGen C (extracted C (PubGen C sk) s1 s2 e1 e2) = PubGen C sk" "s2' = (- s2) mod ?n"
    using first unfolding Extract_eq [OF s e] by (auto split: if_splits)
  have "s2 mod ?n \<noteq> s2' mod ?n" using assms(5) by (simp add: one(2) mod_eq_dvd_iff mod_eq_0_iff_dvd)
  then have "PubGen C (extracted C (PubGen C sk) s1 s2' e1 e2) \<noteq> PubGen C sk"
    using extracted_inj [OF assms(1,2) ne one(1)] by blast
  then show ?thesis unfolding Extract_eq [OF False e] by simp
qed

subsection \<open>A small curve\<close>

text \<open>The integers modulo 7: the multiples of a base point, with \<open>a\<close> and \<open>7 - a\<close> opposite.\<close>

definition small_curve :: "int curve" where
  "small_curve = \<lparr>cv_order = 7, cv_base_mult = (\<lambda>k. k mod 7), cv_mult = (\<lambda>k P. (k * P) mod 7),
     cv_add = (\<lambda>P Q. (P + Q) mod 7), cv_is_infinity = (\<lambda>P. P = 0), cv_on_curve = (\<lambda>P. True),
     cv_X = (\<lambda>P. min P (7 - P)), cv_Y_odd = (\<lambda>P. P > 3),
     cv_lift_x = (\<lambda>bs. if bs = replicate 32 (CHR 0xAA) then Some 1 else if bs = replicate 32 (CHR 0xAB) then Some 2
                       else if bs = replicate 32 (CHR 0xAC) then Some 3 else None),
     cv_field_bytes = (\<lambda>v. replicate 32 (if v = 1 then CHR 0xAA else if v = 2 then CHR 0xAB else CHR 0xAC)),
     cv_field = (\<lambda>bs. of_char (hd bs) mod 7), cv_scalar = (\<lambda>bs. of_char (hd bs) mod 7),
     cv_inverse = (\<lambda>a. a ^ 5 mod 7), cv_challenge = (\<lambda>r p h. (105 - of_char (last h)) mod 7), cv_sha256 = (\<lambda>m. m)\<rparr>"

lemma mod7: "a mod 7 = 0 \<or> a mod 7 = 1 \<or> a mod 7 = 2 \<or> a mod 7 = 3 \<or> a mod 7 = 4 \<or> a mod 7 = 5 \<or> a mod 7 = (6 :: int)"
  by presburger

lemma small_neg: "(- a) mod 7 = (if a mod 7 = 0 then 0 else 7 - a mod (7 :: int))"
  by (rule zmod_zminus1_eq_if)

lemma small_X:
  fixes a b :: int
  assumes "min (a mod 7) (7 - a mod 7) = min (b mod 7) (7 - b mod 7)"
  shows "a mod 7 = b mod 7 \<or> a mod 7 = (- b) mod 7"
proof -
  have "p = q \<or> p = (if q = 0 then 0 else 7 - q)"
    if "min p (7 - p) = min q (7 - q)" "0 \<le> p" "p < 7" "0 \<le> q" "q < 7" for p q :: int
    using that by (simp add: min_def split: if_splits)
  from this [OF assms] show ?thesis unfolding small_neg by simp
qed

lemma small_inverse: "a mod 7 \<noteq> 0 \<Longrightarrow> (a * ((a mod 7) ^ 5 mod 7)) mod 7 = (1 :: int)"
proof -
  assume a: "a mod 7 \<noteq> 0"
  have r: "(r * (r ^ 5 mod 7)) mod 7 = 1" if "r \<in> {1, 2, 3, 4, 5, 6 :: int}" for r using that by auto
  have "(a * ((a mod 7) ^ 5 mod 7)) mod 7 = (a mod 7 * ((a mod 7) ^ 5 mod 7)) mod 7" by (simp only: mod_mult_left_eq)
  also have "\<dots> = 1" by (rule r) (use a mod7 [of a] in blast)
  finally show ?thesis .
qed

lemma small_bytes:
  "replicate 32 (CHR 0xAA) \<noteq> replicate 32 (CHR 0xAB)" "replicate 32 (CHR 0xAA) \<noteq> replicate 32 (CHR 0xAC)"
  "replicate 32 (CHR 0xAB) \<noteq> replicate 32 (CHR 0xAC)"
  by (simp_all add: replicate_eq_replicate)

lemma small_min: "a mod 7 \<noteq> 0 \<Longrightarrow> min (a mod 7) (7 - a mod 7) \<in> {1, 2, 3 :: int}"
proof -
  assume a: "a mod 7 \<noteq> 0"
  have r: "min r (7 - r) \<in> {1, 2, 3}" if "r \<in> {1, 2, 3, 4, 5, 6 :: int}" for r using that by auto
  show ?thesis by (rule r) (use a mod7 [of a] in blast)
qed

lemma small_lift:
  assumes "(if bs = replicate 32 (CHR 0xAA) then Some 1 else if bs = replicate 32 (CHR 0xAB) then Some 2
     else if bs = replicate 32 (CHR 0xAC) then Some 3 else None) = Some (P :: int)"
  shows "replicate 32 (if min P (7 - P) = 1 then CHR 0xAA else if min P (7 - P) = 2 then CHR 0xAB else CHR 0xAC) = bs"
    "P \<in> {1, 2, 3}"
  using assms by (simp_all split: if_splits)

lemma small_field:
  assumes "u \<in> {1, 2, 3 :: int}" "v \<in> {1, 2, 3}"
    "replicate 32 (if u = 1 then CHR 0xAA else if u = 2 then CHR 0xAB else CHR 0xAC) =
      replicate 32 (if v = 1 then CHR 0xAA else if v = 2 then CHR 0xAB else CHR 0xAC)"
  shows "u = v"
  using assms by (auto simp: replicate_eq_replicate)

lemma small_curve_ok: "curve_ok small_curve"
proof -
  have X: "min ((- a) mod 7) (7 - (- a) mod 7) = min (a mod 7) (7 - a mod (7 :: int))" for a
    unfolding small_neg by (simp add: min.commute)
  have odd: "(3 < (- a) mod 7) \<noteq> (3 < a mod (7 :: int))" if "a mod 7 \<noteq> 0" for a
  proof -
    have "(3 < 7 - r) \<noteq> (3 < r)" for r :: int by arith
    with that show ?thesis unfolding small_neg by simp
  qed
  show ?thesis
    unfolding curve_ok_def x_only_def small_curve_def curve.simps
    apply (intro conjI)
    subgoal by simp
    subgoal by simp
    subgoal by (simp add: mod_add_eq)
    subgoal by (simp add: mod_mult_right_eq)
    subgoal by simp
    subgoal by (simp only: X) simp
    subgoal using small_X by blast
    subgoal using odd by blast
    subgoal
    proof (intro allI impI)
      fix bs and P :: int
      assume lift: "(if bs = replicate 32 (CHR 0xAA) then Some 1 else if bs = replicate 32 (CHR 0xAB) then Some 2
        else if bs = replicate 32 (CHR 0xAC) then Some 3 else None) = Some P"
      have "P mod 7 \<noteq> 0 \<and> P = P mod 7" "\<not> 3 < P" using small_lift(2) [OF lift] by auto
      then show "replicate 32 (if min P (7 - P) = 1 then CHR 0xAA else if min P (7 - P) = 2 then CHR 0xAB else CHR 0xAC) = bs \<and>
          \<not> 3 < P \<and> True \<and> (\<exists>a. a mod 7 \<noteq> 0 \<and> P = a mod 7)"
        using small_lift(1) [OF lift] by blast
    qed
    subgoal
    proof (intro allI impI)
      fix a :: int assume "a mod 7 \<noteq> 0"
      then have "min (a mod 7) (7 - a mod 7) \<in> {1, 2, 3}" by (rule small_min)
      then show "(if replicate 32 (if min (a mod 7) (7 - a mod 7) = 1 then CHR 0xAA else if min (a mod 7) (7 - a mod 7) = 2
          then CHR 0xAB else CHR 0xAC) = replicate 32 (CHR 0xAA) then Some 1 else if replicate 32 (if min (a mod 7) (7 - a mod 7) = 1
          then CHR 0xAA else if min (a mod 7) (7 - a mod 7) = 2 then CHR 0xAB else CHR 0xAC) = replicate 32 (CHR 0xAB)
          then Some 2 else if replicate 32 (if min (a mod 7) (7 - a mod 7) = 1 then CHR 0xAA else if min (a mod 7) (7 - a mod 7) = 2
          then CHR 0xAB else CHR 0xAC) = replicate 32 (CHR 0xAC) then Some 3 else None) \<noteq> None"
        by (elim insertE emptyE) simp_all
    qed
    subgoal using small_field small_min by blast
    subgoal using small_inverse by blast
    subgoal by simp
    done
qed

lemma small_key: "1 mod cv_order small_curve \<noteq> 0" "2 mod cv_order small_curve \<noteq> 0" "0 < (1 :: int)"
  "1 < cv_order small_curve"
  by (simp_all add: small_curve_def)

theorem sign_verify_witness:
  "Sign small_curve (Some 4) 1 2 ''h'' = Inr 3 \<and>
    Verify small_curve (PubGen small_curve 1) (cv_X small_curve (PubGen small_curve 2)) ''h'' 3 = Inr ()"
proof -
  have "Sign small_curve (Some 4) 1 2 ''h'' = Inr 3" by code_simp
  with sign_verify [OF small_curve_ok small_key(1,2), of 4 "''h''"] show ?thesis by blast
qed

theorem extract_reveals_key_witness:
  "fst (Extract small_curve (PubGen small_curve 1) 2 ''h'' 3 ''f'' 5) = (Some 1, None)"
proof -
  have "Verify small_curve (PubGen small_curve 1) 2 ''h'' 3 = Inr ()" "Verify small_curve (PubGen small_curve 1) 2 ''f'' 5 = Inr ()"
    "cv_challenge small_curve (cv_field_bytes small_curve 2) (x_only small_curve (PubGen small_curve 1)) (cv_sha256 small_curve ''h'') \<noteq>
      cv_challenge small_curve (cv_field_bytes small_curve 2) (x_only small_curve (PubGen small_curve 1)) (cv_sha256 small_curve ''f'')"
    by code_simp+
  then show ?thesis by (rule extract_reveals_key [OF small_curve_ok small_key(3,4)])
qed

theorem extract_twice_fails_witness:
  "Extract small_curve (PubGen small_curve 1) 2 ''h'' 3 ''f'' 5 = ((Some 1, None), 2) \<and>
    snd (fst (Extract small_curve (PubGen small_curve 1) 2 ''h'' 3 ''f'' 2)) \<noteq> None"
proof -
  have run: "Extract small_curve (PubGen small_curve 1) 2 ''h'' 3 ''f'' 5 = ((Some 1, None), 2)"
    "cv_challenge small_curve (cv_field_bytes small_curve 2) (x_only small_curve (PubGen small_curve 1)) (cv_sha256 small_curve ''h'') \<noteq>
      cv_challenge small_curve (cv_field_bytes small_curve 2) (x_only small_curve (PubGen small_curve 1)) (cv_sha256 small_curve ''f'')"
    "(2 * 5) mod cv_order small_curve \<noteq> 0"
    by code_simp+
  from extract_twice_fails [OF small_curve_ok small_key(1) run] run(1) show ?thesis by blast
qed

end
