(* ===== verification/Key_Extraction.thy ===== *)
theory Key_Extraction
  imports Chain EOTS
begin

text \<open>
  The secret key of a finality provider that equivocates (\<open>Evidence.ExtractBTCSK\<close> in
  \<open>x/finality/types/finality.go\<close>). The chain verifies votes with the signatures of \<open>EOTS\<close>; the invariant of this
  theory is that every stored vote and every stored evidence verifies under the public randomness that
  the provider committed for the height. With it, the evidence of an equivocation yields the key.
\<close>

subsection \<open>Keys, randomness and signatures as bytes\<close>

text \<open>A public key is kept as the hexadecimal string of its bytes.\<close>

definition hex_val :: "char \<Rightarrow> nat" where
  "hex_val c = (let n = of_char c in if n < 58 then n - 48 else n - 87)"

fun unhex :: "string \<Rightarrow> bytes" where
  "unhex (a # b # s) = char_of (16 * hex_val a + hex_val b) # unhex s"
| "unhex _ = []"

definition ToBTCPK :: "'p curve \<Rightarrow> btcpk \<Rightarrow> 'p option" where
  "ToBTCPK C pk = cv_lift_x C (unhex pk)"

definition ToFieldValNormalized :: "'p curve \<Rightarrow> bytes \<Rightarrow> int" where
  "ToFieldValNormalized C pr = cv_field C pr"

definition ToModNScalar :: "'p curve \<Rightarrow> bytes \<Rightarrow> int" where
  "ToModNScalar C sig = cv_scalar C sig"

definition canonicalMsgToSign :: "Evidence \<Rightarrow> bytes" where
  "canonicalMsgToSign e = msgToSignForVote (ev_BlockHeight e) (ev_CanonicalAppHash e)"

definition forkMsgToSign :: "Evidence \<Rightarrow> bytes" where
  "forkMsgToSign e = msgToSignForVote (ev_BlockHeight e) (ev_ForkAppHash e)"

text \<open>The private key and the error; \<open>None\<close> as error is success. Both signatures are fresh scalars, so that
  what \<open>Extract\<close> does to the second one is not seen.\<close>

definition ExtractBTCSK :: "ext \<Rightarrow> 'p curve \<Rightarrow> Evidence \<Rightarrow> (int option \<times> eots_error option) result" where
  "ExtractBTCSK x C e =
     guardR (\<not> IsSlashable x e) (Errorf ''the evidence lacks some fields so does not allow extracting BTC SK'')
    (case (ev_FpBtcPk e, ev_PubRand e, ev_CanonicalFinalitySig e, ev_ForkFinalitySig e) of
       (Some pk, Some pr, Some sig, Some forkSig) \<Rightarrow>
         bindR (option_to_result (Lib ''ParsePubKey'') (ToBTCPK C pk)) (\<lambda>btcPK.
         Inr (fst (Extract C btcPK (ToFieldValNormalized C pr) (canonicalMsgToSign e) (ToModNScalar C sig)
           (forkMsgToSign e) (ToModNScalar C forkSig))))
     | _ \<Rightarrow> Inl (Panic ''nil field''))"

text \<open>The library functions of the chain with its signature checks those of \<open>crypto/eots\<close>.\<close>

definition with_eots :: "'p curve \<Rightarrow> ext \<Rightarrow> ext" where
  "with_eots C x = x\<lparr>ext_pubkey_ok := (\<lambda>pk. ToBTCPK C pk \<noteq> None),
     ext_eots_verify := (\<lambda>pk pr msg sig. case ToBTCPK C pk of
        None \<Rightarrow> False
      | Some P \<Rightarrow> Verify C P (ToFieldValNormalized C pr) msg (ToModNScalar C sig) = Inr ())\<rparr>"

subsection \<open>Committed randomness\<close>

text \<open>A Merkle proof of a leaf at a position of a root: no other leaf has one there.\<close>

definition merkle_binding :: "ext \<Rightarrow> bool" where
  "merkle_binding x \<longleftrightarrow> (\<forall>pf pf' root leaf leaf'. pf_Index pf = pf_Index pf' \<and> pf_Total pf = pf_Total pf' \<and>
     ext_merkle_verify x pf root leaf \<and> ext_merkle_verify x pf' root leaf' \<longrightarrow> leaf = leaf')"

definition rand_of :: "ext \<Rightarrow> fin_state \<Rightarrow> btcpk \<Rightarrow> u64 \<Rightarrow> bytes \<Rightarrow> bool" where
  "rand_of x f pk h pr \<longleftrightarrow> (\<exists>pc pf. GetPubRandCommitForHeight f pk h = Inr pc \<and> h = prc_StartHeight pc + pf_Index pf \<and>
     pf_Total pf = prc_NumPubRand pc \<and> ext_merkle_verify x pf (prc_Commitment pc) pr)"

lemma rand_unique: "merkle_binding x \<Longrightarrow> rand_of x f pk h pr \<Longrightarrow> rand_of x f pk h pr' \<Longrightarrow> pr = pr'"
proof -
  assume bind: "merkle_binding x" and "rand_of x f pk h pr" "rand_of x f pk h pr'"
  then obtain pc pf pc' pf' where p: "GetPubRandCommitForHeight f pk h = Inr pc" "h = prc_StartHeight pc + pf_Index pf"
      "pf_Total pf = prc_NumPubRand pc" "ext_merkle_verify x pf (prc_Commitment pc) pr"
    and p': "GetPubRandCommitForHeight f pk h = Inr pc'" "h = prc_StartHeight pc' + pf_Index pf'"
      "pf_Total pf' = prc_NumPubRand pc'" "ext_merkle_verify x pf' (prc_Commitment pc') pr'"
    unfolding rand_of_def by blast
  have "pc' = pc" using p(1) p'(1) by simp
  then have "pf_Index pf = pf_Index pf'" "pf_Total pf = pf_Total pf'" using p(2,3) p'(2,3) by simp_all
  then show "pr = pr'" using bind p(4) p'(4) \<open>pc' = pc\<close> unfolding merkle_binding_def by blast
qed

lemma rand_kept: "rand_of x f pk h pr \<Longrightarrow> keeps_rand f f' \<Longrightarrow> pub_rand_inv f \<Longrightarrow> rand_of x f' pk h pr"
  unfolding rand_of_def keeps_rand_def by blast

subsection \<open>The invariant\<close>

definition hash_at :: "fin_state \<Rightarrow> u64 \<Rightarrow> bytes option" where
  "hash_at f h = map_option ib_AppHash (fs_blocks f h)"

definition vote_signed :: "ext \<Rightarrow> fin_state \<Rightarrow> u64 \<Rightarrow> btcpk \<Rightarrow> bytes \<Rightarrow> bool" where
  "vote_signed x f h pk s \<longleftrightarrow> (\<exists>pr hash. hash_at f h = Some hash \<and> rand_of x f pk h pr \<and>
     ext_eots_verify x pk pr (msgToSignForVote h hash) s)"

definition evidence_signed :: "ext \<Rightarrow> fin_state \<Rightarrow> btcpk \<Rightarrow> u64 \<Rightarrow> Evidence \<Rightarrow> bool" where
  "evidence_signed x f pk h e \<longleftrightarrow> (\<exists>pr sig. ev_PubRand e = Some pr \<and> rand_of x f pk h pr \<and>
     hash_at f h = Some (ev_CanonicalAppHash e) \<and> ev_ForkAppHash e \<noteq> ev_CanonicalAppHash e \<and>
     ev_ForkFinalitySig e = Some sig \<and> ext_eots_verify x pk pr (msgToSignForVote h (ev_ForkAppHash e)) sig \<and>
     (\<forall>s. ev_CanonicalFinalitySig e = Some s \<longrightarrow> kv_get (fs_votes f) (h, pk) = Some s))"

definition signed_inv :: "ext \<Rightarrow> 'h world \<Rightarrow> bool" where
  "signed_inv x w \<longleftrightarrow> pub_rand_inv (w_fin w) \<and>
     (\<forall>h pk s. kv_get (fs_votes (w_fin w)) (h, pk) = Some s \<longrightarrow> vote_signed x (w_fin w) h pk s) \<and>
     (\<forall>pk h e. kv_get (fs_evidence (w_fin w)) (pk, h) = Some e \<longrightarrow> evidence_signed x (w_fin w) pk h e)"

lemma signed_invD:
  assumes "signed_inv x w"
  shows "pub_rand_inv (w_fin w)"
    "kv_get (fs_votes (w_fin w)) (h, pk) = Some s \<Longrightarrow> vote_signed x (w_fin w) h pk s"
    "kv_get (fs_evidence (w_fin w)) (pk, h) = Some e \<Longrightarrow> evidence_signed x (w_fin w) pk h e"
  using assms unfolding signed_inv_def by blast+

lemma signed_kept:
  assumes inv: "signed_inv x w" and same: "fs_votes (w_fin w') = fs_votes (w_fin w)"
    "fs_evidence (w_fin w') = fs_evidence (w_fin w)" "keeps_rand (w_fin w) (w_fin w')"
    and hash: "\<And>h b. hash_at (w_fin w) h = Some b \<Longrightarrow> hash_at (w_fin w') h = Some b"
  shows "signed_inv x w'"
proof -
  have p: "pub_rand_inv (w_fin w)" using inv by (simp add: signed_inv_def)
  note r = rand_kept [OF _ same(3) p]
  have "pub_rand_inv (w_fin w')" using same(3) p by (simp add: keeps_rand_def)
  moreover have "vote_signed x (w_fin w') h pk s" if "vote_signed x (w_fin w) h pk s" for h pk s
    using that hash r unfolding vote_signed_def by blast
  moreover have "evidence_signed x (w_fin w') pk h e" if "evidence_signed x (w_fin w) pk h e" for h pk e
    using that hash r unfolding evidence_signed_def same by blast
  ultimately show ?thesis using inv unfolding signed_inv_def same by blast
qed

lemma signed_moves: "signed_inv x w \<Longrightarrow> moves H w w' \<Longrightarrow> signed_inv x w'"
  by (rule signed_kept [of x w w']) (auto simp: moves_def hash_at_def)

text \<open>The randomness of an accepted vote is the committed one.\<close>

lemma try_result_Inr: "try_result r k = Inr v \<Longrightarrow> \<exists>a. k a = Inr v"
  by (auto simp: try_result_def split: sum.splits error.splits)

lemma vote_rand:
  assumes "AddFinalitySig x en c req w = Inr w'" "vote_checked x c req pk pr sig ib w"
  shows "rand_of x (w_fin w) pk (mafs_BlockHeight req) pr"
proof -
  let ?h = "mafs_BlockHeight req"
  have req: "mafs_FpBtcPk req = Some pk" "mafs_PubRand req = Some pr" "mafs_FinalitySig req = Some sig"
    using assms(2) by (simp_all add: vote_checked_def)
  obtain pc where pc: "GetTimestampedPubRandCommitForHeight c (w_fin w) pk ?h = Inr pc" "VerifyFinalitySig x req pc = Inr ()"
    using assms(1) unfolding AddFinalitySig_def
    by (auto simp: bindR_eq_Inr guardR_eq_Inr req Let_def dest!: try_result_Inr split: option.splits)
  have "GetPubRandCommitForHeight (w_fin w) pk ?h = Inr pc"
    using pc(1) by (auto simp: GetTimestampedPubRandCommitForHeight_def bindR_eq_Inr guardR_eq_Inr Let_def)
  moreover obtain pf where "?h = prc_StartHeight pc + pf_Index pf" "pf_Total pf = prc_NumPubRand pc"
    "ext_merkle_verify x pf (prc_Commitment pc) pr"
    using pc(2) by (auto simp: VerifyFinalitySig_def req guardR_eq_Inr Let_def split: option.splits)
  ultimately show ?thesis unfolding rand_of_def by blast
qed

lemma signed_vote:
  assumes inv: "signed_inv x w" "voting_inv x c w" and c: "0 < cx_height c"
    and run: "AddFinalitySig x en c req w = Inr w'"
  shows "signed_inv x w'"
proof -
  obtain pk pr sig ib where chk: "vote_checked x c req pk pr sig ib w" and eff: "vote_effect req pk pr sig ib w w'"
    using AddFinalitySig_effect [OF inv(2) c run] by blast
  let ?h = "mafs_BlockHeight req" and ?f = "w_fin w" and ?f' = "w_fin w'"
  have rand: "rand_of x ?f pk ?h pr" by (rule vote_rand [OF run chk])
  have ver: "ext_eots_verify x pk pr (msgToSignForVote ?h (mafs_BlockAppHash req)) sig" "\<not> slashed w pk"
    "hash_at ?f ?h = Some (ib_AppHash ib)" "mafs_PubRand req = Some pr" "mafs_FinalitySig req = Some sig"
    using chk by (simp_all add: vote_checked_def MsgToSign_def hash_at_def)
  have fields: "fs_blocks ?f' = fs_blocks ?f" "fs_pub_rand_commit ?f' = fs_pub_rand_commit ?f"
    "fs_pub_rand_commit_index ?f' = fs_pub_rand_commit_index ?f"
    and votes: "fs_votes ?f' = (if ib_AppHash ib \<noteq> mafs_BlockAppHash req then fs_votes ?f else kv_set (?h, pk) sig (fs_votes ?f))"
    and evid: "fs_evidence ?f' = (if ib_AppHash ib \<noteq> mafs_BlockAppHash req
      then kv_set (pk, ?h) (fork_evidence req ib (kv_get (fs_votes ?f) (?h, pk))) (fs_evidence ?f)
      else case kv_get (fs_evidence ?f) (pk, ?h) of None \<Rightarrow> fs_evidence ?f
        | Some e \<Rightarrow> kv_set (pk, ?h) (e\<lparr>ev_CanonicalFinalitySig := Some sig\<rparr>) (fs_evidence ?f))"
    using eff by (simp_all add: vote_effect_def Let_def)
  have lookup: "GetPubRandCommitForHeight ?f' q h = GetPubRandCommitForHeight ?f q h" for q h
    by (simp only: GetPubRandCommitForHeight_def fields)
  have same: "hash_at ?f' = hash_at ?f" "rand_of x ?f' = rand_of x ?f" "pub_rand_inv ?f' = pub_rand_inv ?f"
  proof -
    show "hash_at ?f' = hash_at ?f" by (intro ext) (simp only: hash_at_def fields)
    show "rand_of x ?f' = rand_of x ?f" by (intro ext) (simp only: rand_of_def lookup)
    show "pub_rand_inv ?f' = pub_rand_inv ?f" by (simp only: pub_rand_inv_def pub_rand_inv_at_def commits_of_def fields)
  qed
  show ?thesis
    unfolding signed_inv_def
  proof (intro conjI allI impI)
    show "pub_rand_inv ?f'" using signed_invD(1) [OF inv(1)] same(3) by (simp only:)
  next
    fix h q s assume s: "kv_get (fs_votes ?f') (h, q) = Some s"
    have "kv_get (fs_votes ?f) (h, q) = Some s \<or> h = ?h \<and> q = pk \<and> s = sig \<and> ib_AppHash ib = mafs_BlockAppHash req"
    proof (cases "ib_AppHash ib = mafs_BlockAppHash req \<and> (h, q) = (?h, pk)")
      case False
      then have "kv_get (fs_votes ?f') (h, q) = kv_get (fs_votes ?f) (h, q)" unfolding votes by auto
      then show ?thesis using s by simp
    next
      case True
      then have "fs_votes ?f' = kv_set (?h, pk) sig (fs_votes ?f)" unfolding votes by simp
      then show ?thesis using s True by simp
    qed
    then consider "kv_get (fs_votes ?f) (h, q) = Some s" | "h = ?h" "q = pk" "s = sig" "ib_AppHash ib = mafs_BlockAppHash req"
      by blast
    then show "vote_signed x ?f' h q s"
    proof cases
      case 1
      then have "vote_signed x ?f h q s" by (rule signed_invD(2) [OF inv(1)])
      then show ?thesis by (simp only: vote_signed_def same)
    next
      case 2
      then show ?thesis unfolding vote_signed_def same
        using ver(1,3) rand by (intro exI [of _ pr] exI [of _ "ib_AppHash ib"]) simp
    qed
  next
    fix q h e assume e: "kv_get (fs_evidence ?f') (q, h) = Some e"
    show "evidence_signed x ?f' q h e"
    proof (cases "q = pk \<and> h = ?h")
      case False
      then have old: "kv_get (fs_evidence ?f) (q, h) = Some e" "kv_get (fs_votes ?f') (h, q) = kv_get (fs_votes ?f) (h, q)"
        using e by (auto simp: votes evid split: if_splits option.splits)
      then have "evidence_signed x ?f q h e" using signed_invD(3) [OF inv(1)] by (simp only:)
      then show ?thesis by (simp only: evidence_signed_def same old(2))
    next
      case True
      show ?thesis
      proof (cases "ib_AppHash ib = mafs_BlockAppHash req")
        case fork: False
        then have "e = fork_evidence req ib (kv_get (fs_votes ?f) (?h, pk))" "fs_votes ?f' = fs_votes ?f"
          using e True by (simp_all add: votes evid)
        then show ?thesis using True fork ver rand unfolding evidence_signed_def same
          by (intro exI [of _ pr] exI [of _ sig]) (simp add: fork_evidence_def)
      next
        case canonical: True
        obtain e0 where e0: "kv_get (fs_evidence ?f) (pk, ?h) = Some e0" "e = e0\<lparr>ev_CanonicalFinalitySig := Some sig\<rparr>"
          and v: "kv_get (fs_votes ?f') (?h, pk) = Some sig"
          using e True canonical by (auto simp: votes evid split: option.splits)
        have "evidence_signed x ?f pk ?h e0" by (rule signed_invD(3) [OF inv(1) e0(1)])
        then show ?thesis using True v unfolding evidence_signed_def same e0(2) by simp blast
      qed
    qed
  qed
qed

lemma signed_tally:
  assumes "signed_inv x w" "chain_inv x (c, w)" "TallyBlocks c n (w_fin w) = Inr f"
  shows "signed_inv x (w\<lparr>w_fin := f\<rparr>)"
proof -
  let ?f1 = "if \<not> HasBlock (w_fin w) (cx_height c) then IndexBlock c (w_fin w) else w_fin w"
  have t: "tallied ?f1 f" using TallyBlocks_tallied [OF assms(2,3)] by blast
  note f = tallied_fields [OF t]
  have f1: "fs_votes ?f1 = fs_votes (w_fin w)" "fs_evidence ?f1 = fs_evidence (w_fin w)"
    "fs_pub_rand_commit ?f1 = fs_pub_rand_commit (w_fin w)" "fs_pub_rand_commit_index ?f1 = fs_pub_rand_commit_index (w_fin w)"
    by (simp_all add: IndexBlock_def SetBlock_def)
  have f1_hash: "hash_at ?f1 h = Some b" if "hash_at (w_fin w) h = Some b" for h b
    using that by (auto simp: hash_at_def IndexBlock_def SetBlock_def HasBlock_def)
  show ?thesis
  proof (rule signed_kept [OF assms(1)])
    show "fs_votes (w_fin (w\<lparr>w_fin := f\<rparr>)) = fs_votes (w_fin w)"
      using f(1) f1(1) by simp
    show "fs_evidence (w_fin (w\<lparr>w_fin := f\<rparr>)) = fs_evidence (w_fin w)"
      using f(2) f1(2) by simp
    show "keeps_rand (w_fin w) (w_fin (w\<lparr>w_fin := f\<rparr>))"
      using f(5,6) f1(3,4) by (intro keeps_rand_same) simp_all
    fix h b assume "hash_at (w_fin w) h = Some b"
    then have "hash_at ?f1 h = Some b" by (rule f1_hash)
    moreover have "hash_at f h = hash_at ?f1 h" unfolding hash_at_def by (rule tallied_hash [OF t])
    ultimately show "hash_at (w_fin (w\<lparr>w_fin := f\<rparr>)) h = Some b" by simp
  qed
qed

lemma signed_end_block:
  assumes "signed_inv x w" "chain_inv x (c, w)" "EndBlocker x en c w = Inr w'"
  shows "signed_inv x w'"
proof (cases "IsFinalityActive c (w_fin w)")
  case True
  obtain f where f: "TallyBlocks c MaxFinalizedRewardedBlocksPerEndBlock (w_fin w) = Inr f" "moves {} (w\<lparr>w_fin := f\<rparr>) w'"
    by (rule EndBlocker_parts [OF assms(3) True])
  from signed_tally [OF assms(1,2) f(1)] f(2) show ?thesis by (rule signed_moves)
next
  case False
  then have "w' = w" using assms(3) by (simp add: EndBlocker_def)
  with assms(1) show ?thesis by simp
qed

lemma signed_step:
  assumes "chain_step x en s s'" "signed_inv x (snd s)" "chain_inv x s"
  shows "signed_inv x (snd s')"
  using assms
proof (induction rule: chain_step.induct)
  case (next_block c' c w w')
  from signed_moves [OF next_block.prems(1) [unfolded snd_conv] begin_moves [OF next_block(5)]] show ?case by simp
next
  case (vote c req w w')
  have "voting_inv x c w" using vote.prems(2) by (simp add: chain_inv_def)
  from signed_vote [OF vote.prems(1) [unfolded snd_conv] this vote(2,1)] show ?case by simp
next
  case (resume authority c req w w')
  from signed_moves [OF resume.prems(1) [unfolded snd_conv] resume_moves [OF resume(1)]] show ?case by simp
next
  case (end_block c w w' kDepth)
  from signed_end_block [OF end_block.prems(1) [unfolded snd_conv] end_block.prems(2) end_block(1)] show ?case by simp
qed (unfold snd_conv, (assumption | blast intro: signed_moves quiet_moves)+)

lemma signed_reachable:
  assumes "reachable x en s0 s" "chain_inv x s0" "signed_inv x (snd s0)"
  shows "signed_inv x (snd s)"
  using assms
proof (induction rule: reachable.induct)
  case (step s s')
  then show ?case using signed_step reachable_inv by blast
qed

subsection \<open>The key of an equivocator\<close>

lemma with_eots_verify:
  "ext_eots_verify (with_eots C x) pk pr msg sig \<longleftrightarrow>
    (\<exists>P. ToBTCPK C pk = Some P \<and> Verify C P (ToFieldValNormalized C pr) msg (ToModNScalar C sig) = Inr ())"
  by (auto simp: with_eots_def split: option.splits)

lemma parsed_key:
  assumes "curve_ok C" "ToBTCPK C pk = Some P"
  obtains sk where "0 < sk" "sk < cv_order C" "P = PubGen C sk"
proof -
  obtain a where a: "a mod cv_order C \<noteq> 0" "P = cv_base_mult C a"
    by (rule lift_law [OF assms(1) assms(2) [unfolded ToBTCPK_def]])
  have n: "1 < cv_order C" by (rule curve_laws(1) [OF assms(1)])
  then have "0 \<le> a mod cv_order C" "a mod cv_order C < cv_order C" by simp_all
  then have "0 < a mod cv_order C" "a mod cv_order C < cv_order C" using a(1) by simp_all
  moreover have "P = PubGen C (a mod cv_order C)" using a(2) by (simp add: PubGen_def base_mod [OF assms(1)])
  ultimately show ?thesis by (rule that)
qed

definition challenge_of :: "'p curve \<Rightarrow> Evidence \<Rightarrow> bytes \<Rightarrow> int option" where
  "challenge_of C e msg = (case (ev_FpBtcPk e, ev_PubRand e) of
       (Some pk, Some pr) \<Rightarrow> map_option (\<lambda>P.
          cv_challenge C (cv_field_bytes C (ToFieldValNormalized C pr)) (x_only C P) (cv_sha256 C msg)) (ToBTCPK C pk)
     | _ \<Rightarrow> None)"

text \<open>C2. Whoever equivocates loses their key. In every state that a chain reaches, when a provider has a vote
  for the indexed block of a height and there is a vote for a fork of it, the stored evidence yields the
  secret key of the provider: \<open>ExtractBTCSK\<close> succeeds with the key whose public key is that of the
  provider. Assumed are the laws of the curve, that Merkle proofs bind, and that the hash function has
  no collision on the two messages of the evidence.\<close>

theorem equivocation_reveals_key:
  assumes "curve_ok C" "merkle_binding x"
    and start: "chain_start s0" "pub_rand_inv (w_fin (snd s0))" and reach: "reachable (with_eots C x) en s0 (c, w)"
    and votes: "HasSig (w_fin w) h pk" "HasEvidence (w_fin w) pk h"
    and hash: "\<And>e. kv_get (fs_evidence (w_fin w)) (pk, h) = Some e \<Longrightarrow>
      challenge_of C e (canonicalMsgToSign e) \<noteq> challenge_of C e (forkMsgToSign e)"
  shows "\<exists>e sk. kv_get (fs_evidence (w_fin w)) (pk, h) = Some e \<and>
    ExtractBTCSK (with_eots C x) C e = Inr (Some sk, None) \<and> ToBTCPK C pk = Some (PubGen C sk)"
proof -
  let ?x = "with_eots C x" and ?f = "w_fin w"
  have inv: "chain_inv ?x (c, w)" by (rule reachable_inv [OF reach chain_start_inv [OF start(1)]])
  have "signed_inv ?x (snd s0)" using start by (simp add: signed_inv_def chain_start_def)
  then have sgn: "signed_inv ?x w"
    using signed_reachable [OF reach chain_start_inv [OF start(1)]] by simp
  obtain e where e: "kv_get (fs_evidence ?f) (pk, h) = Some e" "IsSlashable ?x e"
    using inv votes unfolding chain_inv_def accountable_def by auto
  have ev: "ev_FpBtcPk e = Some pk" "ev_BlockHeight e = h"
    using inv e(1) unfolding chain_inv_def voting_inv_def by auto
  obtain s where s: "ev_CanonicalFinalitySig e = Some s" using e(2) by (auto simp: IsSlashable_iff)
  obtain pr sig where f: "ev_PubRand e = Some pr" "rand_of ?x ?f pk h pr" "hash_at ?f h = Some (ev_CanonicalAppHash e)"
    "ev_ForkFinalitySig e = Some sig" "ext_eots_verify ?x pk pr (forkMsgToSign e) sig" "kv_get (fs_votes ?f) (h, pk) = Some s"
    using signed_invD(3) [OF sgn e(1)] s ev(2) unfolding evidence_signed_def forkMsgToSign_def by blast
  obtain pr' where v: "rand_of ?x ?f pk h pr'" "ext_eots_verify ?x pk pr' (canonicalMsgToSign e) s"
    using signed_invD(2) [OF sgn f(6)] f(3) ev(2) unfolding vote_signed_def canonicalMsgToSign_def by auto
  have "merkle_binding ?x" using assms(2) by (simp add: merkle_binding_def with_eots_def)
  from rand_unique [OF this v(1) f(2)] have pr: "pr' = pr" .
  obtain P where P: "ToBTCPK C pk = Some P"
    "Verify C P (ToFieldValNormalized C pr) (canonicalMsgToSign e) (ToModNScalar C s) = Inr ()"
    "Verify C P (ToFieldValNormalized C pr) (forkMsgToSign e) (ToModNScalar C sig) = Inr ()"
    using v(2) f(5) unfolding pr with_eots_verify by auto
  obtain sk where sk: "0 < sk" "sk < cv_order C" "P = PubGen C sk" by (rule parsed_key [OF assms(1) P(1)])
  have "cv_challenge C (cv_field_bytes C (ToFieldValNormalized C pr)) (x_only C (PubGen C sk)) (cv_sha256 C (canonicalMsgToSign e)) \<noteq>
      cv_challenge C (cv_field_bytes C (ToFieldValNormalized C pr)) (x_only C (PubGen C sk)) (cv_sha256 C (forkMsgToSign e))"
    using hash [OF e(1)] by (simp add: challenge_of_def ev(1) f(1) P(1) sk(3))
  from extract_pair [OF assms(1) sk(1,2) P(2,3) [unfolded sk(3)] this]
  have "ExtractBTCSK ?x C e = Inr (Some sk, None)"
    using e(2) by (simp add: ExtractBTCSK_def guardR_def ev(1) f(1,4) s P(1) sk(3) option_to_result_def)
  then show ?thesis using e(1) P(1) sk(3) by blast
qed

subsection \<open>A run\<close>

text \<open>The provider with secret key 1 on the small curve votes for block 12 and for a fork of it.\<close>

definition key_lib :: ext where
  "key_lib = sample_ext\<lparr>ext_merkle_verify := (\<lambda>pf root leaf. leaf = replicate 32 CHR ''r'')\<rparr>"

definition key_result :: "unit world result" where
  "key_result =
     (let x = with_eots small_curve key_lib in
      bindR (EndBlocker x sample_env run_ctx run_start) (\<lambda>w1.
      bindR (AddFinalitySig x sample_env run_ctx (run_msg CHR ''h'' CHR ''s'') w1) (\<lambda>w2.
      AddFinalitySig x sample_env run_ctx (run_msg CHR ''f'' CHR ''u'') w2)))"

lemma key_check: "case key_result of Inl _ \<Rightarrow> False | Inr w \<Rightarrow>
    HasSig (w_fin w) 12 pkA \<and> HasEvidence (w_fin w) pkA 12 \<and>
    (case kv_get (fs_evidence (w_fin w)) (pkA, 12) of None \<Rightarrow> False | Some e \<Rightarrow>
       challenge_of small_curve e (canonicalMsgToSign e) \<noteq> challenge_of small_curve e (forkMsgToSign e))"
  by code_simp

theorem equivocation_reveals_key_witness:
  "\<exists>w e. reachable (with_eots small_curve key_lib) sample_env (run_ctx, run_start) (run_ctx, w) \<and>
    kv_get (fs_evidence (w_fin w)) (pkA, 12) = Some e \<and>
    (\<exists>sk. ExtractBTCSK (with_eots small_curve key_lib) small_curve e = Inr (Some sk, None) \<and>
      ToBTCPK small_curve pkA = Some (PubGen small_curve sk))"
proof -
  let ?x = "with_eots small_curve key_lib" and ?en = sample_env and ?s0 = "(run_ctx, run_start)"
  obtain w1 w2 w where run: "EndBlocker ?x ?en run_ctx run_start = Inr w1"
    "AddFinalitySig ?x ?en run_ctx (run_msg CHR ''h'' CHR ''s'') w1 = Inr w2"
    "AddFinalitySig ?x ?en run_ctx (run_msg CHR ''f'' CHR ''u'') w2 = Inr w" and res: "key_result = Inr w"
    using key_check by (auto simp: key_result_def bindR_eq_Inr Let_def split: sum.splits)
  note chk = key_check [unfolded res sum.case]
  note v = chk [THEN conjunct1] chk [THEN conjunct2, THEN conjunct1]
  have c: "0 < cx_height run_ctx" by (simp add: run_ctx_def sample_ctx_def cx_height_def)
  have none: "bs_largest_reorg (w_bs run_start) = None" by code_simp
  have halt: "BTCStaking_EndBlocker 10 (w_bs run_start) = Inr ()"
    using none by (simp add: BTCStaking_EndBlocker_def HaltIfBtcReorgLargerThanConfirmationDepth_def GetLargestBtcReorg_def)
  have "reachable ?x ?en ?s0 (run_ctx, w1)" by (rule reachable.step [OF reachable.start end_block [OF run(1) halt]])
  then have "reachable ?x ?en ?s0 (run_ctx, w2)" by (rule reachable.step) (rule vote [OF run(2) c])
  then have reach: "reachable ?x ?en ?s0 (run_ctx, w)" by (rule reachable.step) (rule vote [OF run(3) c])
  have bind: "merkle_binding key_lib" by (simp add: merkle_binding_def key_lib_def)
  have same: "fs_pub_rand_commit (w_fin run_start) = fs_pub_rand_commit (committed_fin pkA)"
    "fs_pub_rand_commit_index (w_fin run_start) = fs_pub_rand_commit_index (committed_fin pkA)"
    by (simp_all add: run_start_def vote_world_def)
  have rand: "pub_rand_inv (w_fin (snd ?s0))"
    using committed_fin_inv [of pkA] unfolding snd_conv pub_rand_inv_def pub_rand_inv_at_def commits_of_def same .
  have hash: "challenge_of small_curve e (canonicalMsgToSign e) \<noteq> challenge_of small_curve e (forkMsgToSign e)"
    if "kv_get (fs_evidence (w_fin w)) (pkA, 12) = Some e" for e
    using chk [THEN conjunct2, THEN conjunct2] by (simp only: that option.case not_False_eq_True)
  have "\<exists>e sk. kv_get (fs_evidence (w_fin w)) (pkA, 12) = Some e \<and>
      ExtractBTCSK ?x small_curve e = Inr (Some sk, None) \<and> ToBTCPK small_curve pkA = Some (PubGen small_curve sk)"
    by (rule equivocation_reveals_key [OF small_curve_ok bind run_chain_start rand reach v hash])
  then show ?thesis using reach by blast
qed

end
