(* ===== verification/BTC_Light_Client.thy ===== *)
theory BTC_Light_Client
  imports Prelude
begin

text \<open>
  The Bitcoin light client (\<open>x/btclightclient\<close>): a chain of headers from a base header to the tip, indexed by
  height and by hash. New headers extend the tip or replace the headers after a known one when the
  result has more work.

  A header of the library \<open>btcd\<close> is a value of the type \<open>'b\<close>, and what the library computes of it is the record
  \<open>btcd\<close>. The hooks that other modules register are the parameter \<open>hook\<close>, with their state of type \<open>'x\<close>.
\<close>

subsection \<open>Data\<close>

datatype lc_error =
    ErrHeaderDoesNotExist
  | ErrHeaderParentDoesNotExist
  | ErrEmptyMessage
  | ErrInvalidProofOfWOrk
  | ErrInvalidHeader
  | ErrChainWithNotEnoughWork
  | ErrUnauthorizedReporter
  | ErrInvalidMessageFormat
  | ErrForkStartWithKnownHeader
  | ErrInvalidSigner
  | ErrInvalidProposalMsg
  | LcErrorf string
  | LcPanic string

record 'b BTCHeaderInfo =
  hi_Header :: 'b
  hi_Hash :: bytes
  hi_Height :: u32
  hi_Work :: nat

record 'b localHeaderInfo =
  lh_header :: 'b
  lh_height :: u32
  lh_totalWork :: nat

record lightHeaderCtx =
  lhc_height :: u32
  lhc_bits :: u32
  lhc_timestamp :: int

text \<open>\<open>CheckBlockHeaderContext\<close> gets the context of the parent and its method \<open>RelativeAncestorCtx\<close>, and answers
  whether the header is acceptable; it fails only when the method panics. \<open>CheckBlockHeaderSanity\<close> has the
  proof-of-work limit of the network and the time of the header itself as its other arguments.\<close>

record 'b btcd =
  btc_BlockHash :: "'b \<Rightarrow> bytes"
  btc_PrevBlock :: "'b \<Rightarrow> bytes"
  btc_Bits :: "'b \<Rightarrow> u32"
  btc_Timestamp :: "'b \<Rightarrow> int"
  btc_CalcWork :: "u32 \<Rightarrow> int"
  btc_CheckBlockHeaderContext ::
    "'b \<Rightarrow> lightHeaderCtx \<Rightarrow> (lightHeaderCtx \<Rightarrow> u32 \<Rightarrow> lc_error + lightHeaderCtx option) \<Rightarrow> lc_error + bool"
  btc_CheckBlockHeaderSanity :: "'b \<Rightarrow> bool"

record 'b lc_state =
  lc_headers :: "(u32, 'b BTCHeaderInfo) kv"
  lc_hashToHeight :: "bytes \<rightharpoonup> u32"
  lc_InsertHeadersAllowList :: "string list"

record 'b RollbackInfo =
  rb_HeaderToRollbackTo :: "'b BTCHeaderInfo"

record 'b InsertResult =
  ir_HeadersToInsert :: "'b BTCHeaderInfo list"
  ir_RollbackInfo :: "'b RollbackInfo option"

datatype 'b lc_call =
    AfterBTCHeaderInserted "'b BTCHeaderInfo"
  | AfterBTCRollBack "'b BTCHeaderInfo" "'b BTCHeaderInfo"
  | AfterBTCRollForward "'b BTCHeaderInfo"

datatype 'b lc_event =
    EventBTCHeaderInserted "'b BTCHeaderInfo"
  | EventBTCRollBack "'b BTCHeaderInfo" "'b BTCHeaderInfo"
  | EventBTCRollForward "'b BTCHeaderInfo"

record ('b, 'x) lc_world =
  lw_state :: "'b lc_state"
  lw_ext :: 'x
  lw_events :: "'b lc_event list"

subsection \<open>The header store\<close>

definition insertHeader :: "'b BTCHeaderInfo \<Rightarrow> 'b lc_state \<Rightarrow> 'b lc_state" where
  "insertHeader h s = s\<lparr>lc_headers := kv_set (hi_Height h) h (lc_headers s),
     lc_hashToHeight := (lc_hashToHeight s)(hi_Hash h \<mapsto> hi_Height h)\<rparr>"

definition deleteHeader :: "'b BTCHeaderInfo \<Rightarrow> 'b lc_state \<Rightarrow> 'b lc_state" where
  "deleteHeader h s = s\<lparr>lc_headers := kv_del (hi_Height h) (lc_headers s),
     lc_hashToHeight := (lc_hashToHeight s)(hi_Hash h := None)\<rparr>"

text \<open>An iteration over stored headers: \<open>fn\<close> gets a header and what earlier calls collected, and answers
  whether to stop.\<close>

fun iterate_headers :: "('a \<Rightarrow> 'c \<Rightarrow> bool \<times> 'c) \<Rightarrow> 'a list \<Rightarrow> 'c \<Rightarrow> 'c" where
  "iterate_headers fn [] acc = acc"
| "iterate_headers fn (h # hs) acc = (case fn h acc of (stop, acc') \<Rightarrow>
     if stop then acc' else iterate_headers fn hs acc')"

definition IterateReverseHeaders :: "('b BTCHeaderInfo \<Rightarrow> 'c \<Rightarrow> bool \<times> 'c) \<Rightarrow> 'b lc_state \<Rightarrow> 'c \<Rightarrow> 'c" where
  "IterateReverseHeaders fn s acc = iterate_headers fn (rev (map snd (lc_headers s))) acc"

definition IterateForwardHeaders ::
  "u32 \<Rightarrow> ('b BTCHeaderInfo \<Rightarrow> 'c \<Rightarrow> bool \<times> 'c) \<Rightarrow> 'b lc_state \<Rightarrow> 'c \<Rightarrow> 'c" where
  "IterateForwardHeaders startPoint fn s acc =
     iterate_headers fn (map snd (filter (\<lambda>(k, _). startPoint \<noteq> 0 \<longrightarrow> startPoint \<le> k) (lc_headers s))) acc"

definition rollBackHeadersUpTo :: "u32 \<Rightarrow> 'b lc_state \<Rightarrow> 'b lc_state" where
  "rollBackHeadersUpTo height s =
     (let handleInfoFn = (\<lambda>header headersToDelete.
            if headersToDelete = [] \<and> height \<ge> hi_Height header then (True, headersToDelete)
            else if hi_Height header = height then (True, headersToDelete)
            else (False, headersToDelete @ [header]));
          headersToDelete = IterateReverseHeaders handleInfoFn s []
      in foldl (\<lambda>s header. deleteHeader header s) s headersToDelete)"

definition GetHeaderByHeight :: "u32 \<Rightarrow> 'b lc_state \<Rightarrow> lc_error + 'b BTCHeaderInfo" where
  "GetHeaderByHeight height s = option_to_result ErrHeaderDoesNotExist (kv_get (lc_headers s) height)"

definition GetHeaderByHash :: "bytes \<Rightarrow> 'b lc_state \<Rightarrow> lc_error + 'b BTCHeaderInfo" where
  "GetHeaderByHash hash s = (case lc_hashToHeight s hash of
       None \<Rightarrow> Inl ErrHeaderDoesNotExist
     | Some height \<Rightarrow> (case kv_get (lc_headers s) height of
         None \<Rightarrow> Inl (LcPanic ''header height exists but header does not'')
       | Some header \<Rightarrow> Inr header))"

definition GetTip :: "'b lc_state \<Rightarrow> 'b BTCHeaderInfo option" where
  "GetTip s = IterateReverseHeaders (\<lambda>header _. (True, Some header)) s None"

definition HeaderExists :: "bytes option \<Rightarrow> 'b lc_state \<Rightarrow> lc_error + bool" where
  "HeaderExists hash s = (case hash of None \<Rightarrow> Inr False
     | Some h \<Rightarrow> (case GetHeaderByHash h s of
         Inl (LcPanic p) \<Rightarrow> Inl (LcPanic p) | Inl _ \<Rightarrow> Inr False | Inr _ \<Rightarrow> Inr True))"

definition TipExists :: "'b lc_state \<Rightarrow> bool" where
  "TipExists s \<longleftrightarrow> GetTip s \<noteq> None"

definition BaseHeader :: "'b lc_state \<Rightarrow> 'b BTCHeaderInfo option" where
  "BaseHeader s = IterateForwardHeaders 0 (\<lambda>header _. (True, Some header)) s None"

definition SetBaseBTCHeader :: "'b BTCHeaderInfo \<Rightarrow> 'b lc_state \<Rightarrow> lc_error + 'b lc_state" where
  "SetBaseBTCHeader base s = (case BaseHeader s of
       Some _ \<Rightarrow> Inl (LcPanic ''A base BTC Header has already been set'')
     | None \<Rightarrow> Inr (insertHeader base s))"

definition InsertHeaderInfos :: "'b BTCHeaderInfo list \<Rightarrow> 'b lc_state \<Rightarrow> 'b lc_state" where
  "InsertHeaderInfos infos s = foldl (\<lambda>s inf. insertHeader inf s) s infos"

subsection \<open>Work\<close>

text \<open>\<open>sdkmath.Uint\<close> holds 256 bits and panics beyond.\<close>

definition NewUintFromBigInt :: "int \<Rightarrow> lc_error + nat" where
  "NewUintFromBigInt i = (if 0 \<le> i \<and> i < 2 ^ 256 then Inr (nat i) else Inl (LcPanic ''Uint overflow''))"

definition CalcHeaderWork :: "'b btcd \<Rightarrow> 'b \<Rightarrow> lc_error + nat" where
  "CalcHeaderWork B header = NewUintFromBigInt (btc_CalcWork B (btc_Bits B header))"

definition CumulativeWork :: "nat \<Rightarrow> nat \<Rightarrow> lc_error + nat" where
  "CumulativeWork childWork parentWork = NewUintFromBigInt (int childWork + int parentWork)"

subsection \<open>Checking and adding headers\<close>

definition newLightHeaderCtx :: "'b btcd \<Rightarrow> u32 \<Rightarrow> 'b \<Rightarrow> lightHeaderCtx" where
  "newLightHeaderCtx B height header =
     \<lparr>lhc_height = height, lhc_bits = btc_Bits B header, lhc_timestamp = btc_Timestamp B header\<rparr>"

definition toLocalInfo :: "'b BTCHeaderInfo \<Rightarrow> 'b localHeaderInfo" where
  "toLocalInfo i = \<lparr>lh_header = hi_Header i, lh_height = hi_Height i, lh_totalWork = hi_Work i\<rparr>"

definition toBTCHeaderInfo :: "'b btcd \<Rightarrow> 'b localHeaderInfo \<Rightarrow> 'b BTCHeaderInfo" where
  "toBTCHeaderInfo B i = \<lparr>hi_Header = lh_header i, hi_Hash = btc_BlockHash B (lh_header i),
     hi_Height = lh_height i, hi_Work = lh_totalWork i\<rparr>"

text \<open>The store with an extension: the headers that are checked so far, and the stored ones below them.\<close>

definition getHeaderAtHeight ::
  "'b lc_state \<Rightarrow> 'b localHeaderInfo list \<Rightarrow> u32 \<Rightarrow> lc_error + 'b localHeaderInfo option" where
  "getHeaderAtHeight s headers height =
     (if headers = [] \<or> height < lh_height (hd headers)
      then Inr (case GetHeaderByHeight height s of Inl _ \<Rightarrow> None
        | Inr h \<Rightarrow> Some \<lparr>lh_header = hi_Header h, lh_height = height, lh_totalWork = hi_Work h\<rparr>)
      else let headerIndex = unat (height - lh_height (hd headers))
           in if headerIndex < length headers then Inr (Some (headers ! headerIndex))
              else Inl (LcPanic ''index out of range''))"

text \<open>Heights and distances are \<open>int32\<close> here.\<close>

definition RelativeAncestorCtx ::
  "'b btcd \<Rightarrow> 'b lc_state \<Rightarrow> 'b localHeaderInfo list \<Rightarrow> lightHeaderCtx \<Rightarrow> u32 \<Rightarrow> lc_error + lightHeaderCtx option" where
  "RelativeAncestorCtx B s headers l distance =
     (let ancestorHeight = lhc_height l - distance in
      if sint ancestorHeight < 0 then Inr None
      else bindR (getHeaderAtHeight s headers ancestorHeight) (\<lambda>ancestor.
           Inr (map_option (\<lambda>a. newLightHeaderCtx B ancestorHeight (lh_header a)) ancestor)))"

definition checkHeader ::
  "'b btcd \<Rightarrow> 'b lc_state \<Rightarrow> 'b localHeaderInfo list \<Rightarrow> 'b localHeaderInfo \<Rightarrow> 'b \<Rightarrow> lc_error + bool" where
  "checkHeader B s headers parent h =
     bindR (btc_CheckBlockHeaderContext B h (newLightHeaderCtx B (lh_height parent) (lh_header parent))
       (RelativeAncestorCtx B s headers)) (\<lambda>ok.
     Inr (ok \<and> btc_CheckBlockHeaderSanity B h))"

definition emptyHash :: bytes where
  "emptyHash = replicate 32 (CHR 0x00)"

fun form_chain_loop :: "'b btcd \<Rightarrow> bytes \<Rightarrow> 'b list \<Rightarrow> bool" where
  "form_chain_loop B lastHeader [] = True"
| "form_chain_loop B lastHeader (h # hs) =
     (let blockHash = btc_BlockHash B h in
      if lastHeader = emptyHash then form_chain_loop B blockHash hs
      else if btc_PrevBlock B h \<noteq> lastHeader then False
      else form_chain_loop B blockHash hs)"

definition headersFormChain :: "'b btcd \<Rightarrow> 'b list \<Rightarrow> bool" where
  "headersFormChain B headers = form_chain_loop B emptyHash headers"

fun processNewHeadersChain ::
  "'b btcd \<Rightarrow> 'b lc_state \<Rightarrow> 'b localHeaderInfo list \<Rightarrow> 'b localHeaderInfo \<Rightarrow> 'b list \<Rightarrow>
    lc_error + 'b localHeaderInfo list" where
  "processNewHeadersChain B s headers parent [] = Inr headers"
| "processNewHeadersChain B s headers parent (h # hs) =
     bindR (checkHeader B s headers parent h) (\<lambda>ok.
     guardR (\<not> ok) ErrInvalidHeader
    (bindR (CalcHeaderWork B h) (\<lambda>childWork.
     bindR (CumulativeWork (lh_totalWork parent) childWork) (\<lambda>work.
     let new = \<lparr>lh_header = h, lh_height = lh_height parent + 1, lh_totalWork = work\<rparr>
     in processNewHeadersChain B s (headers @ [new]) new hs))))"

definition lc_InsertHeaders :: "'b btcd \<Rightarrow> 'b lc_state \<Rightarrow> 'b list \<Rightarrow> lc_error + 'b InsertResult" where
  "lc_InsertHeaders B s headers = (case headers of
       [] \<Rightarrow> Inl (LcErrorf ''cannot insert empty headers'')
     | first # _ \<Rightarrow>
         guardR (\<not> headersFormChain B headers) (LcErrorf ''headers do not form a chain'')
        (case GetTip s of
           None \<Rightarrow> Inl (LcErrorf ''cannot insert headers when tip is nil'')
         | Some tip \<Rightarrow>
             let currentTip = toLocalInfo tip in
             if btc_PrevBlock B first = btc_BlockHash B (lh_header currentTip)
             then bindR (processNewHeadersChain B s [] currentTip headers) (\<lambda>new.
                  Inr \<lparr>ir_HeadersToInsert = map (toBTCHeaderInfo B) new, ir_RollbackInfo = None\<rparr>)
             else case GetHeaderByHash (btc_BlockHash B first) s of
                 Inr _ \<Rightarrow> Inl ErrForkStartWithKnownHeader
               | Inl (LcPanic p) \<Rightarrow> Inl (LcPanic p)
               | Inl _ \<Rightarrow> (case GetHeaderByHash (btc_PrevBlock B first) s of
                   Inl (LcPanic p) \<Rightarrow> Inl (LcPanic p)
                 | Inl _ \<Rightarrow> Inl ErrHeaderParentDoesNotExist
                 | Inr forkParent \<Rightarrow>
                     bindR (processNewHeadersChain B s [] (toLocalInfo forkParent) headers) (\<lambda>new.
                     guardR (lh_totalWork (last new) \<le> lh_totalWork currentTip) ErrChainWithNotEnoughWork
                    (Inr \<lparr>ir_HeadersToInsert = map (toBTCHeaderInfo B) new,
                       ir_RollbackInfo = Some \<lparr>rb_HeaderToRollbackTo = forkParent\<rparr>\<rparr>)))))"

subsection \<open>The keeper\<close>

definition lc_call_hook ::
  "('b lc_call \<Rightarrow> 'x \<Rightarrow> lc_error + 'x) \<Rightarrow> 'b lc_call \<Rightarrow> 'b lc_event \<Rightarrow> ('b, 'x) lc_world \<Rightarrow> lc_error + ('b, 'x) lc_world" where
  "lc_call_hook hook call ev w =
     bindR (hook call (lw_ext w)) (\<lambda>x. Inr (w\<lparr>lw_ext := x, lw_events := lw_events w @ [ev]\<rparr>))"

definition CheckRollBackInvariants :: "'b BTCHeaderInfo option \<Rightarrow> 'b BTCHeaderInfo option \<Rightarrow> lc_error + unit" where
  "CheckRollBackInvariants rollbackFrom rollbackTo = (case (rollbackFrom, rollbackTo) of
       (None, _) \<Rightarrow> Inl (LcErrorf ''Call BTC rollback without tip'')
     | (Some _, None) \<Rightarrow> Inl (LcErrorf ''Call BTC rollback without rollbackTo'')
     | (Some from, Some to) \<Rightarrow>
         guardR (hi_Height to \<ge> hi_Height from) (LcErrorf ''BTC rollback with rollback To higher or equal than From'')
        (Inr ()))"

definition triggerRollBack where
  "triggerRollBack hook rollbackFrom rollbackTo w =
     (case CheckRollBackInvariants rollbackFrom (Some rollbackTo) of
        Inl _ \<Rightarrow> Inl (LcPanic ''rollback invariants'')
      | Inr _ \<Rightarrow> (case rollbackFrom of
          None \<Rightarrow> Inl (LcPanic ''nil tip'')
        | Some from \<Rightarrow> lc_call_hook hook (AfterBTCRollBack from rollbackTo) (EventBTCRollBack from rollbackTo) w))"

definition insert_with_hooks where
  "insert_with_hooks hook w h =
     bindR (lc_call_hook hook (AfterBTCHeaderInserted h) (EventBTCHeaderInserted h)
       (w\<lparr>lw_state := insertHeader h (lw_state w)\<rparr>)) (\<lambda>w1.
     lc_call_hook hook (AfterBTCRollForward h) (EventBTCRollForward h) w1)"

definition triggerEventAndHandleHooksHandler ::
  "('b lc_call \<Rightarrow> 'x \<Rightarrow> lc_error + 'x) \<Rightarrow> 'b InsertResult \<Rightarrow> ('b, 'x) lc_world \<Rightarrow> lc_error + ('b, 'x) lc_world" where
  "triggerEventAndHandleHooksHandler hook result w =
     bindR (case ir_RollbackInfo result of
         None \<Rightarrow> Inr w
       | Some rb \<Rightarrow>
           let lastTip = GetTip (lw_state w);
               to = rb_HeaderToRollbackTo rb
           in triggerRollBack hook lastTip to (w\<lparr>lw_state := rollBackHeadersUpTo (hi_Height to) (lw_state w)\<rparr>))
     (\<lambda>w1. foldR (insert_with_hooks hook) w1 (ir_HeadersToInsert result))"

definition insertHandler :: "'b InsertResult \<Rightarrow> 'b lc_state \<Rightarrow> lc_error + 'b lc_state" where
  "insertHandler result s =
     guardR (ir_RollbackInfo result \<noteq> None) (LcErrorf ''rollback should not happen'')
    (Inr (foldl (\<lambda>s h. insertHeader h s) s (ir_HeadersToInsert result)))"

definition InsertHeadersWithHookAndEvents ::
  "'b btcd \<Rightarrow> ('b lc_call \<Rightarrow> 'x \<Rightarrow> lc_error + 'x) \<Rightarrow> 'b list \<Rightarrow> ('b, 'x) lc_world \<Rightarrow> lc_error + ('b, 'x) lc_world" where
  "InsertHeadersWithHookAndEvents B hook headers w =
     guardR (headers = []) ErrEmptyMessage
    (bindR (lc_InsertHeaders B (lw_state w) headers) (\<lambda>result.
     triggerEventAndHandleHooksHandler hook result w))"

definition Keeper_InsertHeaders :: "'b btcd \<Rightarrow> 'b list \<Rightarrow> 'b lc_state \<Rightarrow> lc_error + 'b lc_state" where
  "Keeper_InsertHeaders B headers s =
     guardR (headers = []) ErrEmptyMessage
    (bindR (lc_InsertHeaders B s headers) (\<lambda>result. insertHandler result s))"

definition BlockHeight :: "bytes option \<Rightarrow> 'b lc_state \<Rightarrow> lc_error + u32" where
  "BlockHeight hash s = (case hash of
       None \<Rightarrow> Inl ErrEmptyMessage
     | Some h \<Rightarrow> bindR (GetHeaderByHash h s) (\<lambda>i. Inr (hi_Height i)))"

definition MainChainDepth :: "bytes option \<Rightarrow> 'b lc_state \<Rightarrow> lc_error + u32" where
  "MainChainDepth hash s = (case hash of
       None \<Rightarrow> Inl ErrEmptyMessage
     | Some h \<Rightarrow> bindR (GetHeaderByHash h s) (\<lambda>headerInfo.
         case GetTip s of
           None \<Rightarrow> Inl (LcPanic ''nil tip'')
         | Some tipInfo \<Rightarrow>
             guardR (hi_Height tipInfo < hi_Height headerInfo) (LcPanic ''tip height is less than header height'')
            (Inr (hi_Height tipInfo - hi_Height headerInfo))))"

definition GetMainChainFrom :: "u32 \<Rightarrow> 'b lc_state \<Rightarrow> 'b BTCHeaderInfo list" where
  "GetMainChainFrom startHeight s = IterateForwardHeaders startHeight (\<lambda>h hs. (False, hs @ [h])) s []"

definition GetMainChainFromWithLimit :: "u32 \<Rightarrow> u32 \<Rightarrow> 'b lc_state \<Rightarrow> 'b BTCHeaderInfo list" where
  "GetMainChainFromWithLimit startHeight limit s = IterateForwardHeaders startHeight
     (\<lambda>h hs. if length hs \<ge> unat limit then (True, hs) else (False, hs @ [h])) s []"

definition GetMainChainUpTo :: "u32 \<Rightarrow> 'b lc_state \<Rightarrow> 'b BTCHeaderInfo list" where
  "GetMainChainUpTo depth s = fst (IterateReverseHeaders (\<lambda>h (hs, currentDepth).
     if currentDepth > depth then (True, (hs, currentDepth)) else (False, (hs @ [h], currentDepth + 1))) s ([], 0))"

definition GetMainChainReverse :: "'b lc_state \<Rightarrow> 'b BTCHeaderInfo list" where
  "GetMainChainReverse s = IterateReverseHeaders (\<lambda>h hs. (False, hs @ [h])) s []"

subsection \<open>Messages\<close>

text \<open>\<open>addr_of\<close> is \<open>AccAddressFromBech32\<close>; \<open>refund\<close> is \<open>IndexRefundableMsg\<close> of the incentive module.\<close>

record 'b MsgInsertHeaders =
  mih_Signer :: string
  mih_Headers :: "'b list"

definition lc_Params_Validate :: "(string \<Rightarrow> bytes option) \<Rightarrow> string list \<Rightarrow> lc_error + unit" where
  "lc_Params_Validate addr_of allowList =
     guardR (\<exists>a\<in>set allowList. addr_of a = None) (LcErrorf ''invalid address'') (Inr ())"

definition lc_SetParams :: "(string \<Rightarrow> bytes option) \<Rightarrow> string list \<Rightarrow> 'b lc_state \<Rightarrow> lc_error + 'b lc_state" where
  "lc_SetParams addr_of p s =
     bindR (lc_Params_Validate addr_of p) (\<lambda>_. Inr (s\<lparr>lc_InsertHeadersAllowList := p\<rparr>))"

definition lc_UpdateParams ::
  "(string \<Rightarrow> bytes option) \<Rightarrow> string \<Rightarrow> string \<Rightarrow> string list \<Rightarrow> 'b lc_state \<Rightarrow> lc_error + 'b lc_state" where
  "lc_UpdateParams addr_of authority reqAuthority p s =
     guardR (authority \<noteq> reqAuthority) ErrInvalidSigner
    (case lc_Params_Validate addr_of p of Inl _ \<Rightarrow> Inl ErrInvalidProposalMsg | Inr _ \<Rightarrow> lc_SetParams addr_of p s)"

definition ValidateStateless :: "(string \<Rightarrow> bytes option) \<Rightarrow> 'b MsgInsertHeaders \<Rightarrow> lc_error + unit" where
  "ValidateStateless addr_of msg =
     bindR (option_to_result (LcErrorf ''AccAddressFromBech32'') (addr_of (mih_Signer msg))) (\<lambda>_.
     guardR (mih_Headers msg = []) (LcErrorf ''empty headers list'') (Inr ()))"

definition canInsertHeaders ::
  "(string \<Rightarrow> bytes option) \<Rightarrow> bytes \<Rightarrow> 'b lc_state \<Rightarrow> lc_error + bool" where
  "canInsertHeaders addr_of reporter s =
     (if lc_InsertHeadersAllowList s = [] then Inr True
      else foldR (\<lambda>allow a. case addr_of a of
             None \<Rightarrow> Inl (LcPanic ''MustAccAddressFromBech32'')
           | Some ad \<Rightarrow> Inr (allow \<or> ad = reporter)) False (lc_InsertHeadersAllowList s))"

definition Msg_InsertHeaders where
  "Msg_InsertHeaders B addr_of hook refund msg w =
     (case ValidateStateless addr_of msg of
        Inl _ \<Rightarrow> Inl ErrInvalidMessageFormat
      | Inr _ \<Rightarrow> (case addr_of (mih_Signer msg) of
          None \<Rightarrow> Inl (LcPanic ''ReporterAddress'')
        | Some reporterAddress \<Rightarrow>
            bindR (canInsertHeaders addr_of reporterAddress (lw_state w)) (\<lambda>ok.
            guardR (\<not> ok) ErrUnauthorizedReporter
           (bindR (InsertHeadersWithHookAndEvents B hook (mih_Headers msg) w) (\<lambda>w1.
            Inr (w1\<lparr>lw_ext := refund msg (lw_ext w1)\<rparr>))))))"

subsection \<open>Well-formed stores\<close>

text \<open>The store holds a chain: both indexes are those of one list of headers in which every header follows
  the one before it, at the next height, with its hash as previous block and with its work added.\<close>

definition follows :: "'b btcd \<Rightarrow> 'b BTCHeaderInfo \<Rightarrow> 'b BTCHeaderInfo \<Rightarrow> bool" where
  "follows B a b \<longleftrightarrow> unat (hi_Height b) = Suc (unat (hi_Height a)) \<and> btc_PrevBlock B (hi_Header b) = hi_Hash a \<and>
     int (hi_Work b) = int (hi_Work a) + btc_CalcWork B (btc_Bits B (hi_Header b))"

definition valid_chain :: "'b btcd \<Rightarrow> 'b BTCHeaderInfo list \<Rightarrow> bool" where
  "valid_chain B cs \<longleftrightarrow> successively (follows B) cs \<and> (\<forall>i\<in>set cs. hi_Hash i = btc_BlockHash B (hi_Header i))"

definition stores :: "'b lc_state \<Rightarrow> 'b BTCHeaderInfo list \<Rightarrow> bool" where
  "stores s cs \<longleftrightarrow> lc_headers s = map (\<lambda>i. (hi_Height i, i)) cs \<and>
     lc_hashToHeight s = map_of (map (\<lambda>i. (hi_Hash i, hi_Height i)) cs)"

definition main_chain :: "'b lc_state \<Rightarrow> 'b BTCHeaderInfo list" where
  "main_chain s = map snd (lc_headers s)"

definition lc_inv :: "'b btcd \<Rightarrow> 'b lc_state \<Rightarrow> bool" where
  "lc_inv B s \<longleftrightarrow> main_chain s \<noteq> [] \<and> valid_chain B (main_chain s) \<and> stores s (main_chain s)"

text \<open>What the code relies on of the library: no header is its own ancestor, as hashes have no cycles; no
  header has the hash zero; a header that passes the sanity check, and so has a positive target, has work.\<close>

definition btcd_ok :: "'b btcd \<Rightarrow> bool" where
  "btcd_ok B \<longleftrightarrow> (\<exists>rank :: bytes \<Rightarrow> nat. \<forall>h. rank (btc_PrevBlock B h) < rank (btc_BlockHash B h)) \<and>
     (\<forall>h. btc_BlockHash B h \<noteq> emptyHash) \<and>
     (\<forall>h. btc_CheckBlockHeaderSanity B h \<longrightarrow> 0 < btc_CalcWork B (btc_Bits B h))"

lemma stores_main: "stores s cs \<Longrightarrow> main_chain s = cs"
  by (simp add: stores_def main_chain_def comp_def)

lemma valid_chain_append:
  "valid_chain B (xs @ ys) \<longleftrightarrow> valid_chain B xs \<and> valid_chain B ys \<and> (xs = [] \<or> ys = [] \<or> follows B (last xs) (hd ys))"
  by (auto simp: valid_chain_def successively_append_iff)

lemma valid_chain_heights:
  assumes "valid_chain B cs"
  shows "sorted_wrt (\<lambda>a b. hi_Height a < hi_Height b) cs"
proof -
  have "successively (\<lambda>a b. hi_Height a < hi_Height b) cs"
    by (rule successively_mono [of "follows B"]) (use assms in \<open>auto simp: valid_chain_def follows_def word_less_nat_alt\<close>)
  then show ?thesis by (subst (asm) successively_conv_sorted_wrt) (auto intro: transpI)
qed

lemma valid_chain_hashes:
  assumes "btcd_ok B" "valid_chain B cs"
  shows "distinct (map hi_Hash cs)"
proof -
  obtain rank :: "bytes \<Rightarrow> nat" where r: "rank (btc_PrevBlock B h) < rank (btc_BlockHash B h)" for h
    using assms(1) unfolding btcd_ok_def by blast
  have "successively (\<lambda>a b. rank (hi_Hash a) < rank (hi_Hash b)) cs"
  proof (rule successively_mono [of "follows B"])
    fix a b assume "a \<in> set cs" "b \<in> set cs" "follows B a b"
    then show "rank (hi_Hash a) < rank (hi_Hash b)"
      using r [of "hi_Header b"] assms(2) by (simp add: follows_def valid_chain_def)
  qed (use assms(2) in \<open>simp add: valid_chain_def\<close>)
  then have "sorted_wrt (\<lambda>a b. rank (hi_Hash a) < rank (hi_Hash b)) cs"
    by (subst (asm) successively_conv_sorted_wrt) (auto intro: transpI)
  then show ?thesis by (induction cs) auto
qed

subsection \<open>The store as a chain\<close>

lemma stores_insert:
  assumes "stores s cs" "\<forall>i\<in>set cs. hi_Height i < hi_Height h" "hi_Hash h \<notin> hi_Hash ` set cs"
  shows "stores (insertHeader h s) (cs @ [h])"
proof -
  have "map_of (map (\<lambda>i. (hi_Hash i, hi_Height i)) cs) (hi_Hash h) = None"
    using assms(3) by (auto simp: map_of_eq_None_iff)
  then show ?thesis
    using assms(1,2) by (auto simp: stores_def insertHeader_def kv_set_last map_add_def split: option.splits)
qed

lemma stores_insert_all:
  assumes "stores s cs" "sorted_wrt (\<lambda>a b. hi_Height a < hi_Height b) (cs @ new)" "distinct (map hi_Hash (cs @ new))"
  shows "stores (foldl (\<lambda>s h. insertHeader h s) s new) (cs @ new)"
  using assms
proof (induction new arbitrary: s cs)
  case (Cons h new)
  then have "stores (insertHeader h s) (cs @ [h])" by (intro stores_insert) (auto simp: sorted_wrt_append)
  from Cons.IH [OF this] show ?case using Cons.prems by simp
qed simp

lemma stores_delete:
  assumes "stores s (cs @ [h])" "\<forall>i\<in>set cs. hi_Height i < hi_Height h" "hi_Hash h \<notin> hi_Hash ` set cs"
  shows "stores (deleteHeader h s) cs"
proof -
  have "filter (\<lambda>(k, _). k \<noteq> hi_Height h) (map (\<lambda>i. (hi_Height i, i)) cs) = map (\<lambda>i. (hi_Height i, i)) cs"
    using assms(2) by (auto simp: filter_id_conv)
  moreover have "map_of (map (\<lambda>i. (hi_Hash i, hi_Height i)) cs) (hi_Hash h) = None"
    using assms(3) by (auto simp: map_of_eq_None_iff)
  ultimately show ?thesis
    using assms(1) by (auto simp: stores_def deleteHeader_def kv_del_def map_add_def case_prod_unfold split: option.splits)
qed

lemma stores_delete_all:
  assumes "stores s (cs @ ds)" "sorted_wrt (\<lambda>a b. hi_Height a < hi_Height b) (cs @ ds)" "distinct (map hi_Hash (cs @ ds))"
  shows "stores (foldl (\<lambda>s h. deleteHeader h s) s (rev ds)) cs"
  using assms
proof (induction ds arbitrary: s rule: rev_induct)
  case (snoc h ds)
  have "stores (deleteHeader h s) (cs @ ds)"
    by (rule stores_delete) (use snoc.prems in \<open>auto simp: sorted_wrt_append\<close>)
  from snoc.IH [OF this] show ?case using snoc.prems by (simp add: sorted_wrt_append)
qed simp

lemma iterate_collect:
  assumes "\<forall>d\<in>set ds. hi_Height d > height" "cs \<noteq> []" "hi_Height (hd cs) = height"
  shows "iterate_headers (\<lambda>header acc.
      if acc = [] \<and> height \<ge> hi_Height header then (True, acc)
      else if hi_Height header = height then (True, acc) else (False, acc @ [header])) (ds @ cs) acc = acc @ ds"
  using assms by (induction ds arbitrary: acc) (cases cs, auto)

lemma stores_rollback:
  assumes "stores s (cs @ ds)" "cs \<noteq> []" "sorted_wrt (\<lambda>a b. hi_Height a < hi_Height b) (cs @ ds)"
    "distinct (map hi_Hash (cs @ ds))"
  shows "stores (rollBackHeadersUpTo (hi_Height (last cs)) s) cs"
proof -
  have "IterateReverseHeaders (\<lambda>header acc.
      if acc = [] \<and> hi_Height (last cs) \<ge> hi_Height header then (True, acc)
      else if hi_Height header = hi_Height (last cs) then (True, acc) else (False, acc @ [header])) s [] = rev ds"
    unfolding IterateReverseHeaders_def main_chain_def [symmetric] stores_main [OF assms(1)] rev_append
    by (subst iterate_collect) (use assms(2,3) in \<open>auto simp: sorted_wrt_append hd_rev\<close>)
  then show ?thesis
    unfolding rollBackHeadersUpTo_def Let_def using stores_delete_all [OF assms(1,3,4)] by simp
qed

lemma stores_tip: "stores s cs \<Longrightarrow> cs \<noteq> [] \<Longrightarrow> GetTip s = Some (last cs)"
  unfolding GetTip_def IterateReverseHeaders_def main_chain_def [symmetric]
  by (cases cs rule: rev_cases) (simp_all add: stores_main)

lemma stores_hash:
  assumes "stores s cs" "sorted_wrt (\<lambda>a b. hi_Height a < hi_Height b) cs" "distinct (map hi_Hash cs)"
  shows "i \<in> set cs \<Longrightarrow> GetHeaderByHash (hi_Hash i) s = Inr i"
    and "hash \<notin> hi_Hash ` set cs \<Longrightarrow> GetHeaderByHash hash s = Inl ErrHeaderDoesNotExist"
proof -
  have h: "kv_get (lc_headers s) (hi_Height i) = Some i" if "i \<in> set cs" for i
  proof -
    have "kv_wf (lc_headers s)" using assms(1,2) by (simp add: stores_def kv_wf_def sorted_wrt_map comp_def)
    then show ?thesis using that assms(1) by (subst kv_entries [symmetric]) (auto simp: stores_def)
  qed
  show "GetHeaderByHash (hi_Hash i) s = Inr i" if i: "i \<in> set cs"
  proof -
    have "map_of (map (\<lambda>i. (hi_Hash i, hi_Height i)) cs) (hi_Hash i) = Some (hi_Height i)"
      by (rule map_of_is_SomeI) (use assms(3) i in \<open>auto simp: comp_def\<close>)
    then show ?thesis using assms(1) h [OF i] by (simp add: GetHeaderByHash_def stores_def)
  qed
  show "GetHeaderByHash hash s = Inl ErrHeaderDoesNotExist" if "hash \<notin> hi_Hash ` set cs"
  proof -
    have "map_of (map (\<lambda>i. (hi_Hash i, hi_Height i)) cs) hash = None" using that by (auto simp: map_of_eq_None_iff)
    then show ?thesis using assms(1) by (simp add: GetHeaderByHash_def stores_def)
  qed
qed

subsection \<open>Checked headers\<close>

lemma form_chain_loop:
  assumes "btcd_ok B" "lst \<noteq> emptyHash"
  shows "form_chain_loop B lst hs \<longleftrightarrow>
    successively (\<lambda>a b. btc_PrevBlock B b = btc_BlockHash B a) hs \<and> (hs = [] \<or> btc_PrevBlock B (hd hs) = lst)"
  using assms(2)
proof (induction hs arbitrary: lst)
  case (Cons h hs)
  have "btc_BlockHash B h \<noteq> emptyHash" using assms(1) by (simp add: btcd_ok_def)
  from Cons.IH [OF this] Cons.prems show ?case by (cases hs) (auto simp: Let_def)
qed simp

lemma headersFormChain_iff:
  assumes "btcd_ok B"
  shows "headersFormChain B hs \<longleftrightarrow> successively (\<lambda>a b. btc_PrevBlock B b = btc_BlockHash B a) hs"
proof (cases hs)
  case (Cons h hs')
  have "btc_BlockHash B h \<noteq> emptyHash" using assms by (simp add: btcd_ok_def)
  have "headersFormChain B hs \<longleftrightarrow> form_chain_loop B (btc_BlockHash B h) hs'"
    by (simp add: headersFormChain_def Cons Let_def)
  then show ?thesis
    unfolding form_chain_loop [OF assms \<open>btc_BlockHash B h \<noteq> emptyHash\<close>] Cons by (cases hs') auto
qed (simp add: headersFormChain_def)

lemma toLocalInfo_sel [simp]:
  "lh_header (toLocalInfo i) = hi_Header i" "lh_height (toLocalInfo i) = hi_Height i" "lh_totalWork (toLocalInfo i) = hi_Work i"
  by (simp_all add: toLocalInfo_def)

lemma NewUint_Inr: "NewUintFromBigInt i = Inr n \<longleftrightarrow> 0 \<le> i \<and> i < 2 ^ 256 \<and> n = nat i"
  by (auto simp: NewUintFromBigInt_def)

lemma process_chain:
  assumes "btcd_ok B" "processNewHeadersChain B s acc parent hs = Inr res"
    "successively (\<lambda>a b. btc_PrevBlock B b = btc_BlockHash B a) (lh_header parent # hs)"
    "unat (lh_height parent) + length hs < 2 ^ 32"
  shows "\<exists>new. res = acc @ new \<and> map lh_header new = hs \<and> valid_chain B (map (toBTCHeaderInfo B) (parent # new)) \<and>
    (\<forall>i\<in>set new. lh_totalWork parent < lh_totalWork i)"
  using assms(2-)
proof (induction hs arbitrary: acc parent)
  case Nil
  then show ?case by (auto simp: valid_chain_def toBTCHeaderInfo_def)
next
  case (Cons h hs)
  define cw where "cw = btc_CalcWork B (btc_Bits B h)"
  obtain work where ok: "btc_CheckBlockHeaderSanity B h" and w': "0 \<le> cw" "work = nat (int (lh_totalWork parent) + cw)" and
    rec: "processNewHeadersChain B s (acc @ [\<lparr>lh_header = h, lh_height = lh_height parent + 1, lh_totalWork = work\<rparr>])
      \<lparr>lh_header = h, lh_height = lh_height parent + 1, lh_totalWork = work\<rparr> hs = Inr res"
    using Cons.prems(1) unfolding cw_def
    by (auto simp: result_simps checkHeader_def CalcHeaderWork_def CumulativeWork_def NewUint_Inr Let_def)
  have w: "int work = int (lh_totalWork parent) + cw" using w' by simp
  define new1 where "new1 = \<lparr>lh_header = h, lh_height = lh_height parent + 1, lh_totalWork = work\<rparr>"
  have ht: "unat (lh_height new1) = Suc (unat (lh_height parent))"
    unfolding new1_def using Cons.prems(3) by (simp add: unat_word_ariths)
  have pre: "successively (\<lambda>a b. btc_PrevBlock B b = btc_BlockHash B a) (lh_header new1 # hs)"
    "unat (lh_height new1) + length hs < 2 ^ 32"
    using Cons.prems(2,3) ht by (simp_all add: new1_def)
  obtain new where new: "res = (acc @ [new1]) @ new" "map lh_header new = hs"
    "valid_chain B (map (toBTCHeaderInfo B) (new1 # new))" "\<forall>i\<in>set new. lh_totalWork new1 < lh_totalWork i"
    using Cons.IH [OF rec [folded new1_def] pre] by blast
  have "0 < cw" using ok assms(1) unfolding btcd_ok_def cw_def by blast
  with w have lt: "lh_totalWork parent < lh_totalWork new1" by (simp add: new1_def)
  have "follows B (toBTCHeaderInfo B parent) (toBTCHeaderInfo B new1)"
    using ht w Cons.prems(2) by (simp add: follows_def toBTCHeaderInfo_def new1_def cw_def)
  then have "valid_chain B (map (toBTCHeaderInfo B) (parent # new1 # new))"
    using new(3) by (simp add: valid_chain_def toBTCHeaderInfo_def)
  moreover have "lh_totalWork parent < lh_totalWork i" if "i \<in> set (new1 # new)" for i
    using that lt less_trans [OF lt, of "lh_totalWork i"] new(4) by (cases "i = new1") simp_all
  ultimately show ?case using new(1,2) by (intro exI [of _ "new1 # new"]) (simp add: new1_def)
qed

lemma valid_chain_last_height:
  assumes "valid_chain B (kept @ dropped)" "kept \<noteq> []"
  shows "hi_Height (last kept) \<le> hi_Height (last (kept @ dropped))"
proof (cases "dropped = []")
  case False
  have "sorted_wrt (\<lambda>a b. hi_Height a < hi_Height b) (kept @ dropped)" by (rule valid_chain_heights [OF assms(1)])
  then have "hi_Height (last kept) < hi_Height (last dropped)" using assms(2) False by (simp add: sorted_wrt_append)
  then show ?thesis using False by simp
qed simp

text \<open>Checked headers after a stored one extend the chain up to it.\<close>

lemma process_from:
  assumes "btcd_ok B" "valid_chain B (kept @ dropped)" "kept \<noteq> []"
    and run: "processNewHeadersChain B s [] (toLocalInfo (last kept)) headers = Inr new"
    and chain: "successively (\<lambda>a b. btc_PrevBlock B b = btc_BlockHash B a) headers" "headers \<noteq> []"
      "btc_PrevBlock B (hd headers) = hi_Hash (last kept)"
    and bound: "unat (hi_Height (last (kept @ dropped))) + length headers < 2 ^ 32"
  shows "valid_chain B (kept @ map (toBTCHeaderInfo B) new) \<and> map lh_header new = headers \<and>
    hi_Work (last kept) < lh_totalWork (last new)"
proof -
  have hash: "hi_Hash (last kept) = btc_BlockHash B (hi_Header (last kept))"
    using assms(2,3) by (simp add: valid_chain_def)
  then have same: "toBTCHeaderInfo B (toLocalInfo (last kept)) = last kept"
    by (simp add: toBTCHeaderInfo_def toLocalInfo_def)
  have "unat (hi_Height (last kept)) + length headers < 2 ^ 32"
    using valid_chain_last_height [OF assms(2,3)] bound by (simp add: word_le_nat_alt)
  then have "map lh_header new = headers \<and> valid_chain B (last kept # map (toBTCHeaderInfo B) new) \<and>
    (\<forall>i\<in>set new. hi_Work (last kept) < lh_totalWork i)"
    using process_chain [OF assms(1) run] chain hash by (cases headers) (auto simp: same)
  moreover have "valid_chain B kept" using assms(2) by (simp add: valid_chain_append)
  ultimately show ?thesis using assms(3) chain(2)
    by (cases new) (auto simp: valid_chain_append valid_chain_def successively_append_iff)
qed

text \<open>The result of the light client, for a well-formed store: the kept chain, extended.\<close>

lemma InsertHeaders_chain:
  assumes "btcd_ok B" "lc_inv B s" "lc_InsertHeaders B s headers = Inr res"
    "unat (hi_Height (last (main_chain s))) + length headers < 2 ^ 32"
  obtains kept dropped where "main_chain s = kept @ dropped" "kept \<noteq> []" "valid_chain B (kept @ ir_HeadersToInsert res)"
    "map hi_Header (ir_HeadersToInsert res) = headers" "headers \<noteq> []"
    "hi_Work (last (main_chain s)) < hi_Work (last (ir_HeadersToInsert res))"
    "ir_RollbackInfo res = (if dropped = [] then None else Some \<lparr>rb_HeaderToRollbackTo = last kept\<rparr>)"
proof -
  let ?cs = "main_chain s" and ?L = "\<lambda>a b. btc_PrevBlock B b = btc_BlockHash B a"
  have inv: "?cs \<noteq> []" "valid_chain B ?cs" "stores s ?cs" using assms(2) by (simp_all add: lc_inv_def)
  note srt = valid_chain_heights [OF inv(2)] and dst = valid_chain_hashes [OF assms(1) inv(2)]
  have tip: "GetTip s = Some (last ?cs)" by (rule stores_tip [OF inv(3,1)])
  have hl: "btc_BlockHash B (hi_Header (last ?cs)) = hi_Hash (last ?cs)" using inv(1,2) by (simp add: valid_chain_def)
  obtain first rest where hs: "headers = first # rest" using assms(3) by (cases headers) (auto simp: lc_InsertHeaders_def)
  have chain: "successively ?L headers" "headers \<noteq> []"
    using assms(3) hs by (auto simp: lc_InsertHeaders_def headersFormChain_iff [OF assms(1)] guardR_eq_Inr)
  have infos: "map hi_Header (map (toBTCHeaderInfo B) new) = map lh_header new"
    "new \<noteq> [] \<Longrightarrow> hi_Work (last (map (toBTCHeaderInfo B) new)) = lh_totalWork (last new)" for new
    by (simp_all add: toBTCHeaderInfo_def last_map)
  show thesis
  proof (cases "btc_PrevBlock B first = hi_Hash (last ?cs)")
    case True
    then obtain new where run: "processNewHeadersChain B s [] (toLocalInfo (last ?cs)) headers = Inr new"
      and res: "res = \<lparr>ir_HeadersToInsert = map (toBTCHeaderInfo B) new, ir_RollbackInfo = None\<rparr>"
      using assms(3) hs tip hl by (auto simp: lc_InsertHeaders_def result_simps Let_def simp del: processNewHeadersChain.simps)
    have *: "valid_chain B (?cs @ map (toBTCHeaderInfo B) new) \<and> map lh_header new = headers \<and>
      hi_Work (last ?cs) < lh_totalWork (last new)"
      by (rule process_from [OF assms(1) _ inv(1) run chain, where dropped = "[]"]) (use inv(2) True hs assms(4) in simp_all)
    then have "new \<noteq> []" using chain(2) by auto
    with * show thesis by (intro that [of ?cs "[]"]) (use inv(1) chain(2) res infos in auto)
  next
    case False
    obtain p new where p: "GetHeaderByHash (btc_PrevBlock B first) s = Inr p"
      and run: "processNewHeadersChain B s [] (toLocalInfo p) headers = Inr new"
      and more: "hi_Work (last ?cs) < lh_totalWork (last new)"
      and res: "res = \<lparr>ir_HeadersToInsert = map (toBTCHeaderInfo B) new, ir_RollbackInfo = Some \<lparr>rb_HeaderToRollbackTo = p\<rparr>\<rparr>"
      using assms(3) hs tip hl False
      by (auto simp: lc_InsertHeaders_def result_simps Let_def simp del: processNewHeadersChain.simps split: sum.splits lc_error.splits)
    have pin: "p \<in> set ?cs \<and> btc_PrevBlock B first = hi_Hash p"
    proof (cases "btc_PrevBlock B first \<in> hi_Hash ` set ?cs")
      case True
      then show ?thesis using stores_hash(1) [OF inv(3) srt dst] p by auto
    next
      case False
      from stores_hash(2) [OF inv(3) srt dst this] p show ?thesis by simp
    qed
    then obtain ks ds where cs: "?cs = (ks @ [p]) @ ds" by (auto dest: split_list)
    have "ds \<noteq> []" using False pin cs by auto
    have *: "valid_chain B ((ks @ [p]) @ map (toBTCHeaderInfo B) new) \<and> map lh_header new = headers \<and>
      hi_Work (last (ks @ [p])) < lh_totalWork (last new)"
      by (rule process_from [OF assms(1) inv(2) [unfolded cs] _ _ chain]) (use run pin hs assms(4) cs in simp_all)
    then have "new \<noteq> []" using chain(2) by auto
    with * \<open>ds \<noteq> []\<close> show thesis by (intro that [OF cs]) (use chain(2) res infos more in auto)
  qed
qed

subsection \<open>The keeper on a well-formed store\<close>

lemma lc_invI:
  assumes "btcd_ok B" "stores s cs" "cs \<noteq> []" "valid_chain B cs"
  shows "lc_inv B s"
  using assms stores_main [OF assms(2)] by (simp add: lc_inv_def)

lemma insert_with_hooks_all:
  assumes "foldR (insert_with_hooks hook) w new = Inr w'"
  shows "lw_state w' = foldl (\<lambda>s h. insertHeader h s) (lw_state w) new \<and>
    lw_events w' = lw_events w @ concat (map (\<lambda>i. [EventBTCHeaderInserted i, EventBTCRollForward i]) new)"
  using assms
proof (induction new arbitrary: w)
  case (Cons h new)
  then obtain w1 where w1: "insert_with_hooks hook w h = Inr w1" "foldR (insert_with_hooks hook) w1 new = Inr w'"
    by (auto simp: result_simps)
  from w1(1) have "lw_state w1 = insertHeader h (lw_state w) \<and>
    lw_events w1 = lw_events w @ [EventBTCHeaderInserted h, EventBTCRollForward h]"
    by (auto simp: insert_with_hooks_def lc_call_hook_def result_simps)
  with Cons.IH [OF w1(2)] show ?case by simp
qed simp

lemma rollback_trigger:
  assumes "triggerRollBack hook (Some from) to w = Inr w'"
  shows "lw_state w' = lw_state w \<and> lw_events w' = lw_events w @ [EventBTCRollBack from to]"
  using assms by (auto simp: triggerRollBack_def lc_call_hook_def result_simps split: sum.splits)

text \<open>An accepted list of headers keeps a prefix of the chain and puts the new headers after it.\<close>

lemma insert_outcome:
  assumes "btcd_ok B" "lc_inv B (lw_state w)" "InsertHeadersWithHookAndEvents B hook headers w = Inr w'"
    "unat (hi_Height (last (main_chain (lw_state w)))) + length headers < 2 ^ 32"
  obtains kept dropped new where "main_chain (lw_state w) = kept @ dropped" "main_chain (lw_state w') = kept @ new"
    "kept \<noteq> []" "new \<noteq> []" "lc_inv B (lw_state w')" "map hi_Header new = headers"
    "hi_Work (last (kept @ dropped)) < hi_Work (last new)"
    "lw_events w' = lw_events w @ (if dropped = [] then [] else [EventBTCRollBack (last dropped) (last kept)]) @
       concat (map (\<lambda>i. [EventBTCHeaderInserted i, EventBTCRollForward i]) new)"
proof -
  let ?s = "lw_state w"
  obtain res where res: "lc_InsertHeaders B ?s headers = Inr res" "triggerEventAndHandleHooksHandler hook res w = Inr w'"
    using assms(3) by (auto simp: InsertHeadersWithHookAndEvents_def result_simps)
  obtain kept dropped where k: "main_chain ?s = kept @ dropped" "kept \<noteq> []" "valid_chain B (kept @ ir_HeadersToInsert res)"
    "map hi_Header (ir_HeadersToInsert res) = headers" "headers \<noteq> []"
    "hi_Work (last (main_chain ?s)) < hi_Work (last (ir_HeadersToInsert res))"
    "ir_RollbackInfo res = (if dropped = [] then None else Some \<lparr>rb_HeaderToRollbackTo = last kept\<rparr>)"
    by (rule InsertHeaders_chain [OF assms(1,2) res(1) assms(4)])
  let ?new = "ir_HeadersToInsert res"
  have inv: "valid_chain B (kept @ dropped)" "stores ?s (kept @ dropped)" using assms(2) k(1) by (simp_all add: lc_inv_def)
  have tip: "GetTip ?s = Some (last (kept @ dropped))" by (rule stores_tip [OF inv(2)]) (use k(2) in simp)
  obtain w1 where w1: "stores (lw_state w1) kept" "foldR (insert_with_hooks hook) w1 ?new = Inr w'"
    "lw_events w1 = lw_events w @ (if dropped = [] then [] else [EventBTCRollBack (last dropped) (last kept)])"
  proof (cases "dropped = []")
    case True
    then show thesis using that [of w] res(2) k(7) inv(2) by (simp add: triggerEventAndHandleHooksHandler_def)
  next
    case False
    obtain w1 where run: "foldR (insert_with_hooks hook) w1 ?new = Inr w'"
      "triggerRollBack hook (Some (last dropped)) (last kept) (w\<lparr>lw_state := rollBackHeadersUpTo (hi_Height (last kept)) ?s\<rparr>) = Inr w1"
      using res(2) k(7) False tip by (auto simp: triggerEventAndHandleHooksHandler_def result_simps Let_def)
    have "stores (rollBackHeadersUpTo (hi_Height (last kept)) ?s) kept"
      by (rule stores_rollback [OF inv(2) k(2) valid_chain_heights [OF inv(1)] valid_chain_hashes [OF assms(1) inv(1)]])
    then show thesis using that [of w1] rollback_trigger [OF run(2)] run(1) False by simp
  qed
  have st: "stores (lw_state w') (kept @ ?new)"
    using stores_insert_all [OF w1(1) valid_chain_heights [OF k(3)] valid_chain_hashes [OF assms(1) k(3)]]
      insert_with_hooks_all [OF w1(2)] by simp
  have inv': "lc_inv B (lw_state w')" by (rule lc_invI [OF assms(1) st _ k(3)]) (use k(2) in simp)
  have "?new \<noteq> []" using k(4,5) by auto
  then show thesis
    using that [OF k(1) stores_main [OF st] k(2) _ inv' k(4)] k(1,6) insert_with_hooks_all [OF w1(2)] w1(3) by simp
qed

lemma Msg_InsertHeaders_run:
  assumes "Msg_InsertHeaders B addr_of hook refund msg w = Inr w'"
  obtains w1 where "InsertHeadersWithHookAndEvents B hook (mih_Headers msg) w = Inr w1"
    "lw_state w' = lw_state w1" "lw_events w' = lw_events w1"
  using assms by (auto simp: Msg_InsertHeaders_def result_simps split: sum.splits option.splits)

lemma chain_heights:
  "valid_chain B (i # upper) \<Longrightarrow> unat (hi_Height (last (i # upper))) = unat (hi_Height i) + length upper"
  by (induction upper arbitrary: i) (auto simp: valid_chain_def follows_def)

lemma word_depth:
  assumes "unat (b :: u32) = unat a + n"
  shows "b - a = word_of_nat n"
proof -
  have "b = a + word_of_nat n" using arg_cong [OF assms, of "of_nat :: nat \<Rightarrow> u32"] by simp
  then show ?thesis by simp
qed

subsection \<open>Properties\<close>

text \<open>C7. The header store stays well-formed: setting the base header of an empty store, a message with
  headers, a direct insertion and a change of the parameters leave a chain from the base to the tip in which
  heights, previous hashes and cumulative work agree, and whose index by hash is exact.\<close>

theorem light_client_wf:
  assumes "btcd_ok B"
  shows "(lc_headers s = [] \<and> lc_hashToHeight s = Map.empty \<and> hi_Hash base = btc_BlockHash B (hi_Header base) \<longrightarrow>
      (\<exists>s'. SetBaseBTCHeader base s = Inr s' \<and> lc_inv B s' \<and> main_chain s' = [base])) \<and>
    (lc_inv B (lw_state w) \<and> unat (hi_Height (last (main_chain (lw_state w)))) + length (mih_Headers msg) < 2 ^ 32 \<and>
      Msg_InsertHeaders B addr_of hook refund msg w = Inr w' \<longrightarrow> lc_inv B (lw_state w')) \<and>
    (lc_inv B s1 \<and> unat (hi_Height (last (main_chain s1))) + length headers < 2 ^ 32 \<and>
      Keeper_InsertHeaders B headers s1 = Inr s1' \<longrightarrow> lc_inv B s1') \<and>
    (lc_inv B s1 \<and> lc_UpdateParams addr_of authority reqAuthority p s1 = Inr s1' \<longrightarrow> lc_inv B s1')"
proof (intro conjI impI)
  assume s: "lc_headers s = [] \<and> lc_hashToHeight s = Map.empty \<and> hi_Hash base = btc_BlockHash B (hi_Header base)"
  have "stores (insertHeader base s) [base]" using s by (simp add: stores_def insertHeader_def)
  moreover from this have "lc_inv B (insertHeader base s)"
    by (rule lc_invI [OF assms]) (use s in \<open>simp_all add: valid_chain_def\<close>)
  moreover have "BaseHeader s = None" using s by (simp add: BaseHeader_def IterateForwardHeaders_def)
  ultimately show "\<exists>s'. SetBaseBTCHeader base s = Inr s' \<and> lc_inv B s' \<and> main_chain s' = [base]"
    by (simp add: SetBaseBTCHeader_def stores_main)
next
  assume a: "lc_inv B (lw_state w) \<and> unat (hi_Height (last (main_chain (lw_state w)))) + length (mih_Headers msg) < 2 ^ 32 \<and>
      Msg_InsertHeaders B addr_of hook refund msg w = Inr w'"
  then obtain w1 where w1: "InsertHeadersWithHookAndEvents B hook (mih_Headers msg) w = Inr w1" "lw_state w' = lw_state w1"
    using Msg_InsertHeaders_run by blast
  show "lc_inv B (lw_state w')" unfolding w1(2) by (rule insert_outcome [OF assms _ w1(1)]) (use a in simp_all)
next
  assume a: "lc_inv B s1 \<and> unat (hi_Height (last (main_chain s1))) + length headers < 2 ^ 32 \<and>
      Keeper_InsertHeaders B headers s1 = Inr s1'"
  then obtain res where res: "lc_InsertHeaders B s1 headers = Inr res" "ir_RollbackInfo res = None"
    "s1' = foldl (\<lambda>s h. insertHeader h s) s1 (ir_HeadersToInsert res)"
    by (auto simp: Keeper_InsertHeaders_def insertHandler_def result_simps)
  obtain kept dropped where k: "main_chain s1 = kept @ dropped" "kept \<noteq> []" "valid_chain B (kept @ ir_HeadersToInsert res)"
    "ir_RollbackInfo res = (if dropped = [] then None else Some \<lparr>rb_HeaderToRollbackTo = last kept\<rparr>)"
    using a by (blast elim: InsertHeaders_chain [OF assms _ res(1)])
  have "dropped = []" using k(4) res(2) by (auto split: if_splits)
  then have "stores s1 kept" using a k(1) by (simp add: lc_inv_def)
  from stores_insert_all [OF this valid_chain_heights [OF k(3)] valid_chain_hashes [OF assms k(3)]]
  show "lc_inv B s1'" unfolding res(3) by (rule lc_invI [OF assms]) (use k(2,3) in simp_all)
next
  assume "lc_inv B s1 \<and> lc_UpdateParams addr_of authority reqAuthority p s1 = Inr s1'"
  then show "lc_inv B s1'"
    by (auto simp: lc_UpdateParams_def lc_SetParams_def result_simps lc_inv_def stores_def main_chain_def split: sum.splits)
qed

text \<open>C8. Fork choice: an accepted message keeps a non-empty prefix of the chain, replaces what follows by
  exactly the given headers, and the new tip has strictly more work than the old one. Hooks and events are
  told of a rollback exactly when headers were dropped, and of every new header in order.\<close>

theorem light_client_fork_choice:
  assumes "btcd_ok B" "lc_inv B (lw_state w)" "Msg_InsertHeaders B addr_of hook refund msg w = Inr w'"
    "unat (hi_Height (last (main_chain (lw_state w)))) + length (mih_Headers msg) < 2 ^ 32"
  shows "\<exists>kept dropped new. main_chain (lw_state w) = kept @ dropped \<and> kept \<noteq> [] \<and>
    main_chain (lw_state w') = kept @ new \<and> map hi_Header new = mih_Headers msg \<and>
    hi_Work (last (main_chain (lw_state w))) < hi_Work (last (main_chain (lw_state w'))) \<and>
    lw_events w' = lw_events w @ (if dropped = [] then [] else [EventBTCRollBack (last dropped) (last kept)]) @
      concat (map (\<lambda>i. [EventBTCHeaderInserted i, EventBTCRollForward i]) new)"
proof -
  obtain w1 where w1: "InsertHeadersWithHookAndEvents B hook (mih_Headers msg) w = Inr w1"
    "lw_state w' = lw_state w1" "lw_events w' = lw_events w1"
    by (rule Msg_InsertHeaders_run [OF assms(3)])
  show ?thesis
    by (rule insert_outcome [OF assms(1,2) w1(1) assms(4)]) (unfold w1(2,3), intro exI conjI, assumption+, simp_all)
qed

text \<open>C14. The depth of a header: for a header of the chain it is the number of headers above it, so that each
  header that extends the chain adds one; any other hash is reported as unknown. Neither panics.\<close>

theorem main_chain_depth:
  assumes "btcd_ok B" "lc_inv B s"
  shows "(\<forall>below i upper. main_chain s = below @ i # upper \<longrightarrow>
      MainChainDepth (Some (hi_Hash i)) s = Inr (word_of_nat (length upper))) \<and>
    (\<forall>hash. hash \<notin> hi_Hash ` set (main_chain s) \<longrightarrow> MainChainDepth (Some hash) s = Inl ErrHeaderDoesNotExist)"
proof (intro conjI allI impI)
  let ?cs = "main_chain s"
  have inv: "?cs \<noteq> []" "valid_chain B ?cs" "stores s ?cs" using assms(2) by (simp_all add: lc_inv_def)
  note look = stores_hash [OF inv(3) valid_chain_heights [OF inv(2)] valid_chain_hashes [OF assms(1) inv(2)]]
  have tip: "GetTip s = Some (last ?cs)" by (rule stores_tip [OF inv(3,1)])
  { fix below i upper assume cs: "?cs = below @ i # upper"
    have "unat (hi_Height (last (i # upper))) = unat (hi_Height i) + length upper"
      using inv(2) cs chain_heights [of B i upper] by (simp add: valid_chain_append)
    then have "hi_Height i \<le> hi_Height (last ?cs)" "hi_Height (last ?cs) - hi_Height i = word_of_nat (length upper)"
      using cs by (simp_all add: word_le_nat_alt word_depth)
    then show "MainChainDepth (Some (hi_Hash i)) s = Inr (word_of_nat (length upper))"
      using look(1) [of i] tip cs by (auto simp: MainChainDepth_def guardR_def not_less [symmetric]) }
  fix hash assume "hash \<notin> hi_Hash ` set ?cs"
  from look(2) [OF this] show "MainChainDepth (Some hash) s = Inl ErrHeaderDoesNotExist"
    by (simp add: MainChainDepth_def)
qed

subsection \<open>A reorganisation\<close>

text \<open>A header is the word of the choices since the base header, and a hash the same word with a mark. A chain of
  two headers at heights five and six is given a longer fork.\<close>

definition word_btcd :: "string btcd" where
  "word_btcd = \<lparr>btc_BlockHash = (\<lambda>b. CHR ''h'' # b), btc_PrevBlock = (\<lambda>b. case b of [] \<Rightarrow> [] | _ # s \<Rightarrow> CHR ''h'' # s),
     btc_Bits = (\<lambda>_. 1), btc_Timestamp = (\<lambda>_. 0), btc_CalcWork = (\<lambda>_. 1),
     btc_CheckBlockHeaderContext = (\<lambda>_ p anc. bindR (anc p 1) (\<lambda>_. Inr True)), btc_CheckBlockHeaderSanity = (\<lambda>_. True)\<rparr>"

definition word_info :: "string \<Rightarrow> u32 \<Rightarrow> nat \<Rightarrow> string BTCHeaderInfo" where
  "word_info b height work = \<lparr>hi_Header = b, hi_Hash = CHR ''h'' # b, hi_Height = height, hi_Work = work\<rparr>"

definition word_chain :: "string lc_state" where
  "word_chain = (let cs = [word_info [] 5 1, word_info ''a'' 6 2] in
     \<lparr>lc_headers = map (\<lambda>i. (hi_Height i, i)) cs, lc_hashToHeight = map_of (map (\<lambda>i. (hi_Hash i, hi_Height i)) cs),
       lc_InsertHeadersAllowList = []\<rparr>)"

definition word_result :: "lc_error + (string, unit) lc_world" where
  "word_result = Msg_InsertHeaders word_btcd Some (\<lambda>_ x. Inr x) (\<lambda>_ x. x)
     \<lparr>mih_Signer = ''r'', mih_Headers = [''b'', ''cb'']\<rparr> \<lparr>lw_state = word_chain, lw_ext = (), lw_events = []\<rparr>"

lemma word_btcd_ok: "btcd_ok word_btcd"
  unfolding btcd_ok_def
  by (intro conjI exI [of _ length]) (auto simp: word_btcd_def emptyHash_def numeral_eq_Suc split: list.splits)

lemma word_chain_main: "main_chain word_chain = [word_info [] 5 1, word_info ''a'' 6 2]"
  by (simp add: word_chain_def main_chain_def)

lemma word_chain_inv: "lc_inv word_btcd word_chain"
  by (rule lc_invI [OF word_btcd_ok, of _ "[word_info [] 5 1, word_info ''a'' 6 2]"])
    (simp_all add: stores_def word_chain_def valid_chain_def follows_def word_info_def word_btcd_def)

lemma word_result_ok: "case word_result of Inl _ \<Rightarrow> False | Inr w \<Rightarrow>
    map hi_Header (main_chain (lw_state w)) = [[], ''b'', ''cb'']"
  by code_simp

theorem light_client_wf_witness:
  "\<exists>w. word_result = Inr w \<and> lc_inv word_btcd (lw_state w)"
proof -
  obtain w where w: "word_result = Inr w" using word_result_ok by (auto split: sum.splits)
  have "lc_inv word_btcd (lw_state w)"
    using light_client_wf [OF word_btcd_ok, THEN conjunct2, THEN conjunct1, THEN mp, OF conjI, OF _ conjI,
        OF _ _ w [unfolded word_result_def]] word_chain_inv by (simp add: word_chain_main word_info_def)
  with w show ?thesis by blast
qed

theorem light_client_fork_choice_witness:
  "\<exists>w. word_result = Inr w \<and> hi_Work (last (main_chain word_chain)) < hi_Work (last (main_chain (lw_state w)))"
proof -
  obtain w where w: "word_result = Inr w" using word_result_ok by (auto split: sum.splits)
  show ?thesis
    using light_client_fork_choice [OF word_btcd_ok _ w [unfolded word_result_def]] w word_chain_inv
    by (auto simp: word_chain_main word_info_def)
qed

theorem main_chain_depth_witness:
  "MainChainDepth (Some ''h'') word_chain = Inr 1 \<and> MainChainDepth (Some ''hx'') word_chain = Inl ErrHeaderDoesNotExist"
proof
  show "MainChainDepth (Some ''h'') word_chain = Inr 1"
    using main_chain_depth [OF word_btcd_ok word_chain_inv, THEN conjunct1, rule_format, of "[]" "word_info [] 5 1" "[word_info ''a'' 6 2]"]
    by (simp add: word_chain_main word_info_def)
  show "MainChainDepth (Some ''hx'') word_chain = Inl ErrHeaderDoesNotExist"
    using main_chain_depth [OF word_btcd_ok word_chain_inv, THEN conjunct2, rule_format, of "''hx''"]
    by (simp add: word_chain_main word_info_def)
qed

end
