(* ===== verification/Checkpoint_Format.thy ===== *)
theory Checkpoint_Format
  imports Prelude
begin

text \<open>
  The format of a checkpoint on Bitcoin (\<open>btctxformatter/formatter.go\<close>): a checkpoint is written into the
  \<open>OP_RETURN\<close> data of two transactions, which are recognised by a tag and joined by a checksum.
  The hash function is the parameter \<open>sha256\<close>.
\<close>

unbundle bit_operations_syntax

type_synonym u8 = "8 word"

datatype format_error =
    FormatErrorf string
  | FormatPanic string

record RawBtcCheckpoint =
  rc_Epoch :: u64
  rc_BlockHash :: bytes
  rc_BitMap :: bytes
  rc_SubmitterAddress :: bytes
  rc_BlsSig :: bytes

record formatHeader =
  fh_tag :: bytes
  fh_version :: u8
  fh_part :: u8

record BabylonData =
  bd_Data :: bytes
  bd_Index :: u8

definition TagLength :: nat where "TagLength = 4"
definition CurrentVersion :: u8 where "CurrentVersion = 0"
definition firstPartIndex :: u8 where "firstPartIndex = 0"
definition secondPartIndex :: u8 where "secondPartIndex = 1"
definition headerLength :: nat where "headerLength = TagLength + 1"
definition BlockHashLength :: nat where "BlockHashLength = 32"
definition BitMapLength :: nat where "BitMapLength = 13"
definition AddressLength :: nat where "AddressLength = 20"
definition NumberOfParts :: u8 where "NumberOfParts = 2"
definition firstPartHashLength :: nat where "firstPartHashLength = 10"
definition BlsSigLength :: nat where "BlsSigLength = 48"
definition EpochLength :: nat where "EpochLength = 8"
definition firstPartLength :: nat where
  "firstPartLength = headerLength + BlockHashLength + AddressLength + EpochLength + BitMapLength"
definition secondPartLength :: nat where
  "secondPartLength = headerLength + BlsSigLength + firstPartHashLength"
definition RawBTCCheckpointLength :: nat where
  "RawBTCCheckpointLength = EpochLength + BlockHashLength + BitMapLength + BlsSigLength + AddressLength"

lemmas format_lengths = TagLength_def headerLength_def BlockHashLength_def BitMapLength_def AddressLength_def
  firstPartHashLength_def BlsSigLength_def EpochLength_def firstPartLength_def secondPartLength_def
  RawBTCCheckpointLength_def

subsection \<open>Encoding\<close>

text \<open>A byte in a slice is a character.\<close>

definition byte_of :: "u8 \<Rightarrow> char" where
  "byte_of w = char_of (unat w)"

definition u8_of :: "char \<Rightarrow> u8" where
  "u8_of c = word_of_nat (of_char c)"

definition getVerHalf :: "u8 \<Rightarrow> u8 \<Rightarrow> u8" where
  "getVerHalf version halfNumber =
     (let verHalf = 0;
          verHalf = (verHalf AND 0xf0) OR (version AND 0xf)
      in (verHalf AND 0xf) OR push_bit 4 halfNumber)"

definition encodeHeader :: "bytes \<Rightarrow> u8 \<Rightarrow> u8 \<Rightarrow> bytes" where
  "encodeHeader tag version halfNumber = tag @ [byte_of (getVerHalf version halfNumber)]"

definition U64ToBEBytes :: "u64 \<Rightarrow> bytes" where
  "U64ToBEBytes u = map (\<lambda>i. char_of (unat u div 256 ^ (7 - i) mod 256)) [0..<8]"

definition encodeFirstOpRetrun :: "bytes \<Rightarrow> u8 \<Rightarrow> u64 \<Rightarrow> bytes \<Rightarrow> bytes \<Rightarrow> bytes \<Rightarrow> bytes" where
  "encodeFirstOpRetrun tag version epoch appHash bitMap submitterAddress =
     encodeHeader tag version firstPartIndex @ U64ToBEBytes epoch @ appHash @ bitMap @ submitterAddress"

definition getCheckSum :: "(bytes \<Rightarrow> bytes) \<Rightarrow> bytes \<Rightarrow> bytes" where
  "getCheckSum sha256 firstTxBytes = take firstPartHashLength (sha256 firstTxBytes)"

definition encodeSecondOpReturn :: "(bytes \<Rightarrow> bytes) \<Rightarrow> bytes \<Rightarrow> u8 \<Rightarrow> bytes \<Rightarrow> bytes \<Rightarrow> bytes" where
  "encodeSecondOpReturn sha256 tag version firstOpReturnBytes blsSig =
     encodeHeader tag version secondPartIndex @ blsSig @ getCheckSum sha256 (drop headerLength firstOpReturnBytes)"

definition EncodeCheckpointData ::
  "(bytes \<Rightarrow> bytes) \<Rightarrow> bytes \<Rightarrow> u8 \<Rightarrow> RawBtcCheckpoint \<Rightarrow> format_error + bytes \<times> bytes" where
  "EncodeCheckpointData sha256 tag version raw =
     guardR (length tag \<noteq> TagLength) (FormatErrorf ''tag should have 4 bytes'')
    (guardR (version > CurrentVersion) (FormatErrorf ''invalid format version'')
    (guardR (length (rc_BlockHash raw) \<noteq> BlockHashLength) (FormatErrorf ''appHash should have 32 bytes'')
    (guardR (length (rc_BitMap raw) \<noteq> BitMapLength) (FormatErrorf ''bitmap should have 13 bytes'')
    (guardR (length (rc_BlsSig raw) \<noteq> BlsSigLength) (FormatErrorf ''BlsSig should have 48 bytes'')
    (guardR (length (rc_SubmitterAddress raw) \<noteq> AddressLength) (FormatErrorf ''address should have 20 bytes'')
    (let firstHalf = encodeFirstOpRetrun tag version (rc_Epoch raw) (rc_BlockHash raw) (rc_BitMap raw) (rc_SubmitterAddress raw);
         secondHalf = encodeSecondOpReturn sha256 tag version firstHalf (rc_BlsSig raw)
     in Inr (firstHalf, secondHalf)))))))"

definition MustEncodeCheckpointData where
  "MustEncodeCheckpointData sha256 tag version raw =
     (case EncodeCheckpointData sha256 tag version raw of Inl _ \<Rightarrow> Inl (FormatPanic ''encode'') | Inr fs \<Rightarrow> Inr fs)"

subsection \<open>Decoding\<close>

text \<open>The callers check the length first; a shorter slice would panic.\<close>

definition parseHeader :: "bytes \<Rightarrow> format_error + formatHeader" where
  "parseHeader data =
     guardR (length data < headerLength) (FormatPanic ''slice bounds out of range'')
    (let verHalf = u8_of (data ! TagLength)
     in Inr \<lparr>fh_tag = take TagLength data, fh_version = verHalf AND 0xf, fh_part = drop_bit 4 verHalf\<rparr>)"

definition validateHeader :: "formatHeader \<Rightarrow> bytes \<Rightarrow> u8 \<Rightarrow> format_error + unit" where
  "validateHeader header expectedTag expectedPart =
     guardR (fh_tag header \<noteq> expectedTag) (FormatErrorf ''data does not have expected tag'')
    (guardR (fh_version header > CurrentVersion) (FormatErrorf ''header have invalid version'')
    (guardR (fh_part header \<noteq> expectedPart) (FormatErrorf ''header have invalid part number'')
    (Inr ())))"

definition GetCheckpointData :: "bytes \<Rightarrow> u8 \<Rightarrow> u8 \<Rightarrow> bytes \<Rightarrow> format_error + bytes" where
  "GetCheckpointData tag version partIndex data =
     guardR (partIndex > 1) (FormatErrorf ''invalid part index'')
    (guardR (version > CurrentVersion) (FormatErrorf ''not supported version'')
    (guardR (partIndex = 0 \<and> length data \<noteq> firstPartLength) (FormatErrorf ''invalid length. First part should have 77 bytes'')
    (guardR (partIndex = 1 \<and> length data \<noteq> secondPartLength) (FormatErrorf ''invalid length. First part should have 62 bytes'')
    (bindR (parseHeader data) (\<lambda>header.
     bindR (validateHeader header tag partIndex) (\<lambda>_.
     Inr (drop headerLength data)))))))"

text \<open>The loop over the index of the part, an \<open>uint8\<close>.\<close>

function find_part :: "bytes \<Rightarrow> u8 \<Rightarrow> bytes \<Rightarrow> u8 \<Rightarrow> format_error + BabylonData" where
  "find_part tag version data idx =
     (if idx < NumberOfParts
      then case GetCheckpointData tag version idx data of
          Inr d \<Rightarrow> Inr \<lparr>bd_Data = d, bd_Index = idx\<rparr>
        | Inl (FormatPanic p) \<Rightarrow> Inl (FormatPanic p)
        | Inl _ \<Rightarrow> find_part tag version data (idx + 1)
      else Inl (FormatErrorf ''not valid babylon data''))"
  by pat_completeness auto
termination
proof (relation "measure (\<lambda>(_, _, _, idx). 2 - unat idx)", goal_cases)
  case (2 tag version data idx err msg)
  then have "unat idx < 2" by (simp add: NumberOfParts_def word_less_nat_alt)
  then show ?case by (simp add: unat_word_ariths)
qed simp

definition IsBabylonCheckpointData :: "bytes \<Rightarrow> u8 \<Rightarrow> bytes \<Rightarrow> format_error + BabylonData" where
  "IsBabylonCheckpointData tag version data = find_part tag version data 0"

definition BEBytesToU64 :: "bytes \<Rightarrow> u64" where
  "BEBytesToU64 bs = foldl (\<lambda>a c. a * 256 + word_of_nat (of_char c)) 0 bs"

definition DecodeRawCheckpoint :: "u8 \<Rightarrow> bytes \<Rightarrow> format_error + RawBtcCheckpoint" where
  "DecodeRawCheckpoint version btcCkptBytes =
     guardR (version > CurrentVersion) (FormatErrorf ''not supported version'')
    (guardR (length btcCkptBytes \<noteq> RawBTCCheckpointLength) (FormatErrorf ''invalid raw checkpoint data length'')
    (let (epochBytes, b) = (take EpochLength btcCkptBytes, drop EpochLength btcCkptBytes);
         (appHashBytes, b) = (take BlockHashLength b, drop BlockHashLength b);
         (bitmapBytes, b) = (take BitMapLength b, drop BitMapLength b);
         (addressBytes, b) = (take AddressLength b, drop AddressLength b);
         blsSigBytes = take BlsSigLength b
     in Inr \<lparr>rc_Epoch = BEBytesToU64 epochBytes, rc_BlockHash = appHashBytes, rc_BitMap = bitmapBytes,
          rc_SubmitterAddress = addressBytes, rc_BlsSig = blsSigBytes\<rparr>))"

definition ConnectParts :: "(bytes \<Rightarrow> bytes) \<Rightarrow> u8 \<Rightarrow> bytes \<Rightarrow> bytes \<Rightarrow> format_error + bytes" where
  "ConnectParts sha256 version f s =
     guardR (version > CurrentVersion) (FormatErrorf ''not supported version'')
    (guardR (length f \<noteq> firstPartLength - headerLength) (FormatErrorf ''not valid first part'')
    (guardR (length s \<noteq> secondPartLength - headerLength) (FormatErrorf ''not valid second part'')
    (let firstHash = sha256 f;
         hashStartIdx = length s - firstPartHashLength;
         expectedHash = drop hashStartIdx s
     in guardR (take firstPartHashLength firstHash \<noteq> expectedHash) (FormatErrorf ''parts do not connect'')
       (Inr (f @ take hashStartIdx s)))))"

subsection \<open>Bytes\<close>

lemma byte_roundtrip [simp]: "u8_of (byte_of w) = w"
proof -
  have "unat w < 256" using unsigned_less [of w] by simp
  then show ?thesis by (simp add: u8_of_def byte_of_def of_char_of)
qed

lemma be_bytes_prefix:
  assumes "(n :: nat) < 256 ^ 8" "k \<le> 8"
  shows "foldl (\<lambda>a c. a * 256 + of_char c) 0 (map (\<lambda>i. char_of (n div 256 ^ (7 - i) mod 256)) [0..<k]) = n div 256 ^ (8 - k)"
  using assms(2)
proof (induction k)
  case 0
  then show ?case using assms(1) by simp
next
  case (Suc k)
  have "8 - k = Suc (7 - k)" using Suc.prems by simp
  then have "n div 256 ^ (8 - k) * 256 + n div 256 ^ (7 - k) mod 256 = n div 256 ^ (7 - k)"
    by (simp add: mult.commute [of 256] div_mult2_eq)
  then show ?case using Suc by (simp add: of_char_of)
qed

lemma word_of_foldl:
  "foldl (\<lambda>a c. a * 256 + word_of_nat (of_char c)) (word_of_nat n :: u64) bs =
    word_of_nat (foldl (\<lambda>a c. a * 256 + of_char c) n bs)"
proof (induction bs arbitrary: n)
  case (Cons c bs)
  from Cons.IH [of "n * 256 + of_char c"] show ?case by simp
qed simp

lemma be_bytes_roundtrip [simp]: "BEBytesToU64 (U64ToBEBytes u) = u"
proof -
  have "unat u < 256 ^ 8" using unsigned_less [of u] by simp
  from be_bytes_prefix [OF this, of 8] show ?thesis
    using word_of_foldl [of 0 "U64ToBEBytes u"] by (simp add: BEBytesToU64_def U64ToBEBytes_def)
qed

lemma length_be_bytes [simp]: "length (U64ToBEBytes u) = 8"
  by (simp add: U64ToBEBytes_def)

lemma verHalf_fields:
  assumes "version \<le> CurrentVersion" "half = 0 \<or> half = 1"
  shows "getVerHalf version half AND 0xf = version" "drop_bit 4 (getVerHalf version half) = half"
proof -
  have "version = 0" using assms(1) by (simp add: CurrentVersion_def)
  then show "getVerHalf version half AND 0xf = version" "drop_bit 4 (getVerHalf version half) = half"
    using assms(2) by (auto simp: getVerHalf_def)
qed

subsection \<open>Encoded parts\<close>

lemma encodeHeader_length [simp]: "length (encodeHeader tag version half) = Suc (length tag)"
  by (simp add: encodeHeader_def)

lemma parse_encoded_header:
  assumes "length tag = TagLength" "version \<le> CurrentVersion" "half = 0 \<or> half = 1"
  shows "parseHeader (encodeHeader tag version half @ body) = Inr \<lparr>fh_tag = tag, fh_version = version, fh_part = half\<rparr>"
  using assms by (simp add: parseHeader_def encodeHeader_def headerLength_def nth_append verHalf_fields)

text \<open>A part under a header is recognised exactly at its own index.\<close>

lemma GetCheckpointData_encoded:
  assumes "length tag = TagLength" "version \<le> CurrentVersion" "half = 0 \<or> half = 1"
    and len: "length body = (if half = 0 then firstPartLength else secondPartLength) - headerLength"
  shows "GetCheckpointData tag version half (encodeHeader tag version half @ body) = Inr body"
    and "half = 1 \<Longrightarrow> \<exists>e. GetCheckpointData tag version 0 (encodeHeader tag version half @ body) = Inl (FormatErrorf e)"
proof -
  have total: "length (encodeHeader tag version half @ body) = (if half = 0 then firstPartLength else secondPartLength)"
    using assms(1) len by (auto simp: format_lengths)
  show "GetCheckpointData tag version half (encodeHeader tag version half @ body) = Inr body"
    using assms(1-3) total
    by (auto simp: GetCheckpointData_def parse_encoded_header validateHeader_def guardR_def CurrentVersion_def headerLength_def)
  show "\<exists>e. GetCheckpointData tag version 0 (encodeHeader tag version half @ body) = Inl (FormatErrorf e)" if "half = 1"
    using assms(2) total that by (auto simp: GetCheckpointData_def guardR_def format_lengths)
qed

lemma EncodeCheckpointData_Inr:
  "EncodeCheckpointData sha256 tag version raw = Inr (f, s) \<longleftrightarrow>
    length tag = TagLength \<and> version \<le> CurrentVersion \<and> length (rc_BlockHash raw) = BlockHashLength \<and>
    length (rc_BitMap raw) = BitMapLength \<and> length (rc_BlsSig raw) = BlsSigLength \<and>
    length (rc_SubmitterAddress raw) = AddressLength \<and>
    f = encodeFirstOpRetrun tag version (rc_Epoch raw) (rc_BlockHash raw) (rc_BitMap raw) (rc_SubmitterAddress raw) \<and>
    s = encodeSecondOpReturn sha256 tag version f (rc_BlsSig raw)"
  by (auto simp: EncodeCheckpointData_def guardR_eq_Inr Let_def)

text \<open>C12. A checkpoint survives Bitcoin: what \<open>EncodeCheckpointData\<close> writes into two transactions is recognised as
  its first and its second part, the parts connect, and decoding them gives the checkpoint back.\<close>

theorem checkpoint_roundtrip:
  assumes "\<And>bs. length (sha256 bs) = 32" "EncodeCheckpointData sha256 tag version raw = Inr (f, s)"
  shows "\<exists>d1 d2 bs. IsBabylonCheckpointData tag version f = Inr \<lparr>bd_Data = d1, bd_Index = 0\<rparr> \<and>
    IsBabylonCheckpointData tag version s = Inr \<lparr>bd_Data = d2, bd_Index = 1\<rparr> \<and>
    ConnectParts sha256 version d1 d2 = Inr bs \<and> DecodeRawCheckpoint version bs = Inr raw"
proof -
  note enc = assms(2) [unfolded EncodeCheckpointData_Inr]
  define d1 where "d1 = U64ToBEBytes (rc_Epoch raw) @ rc_BlockHash raw @ rc_BitMap raw @ rc_SubmitterAddress raw"
  define d2 where "d2 = rc_BlsSig raw @ getCheckSum sha256 d1"
  have f: "f = encodeHeader tag version 0 @ d1" using enc by (simp add: encodeFirstOpRetrun_def firstPartIndex_def d1_def)
  have s: "s = encodeHeader tag version 1 @ d2"
    using enc f by (simp add: encodeSecondOpReturn_def secondPartIndex_def d2_def headerLength_def)
  have len: "length d1 = firstPartLength - headerLength" "length d2 = secondPartLength - headerLength"
    using enc assms(1) by (simp_all add: d1_def d2_def getCheckSum_def format_lengths)
  have tag: "length tag = TagLength" "version \<le> CurrentVersion" using enc by simp_all
  have ver: "\<not> CurrentVersion < version" using tag(2) by (simp add: not_less)
  have "IsBabylonCheckpointData tag version f = Inr \<lparr>bd_Data = d1, bd_Index = 0\<rparr>"
    unfolding IsBabylonCheckpointData_def f
    by (subst find_part.simps) (use GetCheckpointData_encoded(1) [OF tag, of 0 d1] len(1) in \<open>simp add: NumberOfParts_def\<close>)
  moreover have "IsBabylonCheckpointData tag version s = Inr \<lparr>bd_Data = d2, bd_Index = 1\<rparr>"
  proof -
    obtain e where "GetCheckpointData tag version 0 s = Inl (FormatErrorf e)"
      using GetCheckpointData_encoded(2) [OF tag, of 1 d2] len(2) s by auto
    moreover have "GetCheckpointData tag version 1 s = Inr d2"
      using GetCheckpointData_encoded(1) [OF tag, of 1 d2] len(2) s by simp
    ultimately show ?thesis
      unfolding IsBabylonCheckpointData_def
      by (subst find_part.simps, subst find_part.simps) (simp add: NumberOfParts_def del: find_part.simps)
  qed
  moreover have "ConnectParts sha256 version d1 d2 = Inr (d1 @ rc_BlsSig raw)"
    using len ver enc assms(1)
    by (simp add: ConnectParts_def d2_def getCheckSum_def format_lengths guardR_def Let_def)
  moreover have "DecodeRawCheckpoint version (d1 @ rc_BlsSig raw) = Inr raw"
    using enc ver by (simp add: DecodeRawCheckpoint_def d1_def format_lengths guardR_def)
  ultimately show ?thesis by blast
qed

definition sample_raw :: RawBtcCheckpoint where
  "sample_raw = \<lparr>rc_Epoch = 300, rc_BlockHash = replicate 32 CHR ''b'', rc_BitMap = replicate 13 CHR ''m'',
     rc_SubmitterAddress = replicate 20 CHR ''a'', rc_BlsSig = replicate 48 CHR ''s''\<rparr>"

theorem checkpoint_roundtrip_witness:
  "\<exists>f s d1 d2 bs. EncodeCheckpointData (\<lambda>b. replicate 32 (hd (b @ ''x''))) ''bbnt'' 0 sample_raw = Inr (f, s) \<and>
    IsBabylonCheckpointData ''bbnt'' 0 s = Inr \<lparr>bd_Data = d2, bd_Index = 1\<rparr> \<and>
    ConnectParts (\<lambda>b. replicate 32 (hd (b @ ''x''))) 0 d1 d2 = Inr bs \<and> DecodeRawCheckpoint 0 bs = Inr sample_raw"
proof -
  obtain f s where fs: "EncodeCheckpointData (\<lambda>b. replicate 32 (hd (b @ ''x''))) ''bbnt'' 0 sample_raw = Inr (f, s)"
    by (auto simp: EncodeCheckpointData_Inr sample_raw_def format_lengths CurrentVersion_def)
  from checkpoint_roundtrip [OF _ this] fs show ?thesis by fastforce
qed

end
