(* ===== verification/SPV_Proof.thy ===== *)
theory SPV_Proof
  imports Checkpoint_Format
begin

text \<open>
  Proofs that a Bitcoin block contains a transaction (\<open>x/btccheckpoint/types/btcutils.go\<close>): the Merkle branch of a
  transaction, its verification, and the \<open>OP_RETURN\<close> data of a proven transaction.

  Transactions and headers are values of the library \<open>btcd\<close>, of types \<open>'t\<close> and \<open>'b\<close>; what the code calls of the
  library is the record \<open>spv_lib\<close>. \<open>sl_CheckProofOfWork\<close> includes the limit of the network, and a timestamp is in
  nanoseconds.
\<close>

record ('t, 'b) spv_lib =
  sl_DoubleHash :: "bytes \<Rightarrow> bytes"
  sl_NewTxFromBytes :: "bytes \<Rightarrow> 't option"
  sl_CheckTransactionSanity :: "'t \<Rightarrow> bool"
  sl_TxHash :: "'t \<Rightarrow> bytes"
  sl_PkScripts :: "'t \<Rightarrow> bytes list"
  sl_IsNullData :: "bytes \<Rightarrow> bool"
  sl_CheckProofOfWork :: "'b \<Rightarrow> bool"
  sl_Timestamp :: "'b \<Rightarrow> int"
  sl_MerkleRoot :: "'b \<Rightarrow> bytes"
  sl_BlockHash :: "'b \<Rightarrow> bytes"
  sl_BuildMerkleTreeStore :: "'t list \<Rightarrow> bytes option list"

record 't ParsedProof =
  pp_BlockHash :: bytes
  pp_Transaction :: 't
  pp_TransactionBytes :: bytes
  pp_TransactionIdx :: u32
  pp_OpReturnData :: bytes

record 'b BTCSpvProof =
  sp_BtcTransaction :: bytes
  sp_BtcTransactionIndex :: u32
  sp_MerkleNodes :: bytes
  sp_ConfirmingBtcHeader :: 'b

subsection \<open>Merkle branches\<close>

definition hashConcat :: "('t, 'b) spv_lib \<Rightarrow> bytes \<Rightarrow> bytes \<Rightarrow> bytes" where
  "hashConcat L a b = sl_DoubleHash L (a @ b)"

definition min_uint :: "u64 \<Rightarrow> u64 \<Rightarrow> u64" where
  "min_uint a b = (if a < b then a else b)"

text \<open>The loop of \<open>createBranch\<close>, with the variables \<open>sz\<close> (\<open>size\<close>), \<open>index\<close>, \<open>i\<close> and \<open>branch\<close>; not to return is \<open>None\<close>.\<close>

partial_function (option) branch_loop ::
  "bytes list \<Rightarrow> u64 \<Rightarrow> u64 \<Rightarrow> u64 \<Rightarrow> bytes list \<Rightarrow> (format_error + bytes list) option" where
  "branch_loop nodes sz index i branch =
     (if sz > 1
      then let j = min_uint (index XOR 1) (sz - 1)
           in if unat (i + j) < length nodes
              then branch_loop nodes (drop_bit 1 (sz + 1)) (drop_bit 1 index) (i + sz) (branch @ [nodes ! unat (i + j)])
              else Some (Inl (FormatPanic ''index out of range''))
      else Some (Inr branch))"

declare branch_loop.simps [code]

definition createBranch :: "bytes list \<Rightarrow> u64 \<Rightarrow> u64 \<Rightarrow> (format_error + bytes list) option" where
  "createBranch nodes numfLeafs idx = branch_loop nodes numfLeafs idx 0 []"

definition CreateProofForIdx :: "('t, 'b) spv_lib \<Rightarrow> bytes list \<Rightarrow> u64 \<Rightarrow> (format_error + bytes list) option" where
  "CreateProofForIdx L transactions idx =
     (if transactions = [] then Some (Inl (FormatErrorf ''can't calculate proof for empty transaction list''))
      else if sint idx \<ge> int (length transactions)
      then Some (Inl (FormatErrorf ''provided index should be smaller that length of transaction list''))
      else case foldR (\<lambda>txs b. case sl_NewTxFromBytes L b of
                None \<Rightarrow> Inl (FormatErrorf ''NewTxFromBytes'') | Some tx \<Rightarrow> Inr (txs @ [tx])) [] transactions of
          Inl e \<Rightarrow> Some (Inl e)
        | Inr txs \<Rightarrow>
            let storeNoNil = List.map_filter id (sl_BuildMerkleTreeStore L txs)
            in createBranch storeNoNil (word_of_nat (length transactions)) idx)"

definition SpvProofFromHeaderAndTransactions where
  "SpvProofFromHeaderAndTransactions L header transactions transactionIdx =
     map_option (\<lambda>r. bindR r (\<lambda>proof.
       guardR (unat transactionIdx \<ge> length transactions) (FormatPanic ''index out of range'')
       (Inr \<lparr>sp_BtcTransaction = transactions ! unat transactionIdx,
         sp_BtcTransactionIndex = ucast (transactionIdx :: u64),
         sp_MerkleNodes = concat proof,
         sp_ConfirmingBtcHeader = header\<rparr>))) (CreateProofForIdx L transactions transactionIdx)"

subsection \<open>Verification\<close>

text \<open>The loop over the nodes \<open>i\<close> up to \<open>numSteps\<close>.\<close>

fun verify_loop :: "('t, 'b) spv_lib \<Rightarrow> bytes \<Rightarrow> nat list \<Rightarrow> bytes \<Rightarrow> u32 \<Rightarrow> bytes" where
  "verify_loop L proof [] current idx = current"
| "verify_loop L proof (i # is) current idx =
     (let nxt = take 32 (drop (i * 32) proof);
          current' = (if idx mod 2 = 1 then hashConcat L nxt current else hashConcat L current nxt)
      in verify_loop L proof is current' (drop_bit 1 idx))"

definition verify :: "('t, 'b) spv_lib \<Rightarrow> 't \<Rightarrow> bytes \<Rightarrow> bytes \<Rightarrow> u32 \<Rightarrow> bool" where
  "verify L tx merkleRoot intermediateNodes index =
     (let txHash = sl_TxHash L tx in
      if txHash = merkleRoot \<and> index = 0 \<and> intermediateNodes = [] then True
      else let proof = txHash @ intermediateNodes @ merkleRoot;
               proofLength = length proof
           in if proofLength mod 32 \<noteq> 0 then False
              else if proofLength = 64 then False
              else let root = drop (proofLength - 32) proof;
                       numSteps = proofLength div 32 - 1
                   in verify_loop L proof [1..<numSteps] (take 32 proof) index = root)"

definition OP_PUSHDATA1 :: char where
  "OP_PUSHDATA1 = CHR 0x4c"

fun op_return_loop :: "('t, 'b) spv_lib \<Rightarrow> bytes list \<Rightarrow> nat \<Rightarrow> bytes \<Rightarrow> format_error + bytes" where
  "op_return_loop L [] opReturnCounter opReturnData = Inr opReturnData"
| "op_return_loop L (script # scripts) opReturnCounter opReturnData =
     (if \<not> sl_IsNullData L script then op_return_loop L scripts opReturnCounter opReturnData
      else if opReturnCounter + 1 > 1 then Inl (FormatErrorf ''transaction has more than one OP_RETURN output'')
      else if length script = 1 then op_return_loop L scripts (opReturnCounter + 1) opReturnData
      else if length script < 2 then Inl (FormatPanic ''index out of range'')
      else if script ! 1 = OP_PUSHDATA1
      then if length script < 3 then Inl (FormatPanic ''slice bounds out of range'')
           else op_return_loop L scripts (opReturnCounter + 1) (opReturnData @ drop 3 script)
      else op_return_loop L scripts (opReturnCounter + 1) (opReturnData @ drop 2 script))"

definition ExtractStandardOpReturnData :: "('t, 'b) spv_lib \<Rightarrow> 't \<Rightarrow> format_error + bytes" where
  "ExtractStandardOpReturnData L tx = op_return_loop L (sl_PkScripts L tx) 0 []"

definition ParseTransaction :: "('t, 'b) spv_lib \<Rightarrow> bytes \<Rightarrow> format_error + 't" where
  "ParseTransaction L bs =
     bindR (option_to_result (FormatErrorf ''NewTxFromBytes'') (sl_NewTxFromBytes L bs)) (\<lambda>tx.
     guardR (\<not> sl_CheckTransactionSanity L tx) (FormatErrorf ''CheckTransactionSanity'') (Inr tx))"

definition ValidateBTCHeader :: "('t, 'b) spv_lib \<Rightarrow> 'b \<Rightarrow> format_error + unit" where
  "ValidateBTCHeader L header =
     guardR (\<not> sl_CheckProofOfWork L header) (FormatErrorf ''CheckProofOfWork'')
    (guardR (sl_Timestamp L header mod 10 ^ 9 \<noteq> 0) (FormatErrorf ''block timestamp has a higher precision than one second'')
    (Inr ()))"

definition ParseProof ::
  "('t, 'b) spv_lib \<Rightarrow> bytes \<Rightarrow> u32 \<Rightarrow> bytes \<Rightarrow> 'b \<Rightarrow> format_error + 't ParsedProof" where
  "ParseProof L btcTransaction transactionIndex merkleProof header =
     bindR (ParseTransaction L btcTransaction) (\<lambda>tx.
     bindR (ValidateBTCHeader L header) (\<lambda>_.
     guardR (\<not> verify L tx (sl_MerkleRoot L header) merkleProof transactionIndex)
       (FormatErrorf ''header failed validation due to failed proof'')
    (bindR (ExtractStandardOpReturnData L tx) (\<lambda>opReturnData.
     guardR (opReturnData = []) (FormatErrorf ''provided transaction should provide op return data'')
    (Inr \<lparr>pp_BlockHash = sl_BlockHash L header, pp_Transaction = tx, pp_TransactionBytes = btcTransaction,
       pp_TransactionIdx = transactionIndex, pp_OpReturnData = opReturnData\<rparr>)))))"

subsection \<open>Termination\<close>

text \<open>The number of levels below the root of a tree with \<open>n\<close> leaves.\<close>

fun depth :: "nat \<Rightarrow> nat" where
  "depth n = (if n \<le> 1 then 0 else Suc (depth ((n + 1) div 2)))"

declare depth.simps [simp del]

lemma depth_bounds: "n \<le> 2 ^ depth n \<and> (1 < n \<longrightarrow> 2 ^ depth n < 2 * n)"
proof (induction n rule: depth.induct)
  case (1 n)
  then show ?case
  proof (cases "n \<le> 1")
    case False
    let ?h = "(n + 1) div 2"
    have IH: "?h \<le> 2 ^ depth ?h" "1 < ?h \<longrightarrow> 2 ^ depth ?h < 2 * ?h" using 1 False by auto
    have e: "(2 :: nat) ^ depth n = 2 * 2 ^ depth ?h" using False by (subst depth.simps) simp
    have "2 ^ depth n < 2 * n"
    proof (cases "?h = 1")
      case True
      then have "depth ?h = 0" by (simp add: depth.simps)
      then show ?thesis using e False by simp
    next
      case h: False
      have "2 ^ depth ?h < 2 * ?h" using IH(2) h False by linarith
      moreover have "even (2 ^ depth ?h :: nat)" using h False by (subst depth.simps) auto
      then obtain k :: nat where k: "2 ^ depth ?h = 2 * k" by (elim evenE)
      ultimately have "k + 1 \<le> ?h" by simp
      then have "2 ^ depth ?h + 2 \<le> 2 * ?h" using k by linarith
      then show ?thesis using e False h by linarith
    qed
    moreover have "n \<le> 2 ^ depth n" using e IH(1) by linarith
    ultimately show ?thesis by blast
  qed (simp add: depth.simps)
qed

lemma unat_half [simp]: "unat (drop_bit (Suc 0) (w :: 'a::len word)) = unat w div 2"
  by (subst unsigned_drop_bit_eq) (simp add: drop_bit_Suc take_bit_nat_eq_self)

lemma half_size:
  assumes "1 < (sz :: u64)"
  shows "unat (sz + 1) div 2 < unat sz"
proof -
  have "unat (sz + 1) \<le> unat sz + 1" by (simp add: unat_word_ariths)
  moreover have "1 < unat sz" using assms by (simp add: word_less_nat_alt)
  ultimately show ?thesis by linarith
qed

lemma branch_loop_returns:
  "\<exists>r. branch_loop nodes sz index i branch = Some r \<and>
    (\<forall>b. r = Inr b \<and> sz \<noteq> - 1 \<longrightarrow> length b = length branch + depth (unat sz)) \<and>
    (\<forall>e. r = Inl e \<longrightarrow> e = FormatPanic ''index out of range'')"
proof (induction "unat sz" arbitrary: sz index i branch rule: less_induct)
  case less
  define j where "j = min_uint (index XOR 1) (sz - 1)"
  show ?case
  proof (cases "sz > 1 \<and> unat (i + j) < length nodes")
    case True
    let ?sz = "drop_bit 1 (sz + 1)"
    have u: "unat (sz + 1) = unat sz + 1" if "sz \<noteq> - 1" using that unatSuc [of sz] by (simp add: add.commute eq_neg_iff_add_eq_0)
    have "?sz < sz" using half_size [of sz] True by (simp add: word_less_nat_alt)
    then have "?sz \<noteq> - 1" using word_order.extremum_strict [of sz] by auto
    moreover have "1 < unat sz" using True by (simp add: word_less_nat_alt)
    ultimately show ?thesis
      using less [of ?sz "drop_bit 1 index" "i + sz" "branch @ [nodes ! unat (i + j)]"] True half_size [of sz] u
      by (subst branch_loop.simps) (auto simp: Let_def j_def [symmetric] depth.simps [of "unat sz"])
  next
    case False
    then show ?thesis
      by (subst branch_loop.simps) (auto simp: Let_def j_def [symmetric] depth.simps [of "unat sz"] word_less_nat_alt)
  qed
qed

text \<open>C13. \<open>createBranch\<close> returns, whatever nodes, number of leaves and index it is given: with a panic when a node
  is missing, and otherwise with as many nodes as the tree has levels below its root, the least number whose
  power of two is at least the number of leaves.\<close>

theorem create_branch_returns:
  "\<exists>r. createBranch nodes numfLeafs idx = Some r \<and>
    (case r of Inl e \<Rightarrow> e = FormatPanic ''index out of range''
     | Inr b \<Rightarrow> numfLeafs = - 1 \<or> length b = depth (unat numfLeafs) \<and> unat numfLeafs \<le> 2 ^ length b \<and>
         (if 1 < numfLeafs then 2 ^ length b < 2 * unat numfLeafs else b = []))"
proof -
  obtain r where r: "createBranch nodes numfLeafs idx = Some r"
    "\<forall>b. r = Inr b \<and> numfLeafs \<noteq> - 1 \<longrightarrow> length b = depth (unat numfLeafs)"
    "\<forall>e. r = Inl e \<longrightarrow> e = FormatPanic ''index out of range''"
    using branch_loop_returns [of nodes numfLeafs idx 0 "[]"] by (auto simp: createBranch_def)
  have "unat numfLeafs \<le> Suc 0 \<Longrightarrow> depth (unat numfLeafs) = 0" by (simp add: depth.simps)
  then show ?thesis
    using r depth_bounds [of "unat numfLeafs"] by (auto simp: word_less_nat_alt not_less split: sum.splits)
qed

subsection \<open>Trees\<close>

text \<open>The hashes of the next level, where a last node without a partner is paired with itself, the levels of a
  tree from its leaves, its root, and the siblings on the way from a leaf to the root.\<close>

fun parents :: "('t, 'b) spv_lib \<Rightarrow> bytes list \<Rightarrow> bytes list" where
  "parents L (a # b # hs) = hashConcat L a b # parents L hs"
| "parents L [a] = [hashConcat L a a]"
| "parents L [] = []"

lemma length_parents [simp]: "length (parents L hs) = (length hs + 1) div 2"
  by (induction L hs rule: parents.induct) auto

lemma nth_parents:
  "k < (length hs + 1) div 2 \<Longrightarrow> parents L hs ! k = hashConcat L (hs ! (2 * k)) (hs ! min (2 * k + 1) (length hs - 1))"
proof (induction L hs arbitrary: k rule: parents.induct)
  case (1 L a b hs)
  then show ?case by (cases k) (auto simp: min_def nth_Cons')
qed auto

function levels :: "('t, 'b) spv_lib \<Rightarrow> bytes list \<Rightarrow> bytes list list" where
  "levels L hs = hs # (if length hs \<le> 1 then [] else levels L (parents L hs))"
  by pat_completeness auto
termination by (relation "measure (\<lambda>(L, hs). length hs)") auto

function merkle_root :: "('t, 'b) spv_lib \<Rightarrow> bytes list \<Rightarrow> bytes" where
  "merkle_root L hs = (if length hs \<le> 1 then hd hs else merkle_root L (parents L hs))"
  by pat_completeness auto
termination by (relation "measure (\<lambda>(L, hs). length hs)") auto

function path :: "('t, 'b) spv_lib \<Rightarrow> bytes list \<Rightarrow> nat \<Rightarrow> bytes list" where
  "path L hs k = (if length hs \<le> 1 then []
     else hs ! min (if even k then k + 1 else k - 1) (length hs - 1) # path L (parents L hs) (k div 2))"
  by pat_completeness auto
termination by (relation "measure (\<lambda>(L, hs, k). length hs)") auto

declare levels.simps [simp del] merkle_root.simps [simp del] path.simps [simp del]

fun climb :: "('t, 'b) spv_lib \<Rightarrow> bytes \<Rightarrow> nat \<Rightarrow> bytes list \<Rightarrow> bytes" where
  "climb L cur k [] = cur"
| "climb L cur k (n # ns) = climb L (if odd k then hashConcat L n cur else hashConcat L cur n) (k div 2) ns"

lemma climb_path: "k < length hs \<Longrightarrow> climb L (hs ! k) k (path L hs k) = merkle_root L hs"
proof (induction L hs k rule: path.induct)
  case (1 L hs k)
  show ?case
  proof (cases "length hs \<le> 1")
    case True
    then obtain a where "hs = [a]" using 1(2) by (cases hs) auto
    then show ?thesis using 1(2) by (simp add: path.simps [of L "[a]"] merkle_root.simps [of L "[a]"])
  next
    case False
    let ?n = "hs ! min (if even k then k + 1 else k - 1) (length hs - 1)"
    have k2: "k div 2 < (length hs + 1) div 2" using 1(2) by linarith
    have step: "(if odd k then hashConcat L ?n (hs ! k) else hashConcat L (hs ! k) ?n) = parents L hs ! (k div 2)"
      using nth_parents [OF k2, of L] 1(2) by (auto simp: min_def elim!: oddE)
    have p: "path L hs k = ?n # path L (parents L hs) (k div 2)" and r: "merkle_root L hs = merkle_root L (parents L hs)"
      using False by (simp_all add: path.simps [of L hs] merkle_root.simps [of L hs])
    show ?thesis unfolding p r climb.simps step by (rule 1(1) [OF False]) (use k2 in simp)
  qed
qed

lemma levels_size: "hs \<noteq> [] \<Longrightarrow> length (concat (levels L hs)) \<le> 3 * length hs"
proof (induction L hs rule: levels.induct)
  case (1 L hs)
  show ?case
  proof (cases "length hs \<le> 1")
    case False
    have "parents L hs \<noteq> []" using False by (simp flip: length_greater_0_conv)
    then have "length (concat (levels L (parents L hs))) \<le> 3 * ((length hs + 1) div 2)" using 1 False by simp
    moreover have "3 * ((length hs + 1) div 2) \<le> 2 * length hs" using False by presburger
    moreover have "concat (levels L hs) = hs @ concat (levels L (parents L hs))" using False by (subst levels.simps) simp
    ultimately show ?thesis by simp
  qed (simp add: levels.simps)
qed

text \<open>The loop of \<open>createBranch\<close> over the nodes of a tree, level after level, collects the siblings.\<close>

lemma xor_one: "unat (w XOR 1 :: u64) = (if even (unat w) then unat w + 1 else unat w - 1)"
proof -
  have "unat (w XOR 1) = unat w XOR 1" by (simp add: unsigned_xor_eq)
  also have "\<dots> = (if even (unat w) then unat w + 1 else unat w - 1)" by (simp add: xor_Suc_0_eq)
  finally show ?thesis .
qed

lemma branch_loop_path:
  assumes "drop off nodes = concat (levels L hs)" "off + length (concat (levels L hs)) = length nodes"
    "length nodes < 2 ^ 63" "k < length hs"
  shows "branch_loop nodes (word_of_nat (length hs)) (word_of_nat k) (word_of_nat off) branch =
    Some (Inr (branch @ path L hs k))"
  using assms
proof (induction L hs k arbitrary: off branch rule: path.induct)
  case (1 L hs k)
  have len: "length hs \<le> length (concat (levels L hs))" by (subst levels.simps) simp
  then have n: "length hs < 2 ^ 63" "off + length hs \<le> length nodes" using 1(3,4) by linarith+
  have u [simp]: "unat (word_of_nat m :: u64) = m" if "m \<le> 2 ^ 63" for m using that by (simp add: unat_of_nat)
  show ?case
  proof (cases "length hs \<le> 1")
    case True
    then have "\<not> (1 < (word_of_nat (length hs) :: u64))" using n(1) by (simp add: word_less_nat_alt)
    then show ?thesis using True by (subst branch_loop.simps) (simp add: path.simps [of L hs])
  next
    case False
    let ?j = "min (if even k then k + 1 else k - 1) (length hs - 1)"
    have lev: "concat (levels L hs) = hs @ concat (levels L (parents L hs))" using False by (subst levels.simps) simp
    have j: "min_uint (word_of_nat k XOR 1) (word_of_nat (length hs) - 1) = (word_of_nat ?j :: u64)"
    proof -
      have "word_of_nat (length hs) - 1 = (word_of_nat (length hs - 1) :: u64)" using False by (simp add: of_nat_diff)
      then have "unat (word_of_nat (length hs) - 1 :: u64) = length hs - 1" using n(1) by simp
      moreover have "unat (word_of_nat k XOR 1 :: u64) = (if even k then k + 1 else k - 1)"
        using 1(5) n(1) by (simp add: xor_one)
      ultimately have "unat (min_uint (word_of_nat k XOR 1) (word_of_nat (length hs) - 1)) = ?j"
        by (auto simp: min_uint_def word_less_nat_alt min_def)
      moreover have "unat (word_of_nat ?j :: u64) = ?j" by (rule u) (use n(1) in simp)
      ultimately show ?thesis by (simp only: word_unat_eq_iff)
    qed
    have jl: "?j < length hs" using False by simp
    have node: "nodes ! (off + ?j) = hs ! ?j"
      using 1(2) lev jl nth_drop [of off nodes ?j] n(2) by (simp add: nth_append)
    have half: "drop_bit 1 (word_of_nat m :: u64) = word_of_nat (m div 2)" if "m \<le> 2 ^ 63" for m
      using that by (intro word_unat_eq_iff [THEN iffD2]) simp
    have next_size: "drop_bit 1 (word_of_nat (length hs) + 1) = (word_of_nat (length (parents L hs)) :: u64)"
      using half [of "length hs + 1"] n(1) by (simp add: add.commute)
    have rest: "drop (off + length hs) nodes = concat (levels L (parents L hs))"
    proof -
      have "drop (off + length hs) nodes = drop (length hs) (drop off nodes)" by (simp add: add.commute)
      then show ?thesis using 1(2) lev by simp
    qed
    have IH: "branch_loop nodes (word_of_nat (length (parents L hs))) (word_of_nat (k div 2)) (word_of_nat (off + length hs))
        (branch @ [hs ! ?j]) = Some (Inr ((branch @ [hs ! ?j]) @ path L (parents L hs) (k div 2)))"
      by (rule 1(1) [OF False rest]) (use 1(3,4,5) lev in auto)
    have "1 < (word_of_nat (length hs) :: u64)" using False n(1) by (simp add: word_less_nat_alt)
    moreover have "unat (word_of_nat off + word_of_nat ?j :: u64) = off + ?j"
      using u [of "off + ?j"] jl n(2) 1(4) by simp
    moreover have "off + ?j < length nodes" using jl n(2) by linarith
    moreover have "path L hs k = hs ! ?j # path L (parents L hs) (k div 2)" using False by (subst path.simps) simp
    ultimately show ?thesis
      using IH 1(5) n(1) half [of k]
      by (subst branch_loop.simps) (simp only: if_True Let_def j node next_size of_nat_add append_assoc append_Cons append_Nil)
  qed
qed

lemma odd_u32: "idx mod 2 = 1 \<longleftrightarrow> odd (unat (idx :: u32))"
proof -
  have "idx mod 2 = 1 \<longleftrightarrow> unat idx mod 2 = 1" by (simp add: word_unat_eq_iff unat_mod)
  then show ?thesis by (simp add: odd_iff_mod_2_eq_one)
qed

lemma verify_loop_climb:
  assumes "\<forall>n\<in>set ns. length n = 32" "length pre = 32 * k"
  shows "verify_loop L (pre @ concat ns @ rest) [k..<k + length ns] cur idx = climb L cur (unat idx) ns"
  using assms
proof (induction ns arbitrary: pre k cur idx)
  case (Cons n ns)
  have "take 32 (drop (k * 32) (pre @ concat (n # ns) @ rest)) = n" using Cons.prems by (simp add: mult.commute)
  moreover have "[k..<k + length (n # ns)] = k # [Suc k..<Suc k + length ns]"
    using upt_conv_Cons [of k "k + length (n # ns)"] by simp
  moreover have "verify_loop L (pre @ concat (n # ns) @ rest) [Suc k..<Suc k + length ns] c i = climb L c (unat i) ns" for c i
    using Cons.IH [of "pre @ n" "Suc k" c i] Cons.prems by simp
  ultimately show ?case by (simp add: Let_def odd_u32)
qed simp

lemma parents_length:
  assumes "\<And>b. length (sl_DoubleHash L b) = 32"
  shows "\<forall>h\<in>set (parents L hs). length h = 32"
  using assms by (induction L hs rule: parents.induct) (auto simp: hashConcat_def)

lemma length_concat_const: "\<forall>n\<in>set ns. length n = c \<Longrightarrow> length (concat ns) = c * length ns"
  by (induction ns) auto

lemma root_length:
  assumes "\<And>b. length (sl_DoubleHash L b) = 32"
  shows "hs \<noteq> [] \<Longrightarrow> \<forall>h\<in>set hs. length h = 32 \<Longrightarrow> length (merkle_root L hs) = 32"
proof (induction "length hs" arbitrary: hs rule: less_induct)
  case less
  show ?case
  proof (cases "length hs \<le> 1")
    case True
    then show ?thesis using less.prems by (subst merkle_root.simps) simp
  next
    case False
    have "length (merkle_root L (parents L hs)) = 32"
      by (rule less.hyps) (use False parents_length [OF assms] in \<open>auto simp flip: length_greater_0_conv\<close>)
    then show ?thesis using False by (subst merkle_root.simps) simp
  qed
qed

lemma path_length:
  assumes "\<And>b. length (sl_DoubleHash L b) = 32"
  shows "\<forall>h\<in>set hs. length h = 32 \<Longrightarrow> \<forall>n\<in>set (path L hs k). length n = 32"
proof (induction "length hs" arbitrary: hs k rule: less_induct)
  case less
  show ?case
  proof (cases "length hs \<le> 1")
    case False
    let ?j = "min (if even k then k + 1 else k - 1) (length hs - 1)"
    have "?j < length hs" using False by simp
    then have "length (hs ! ?j) = 32" using less.prems nth_mem by blast
    moreover have "\<forall>n\<in>set (path L (parents L hs) (k div 2)). length n = 32"
      by (rule less.hyps) (use False parents_length [OF assms] in auto)
    moreover have "path L hs k = hs ! ?j # path L (parents L hs) (k div 2)" using False by (subst path.simps) simp
    ultimately show ?thesis by simp
  qed (simp add: path.simps)
qed

text \<open>The documented result of \<open>BuildMerkleTreeStore\<close>: the array of the levels of the tree, with gaps.\<close>

definition merkle_store_ok :: "('t, 'b) spv_lib \<Rightarrow> bool" where
  "merkle_store_ok L \<longleftrightarrow> (\<forall>txs. txs \<noteq> [] \<longrightarrow>
     List.map_filter id (sl_BuildMerkleTreeStore L txs) = concat (levels L (map (sl_TxHash L) txs)))"

lemma create_branch_path:
  assumes "merkle_store_ok L" "txs \<noteq> []" "length txs < 2 ^ 32" "k < length txs"
  shows "createBranch (List.map_filter id (sl_BuildMerkleTreeStore L txs)) (word_of_nat (length txs)) (word_of_nat k) =
    Some (Inr (path L (map (sl_TxHash L) txs) k))"
proof -
  let ?hs = "map (sl_TxHash L) txs"
  have "length (concat (levels L ?hs)) \<le> 3 * length ?hs" by (rule levels_size) (use assms(2) in simp)
  then have "length (concat (levels L ?hs)) < 2 ^ 63" using assms(3) by simp
  then show ?thesis
    using branch_loop_path [of 0 "concat (levels L ?hs)" L ?hs k "[]"] assms by (simp add: createBranch_def merkle_store_ok_def)
qed

lemma verify_path:
  assumes "\<And>b. length (sl_DoubleHash L b) = 32" "\<forall>h\<in>set hs. length h = 32" "k < length hs" "length hs < 2 ^ 32"
    "sl_TxHash L tx = hs ! k"
  shows "verify L tx (merkle_root L hs) (concat (path L hs k)) (word_of_nat k)"
proof -
  let ?ns = "path L hs k" and ?root = "merkle_root L hs"
  have ns: "\<forall>n\<in>set ?ns. length n = 32" by (rule path_length [OF assms(1,2)])
  have tx: "length (hs ! k) = 32" using assms(2,3) by simp
  have len: "length (concat ?ns) = 32 * length ?ns" by (rule length_concat_const [OF ns])
  have k: "unat (word_of_nat k :: u32) = k" using assms(3,4) by (simp add: unat_of_nat)
  have root: "length ?root = 32" by (rule root_length [OF assms(1) _ assms(2)]) (use assms(3) in auto)
  have "climb L (hs ! k) k ?ns = ?root" by (rule climb_path [OF assms(3)])
  then have loop: "verify_loop L (hs ! k @ concat ?ns @ ?root) [1..<1 + length ?ns] (hs ! k) (word_of_nat k) = ?root"
    using verify_loop_climb [OF ns, of "hs ! k" 1 L ?root "hs ! k" "word_of_nat k"] tx k by simp
  show ?thesis
  proof (cases "length hs \<le> 1")
    case True
    then have "?ns = []" by (subst path.simps) simp
    moreover have "k = 0" using True assms(3) by simp
    moreover have "?root = hs ! k" using True assms(3) by (subst merkle_root.simps) (cases hs, simp_all)
    ultimately show ?thesis using assms(5) by (simp add: verify_def Let_def)
  next
    case False
    then have "length ?ns > 0" by (subst path.simps) simp
    then show ?thesis using loop assms(5) tx root len by (simp add: verify_def Let_def)
  qed
qed

text \<open>C11. A proof that \<open>SpvProofFromHeaderAndTransactions\<close> builds for a transaction of a block is accepted by
  \<open>verify\<close> for the Merkle root of the block: the branch taken from the flat array of nodes, whatever the number of
  transactions, leads from the transaction to the root.\<close>

theorem merkle_proof_roundtrip:
  assumes "merkle_store_ok L" "\<And>b. length (sl_DoubleHash L b) = 32" "\<And>tx. length (sl_TxHash L tx) = 32"
    and txs: "map (sl_NewTxFromBytes L) transactions = map Some txs" "k < length transactions" "length transactions < 2 ^ 32"
    and root: "sl_MerkleRoot L header = merkle_root L (map (sl_TxHash L) txs)"
  shows "\<exists>proof. SpvProofFromHeaderAndTransactions L header transactions (word_of_nat k) = Some (Inr proof) \<and>
    sp_BtcTransaction proof = transactions ! k \<and> unat (sp_BtcTransactionIndex proof) = k \<and>
    verify L (txs ! k) (sl_MerkleRoot L header) (sp_MerkleNodes proof) (sp_BtcTransactionIndex proof)"
proof -
  let ?hs = "map (sl_TxHash L) txs"
  have len: "length txs = length transactions" using txs(1) by (metis length_map)
  have ne: "txs \<noteq> []" "transactions \<noteq> []" using txs(2) len by auto
  have parse: "foldR (\<lambda>txs b. case sl_NewTxFromBytes L b of
      None \<Rightarrow> Inl (FormatErrorf ''NewTxFromBytes'') | Some tx \<Rightarrow> Inr (txs @ [tx])) acc bs = Inr (acc @ ts)"
    if "map (sl_NewTxFromBytes L) bs = map Some ts" for acc bs ts
    using that by (induction bs arbitrary: acc ts) auto
  have u: "unat (word_of_nat k :: u64) = k" "unat (word_of_nat k :: u32) = k" using txs(2,3) by (simp_all add: unat_of_nat)
  have si: "sint (word_of_nat k :: u64) = int k" using txs(2,3) by (simp add: sint_uint uint_nat u(1) signed_take_bit_int_eq_self)
  have idx: "ucast (word_of_nat k :: u64) = (word_of_nat k :: u32)"
    by (rule word_unat_eq_iff [THEN iffD2]) (use u txs(2,3) in \<open>simp add: unsigned_ucast_eq take_bit_nat_eq_self\<close>)
  have "CreateProofForIdx L transactions (word_of_nat k) = Some (Inr (path L ?hs k))"
    using parse [OF txs(1), of "[]"] create_branch_path [OF assms(1) ne(1), of k] txs(2,3) ne(2) len si
    by (simp add: CreateProofForIdx_def Let_def)
  moreover have "verify L (txs ! k) (merkle_root L ?hs) (concat (path L ?hs k)) (word_of_nat k)"
    by (rule verify_path [OF assms(2)]) (use assms(3) txs(2,3) len in auto)
  ultimately show ?thesis
    using txs(2) root u idx by (simp add: SpvProofFromHeaderAndTransactions_def guardR_def)
qed

text \<open>Transactions are their own bytes, and the double hash pads what it is given to 32 bytes; three transactions.\<close>

definition pad_lib :: "(bytes, unit) spv_lib" where
  "pad_lib = (let dh = (\<lambda>b. take 32 (b @ replicate 32 CHR ''0'')); L = \<lparr>sl_DoubleHash = dh, sl_NewTxFromBytes = Some,
     sl_CheckTransactionSanity = (\<lambda>_. True), sl_TxHash = dh, sl_PkScripts = (\<lambda>_. []), sl_IsNullData = (\<lambda>_. False),
     sl_CheckProofOfWork = (\<lambda>_. True), sl_Timestamp = (\<lambda>_. 0), sl_MerkleRoot = (\<lambda>_. []), sl_BlockHash = (\<lambda>_. []),
     sl_BuildMerkleTreeStore = (\<lambda>_. [])\<rparr>
     in L\<lparr>sl_MerkleRoot := (\<lambda>_. merkle_root L (map dh [''a'', ''b'', ''c''])),
          sl_BuildMerkleTreeStore := (\<lambda>txs. map Some (concat (levels L (map dh txs))))\<rparr>)"

lemma levels_cong: "sl_DoubleHash L = sl_DoubleHash M \<Longrightarrow> levels L hs = levels M hs \<and> merkle_root L hs = merkle_root M hs"
proof (induction L hs rule: levels.induct)
  case (1 L hs)
  have "parents L hs = parents M hs" for hs
    using 1(2) by (induction L hs rule: parents.induct) (simp_all add: hashConcat_def)
  then show ?case
    using 1 by (auto simp: levels.simps [of L hs] levels.simps [of M hs] merkle_root.simps [of L hs] merkle_root.simps [of M hs])
qed

lemma pad_lib_ok: "merkle_store_ok pad_lib \<and> sl_MerkleRoot pad_lib () = merkle_root pad_lib (map (sl_TxHash pad_lib) [''a'', ''b'', ''c''])"
proof -
  have id: "List.map_filter id (map Some xs) = xs" for xs :: "bytes list"
    by (induction xs) (simp_all add: List.map_filter_simps)
  show ?thesis
    unfolding merkle_store_ok_def pad_lib_def Let_def by (simp add: id) (auto intro!: arg_cong [of _ _ concat] levels_cong [THEN conjunct1] levels_cong [THEN conjunct2])
qed

theorem merkle_proof_roundtrip_witness:
  "\<exists>proof. SpvProofFromHeaderAndTransactions pad_lib () [''a'', ''b'', ''c''] (word_of_nat 2) = Some (Inr proof) \<and>
    verify pad_lib ''c'' (sl_MerkleRoot pad_lib ()) (sp_MerkleNodes proof) (sp_BtcTransactionIndex proof)"
proof -
  have "sl_NewTxFromBytes pad_lib = Some" "length (sl_DoubleHash pad_lib b) = 32" "length (sl_TxHash pad_lib b) = 32" for b
    by (simp_all add: pad_lib_def Let_def)
  then show ?thesis
    using merkle_proof_roundtrip [of pad_lib "[''a'', ''b'', ''c'']" "[''a'', ''b'', ''c'']" 2 "()"] pad_lib_ok by auto
qed

end
