(* ===== verification/Checkpointing.thy ===== *)
theory Checkpointing
  imports Checkpoint_Format
begin

text \<open>
  Checkpoints of epochs (\<open>x/checkpointing\<close>): the BLS signatures of the validators are accumulated until they hold
  more than two thirds of the voting power, the sealed checkpoint is stored, and its status follows what
  Bitcoin shows. The lookup of a validator is \<open>x/epoching/types/validator.go\<close>, the accumulation of a proposer
  \<open>x/checkpointing/prepare/proposal.go\<close>.

  The BLS library, the bitmap package and the hash are the record \<open>ckpt_lib\<close>; validator sets and total powers of
  epochs are the record \<open>epoching_view\<close>; the hooks of other modules are a parameter with a state of type \<open>'x\<close>, which
  answers whether it succeeded. A voting power is an \<open>int64\<close>, kept as a word that is read as signed.
\<close>

subsection \<open>Data\<close>

datatype ckpt_error =
    ErrCkptDoesNotExist
  | ErrCkptAlreadyExist
  | ErrCkptNotAccumulating
  | ErrCkptAlreadyVoted
  | ErrInvalidRawCheckpoint
  | ErrInvalidCkptStatus
  | ErrBlsKeyDoesNotExist
  | ErrBlsKeyAlreadyExist
  | ErrInvalidBlsSignature
  | ErrConflictingCheckpoint
  | ErrValAddrDoesNotExist
  | CkptErrorf string
  | CkptPanic string

datatype CheckpointStatus = Accumulating | Sealed | Submitted | Confirmed | Finalized

record RawCheckpoint =
  ck_EpochNum :: u64
  ck_BlockHash :: bytes
  ck_Bitmap :: bytes
  ck_BlsMultiSig :: "bytes option"

record CheckpointStateUpdate =
  su_State :: CheckpointStatus
  su_BlockHeight :: u64
  su_BlockTime :: int

record RawCheckpointWithMeta =
  cm_Ckpt :: RawCheckpoint
  cm_Status :: CheckpointStatus
  cm_BlsAggrPk :: "bytes option"
  cm_PowerSum :: u64
  cm_Lifecycle :: "CheckpointStateUpdate list"

record Validator =
  val_Addr :: bytes
  val_Power :: u64

record epoching_view =
  ev_ValidatorSet :: "u64 \<Rightarrow> Validator list"
  ev_TotalVotingPower :: "u64 \<Rightarrow> u64 option"

text \<open>The bitmap and the block hash of a checkpoint are never nil: a new checkpoint has both, and so has one that is
  read from Bitcoin. \<open>cl_AggrSig\<close> and \<open>cl_AggrPK\<close> may fail; \<open>cl_VerifyMultiSig\<close> and \<open>cl_Verify\<close> give no answer when a key or signature is
  malformed.\<close>

record ckpt_lib =
  cl_bm_New :: "nat \<Rightarrow> bytes"
  cl_bm_Len :: "bytes \<Rightarrow> nat"
  cl_bm_Get :: "bytes \<Rightarrow> nat \<Rightarrow> bool"
  cl_bm_Set :: "bytes \<Rightarrow> nat \<Rightarrow> bytes"
  cl_AggrSig :: "bytes \<Rightarrow> bytes \<Rightarrow> bytes option"
  cl_AggrPK :: "bytes \<Rightarrow> bytes \<Rightarrow> bytes option"
  cl_Verify :: "bytes \<Rightarrow> bytes \<Rightarrow> bytes \<Rightarrow> bool option"
  cl_VerifyMultiSig :: "bytes \<Rightarrow> bytes list \<Rightarrow> bytes \<Rightarrow> bool option"

record ckpt_state =
  cs_checkpoints :: "u64 \<rightharpoonup> RawCheckpointWithMeta"
  cs_addrToBlsKeys :: "bytes \<rightharpoonup> bytes"
  cs_blsKeysToAddr :: "bytes \<rightharpoonup> bytes"
  cs_LastFinalizedEpoch :: u64
  cs_ConflictingCheckpointReceived :: bool

datatype ckpt_call =
    AfterRawCheckpointSealed u64
  | AfterRawCheckpointConfirmed u64
  | AfterRawCheckpointForgotten RawCheckpoint
  | AfterRawCheckpointFinalized u64
  | AfterRawCheckpointBlsSigVerified RawCheckpoint

datatype ckpt_event =
    EventCheckpointSealed RawCheckpointWithMeta
  | EventCheckpointSubmitted RawCheckpointWithMeta
  | EventCheckpointConfirmed RawCheckpointWithMeta
  | EventCheckpointFinalized RawCheckpointWithMeta
  | EventCheckpointForgotten RawCheckpointWithMeta
  | EventConflictingCheckpoint RawCheckpoint RawCheckpointWithMeta

record 'x ckpt_world =
  cw_state :: ckpt_state
  cw_ext :: 'x
  cw_events :: "ckpt_event list"

text \<open>The height and time of the current block.\<close>

record ckpt_ctx =
  cc_Height :: u64
  cc_Time :: int

subsection \<open>Validator sets\<close>

function bsearch_loop :: "Validator list \<Rightarrow> bytes \<Rightarrow> int \<Rightarrow> int \<Rightarrow> int" where
  "bsearch_loop vs target lo hi =
     (if lo \<le> hi
      then let mid = lo + (hi - lo) div 2; midAddr = val_Addr (vs ! nat mid)
           in if midAddr = target then mid
              else if midAddr > target then bsearch_loop vs target lo (mid - 1)
              else bsearch_loop vs target (mid + 1) hi
      else - 1)"
  by pat_completeness auto
termination by (relation "measure (\<lambda>(vs, target, lo, hi). nat (hi + 1 - lo))") auto

declare bsearch_loop.simps [simp del]

definition binarySearch :: "Validator list \<Rightarrow> bytes \<Rightarrow> int" where
  "binarySearch vs targetAddr = bsearch_loop vs targetAddr 0 (int (length vs) - 1)"

definition FindValidatorWithIndex :: "Validator list \<Rightarrow> bytes \<Rightarrow> ckpt_error + Validator \<times> nat" where
  "FindValidatorWithIndex vs valAddr =
     (let index = binarySearch vs valAddr
      in if index = - 1 then Inl (CkptErrorf ''validator address does not exist in the validator set'')
         else Inr (vs ! nat index, nat index))"

definition FindSubset :: "ckpt_lib \<Rightarrow> Validator list \<Rightarrow> bytes \<Rightarrow> ckpt_error + Validator list" where
  "FindSubset L vs bm =
     guardR (cl_bm_Len L bm < length vs) (CkptErrorf ''bitmap is not large enough to contain the validator set'')
    (Inr (map (\<lambda>i. vs ! i) (filter (cl_bm_Get L bm) [0..<length vs])))"

subsection \<open>Accumulation\<close>

definition BitmapBits :: nat where
  "BitmapBits = BitMapLength * 8"

definition NewCheckpoint :: "ckpt_lib \<Rightarrow> u64 \<Rightarrow> bytes \<Rightarrow> RawCheckpoint" where
  "NewCheckpoint L epochNum blockHash =
     \<lparr>ck_EpochNum = epochNum, ck_BlockHash = blockHash, ck_Bitmap = cl_bm_New L BitmapBits, ck_BlsMultiSig = None\<rparr>"

definition NewCheckpointWithMeta :: "RawCheckpoint \<Rightarrow> CheckpointStatus \<Rightarrow> RawCheckpointWithMeta" where
  "NewCheckpointWithMeta ckpt status =
     \<lparr>cm_Ckpt = ckpt, cm_Status = status, cm_BlsAggrPk = None, cm_PowerSum = 0, cm_Lifecycle = []\<rparr>"

text \<open>A bit beyond the bitmap is an index out of range. An error leaves the checkpoint as it is at that point; the
  aggregated signature may be set already when the aggregation of keys fails, so the checkpoint is returned.\<close>

definition Accumulate ::
  "ckpt_lib \<Rightarrow> Validator list \<Rightarrow> bytes \<Rightarrow> bytes \<Rightarrow> bytes \<Rightarrow> u64 \<Rightarrow> RawCheckpointWithMeta \<Rightarrow>
    ckpt_error option \<times> RawCheckpointWithMeta" where
  "Accumulate L vals signerAddr signerBlsKey sig totalPower cm =
     (if cm_Status cm \<noteq> Accumulating then (Some ErrCkptNotAccumulating, cm)
      else case FindValidatorWithIndex vals signerAddr of
        Inl e \<Rightarrow> (Some e, cm)
      | Inr (val, index) \<Rightarrow>
          if index \<ge> cl_bm_Len L (ck_Bitmap (cm_Ckpt cm)) then (Some (CkptPanic ''index out of range''), cm)
          else if cl_bm_Get L (ck_Bitmap (cm_Ckpt cm)) index then (Some ErrCkptAlreadyVoted, cm)
          else case (case ck_BlsMultiSig (cm_Ckpt cm) of Some s \<Rightarrow> cl_AggrSig L s sig | None \<Rightarrow> Some sig) of
            None \<Rightarrow> (Some (CkptErrorf ''AggrSig''), cm)
          | Some aggSig \<Rightarrow>
              let cm1 = cm\<lparr>cm_Ckpt := (cm_Ckpt cm)\<lparr>ck_BlsMultiSig := Some aggSig\<rparr>\<rparr>
              in case (case cm_BlsAggrPk cm1 of Some pk \<Rightarrow> cl_AggrPK L pk signerBlsKey | None \<Rightarrow> Some signerBlsKey) of
                None \<Rightarrow> (Some (CkptErrorf ''AggrPK''), cm1)
              | Some aggPK \<Rightarrow>
                  let ckpt = cm_Ckpt cm1;
                      cm2 = cm1\<lparr>cm_BlsAggrPk := Some aggPK,
                              cm_Ckpt := ckpt\<lparr>ck_Bitmap := cl_bm_Set L (ck_Bitmap ckpt) index\<rparr>,
                              cm_PowerSum := cm_PowerSum cm1 + val_Power val\<rparr>
                  in (None, if sint (cm_PowerSum cm2 * 3) > sint (totalPower * 2) then cm2\<lparr>cm_Status := Sealed\<rparr> else cm2))"

definition RecordStateUpdate :: "ckpt_ctx \<Rightarrow> CheckpointStatus \<Rightarrow> RawCheckpointWithMeta \<Rightarrow> RawCheckpointWithMeta" where
  "RecordStateUpdate c status cm = cm\<lparr>cm_Lifecycle := cm_Lifecycle cm @
     [\<lparr>su_State = status, su_BlockHeight = cc_Height c, su_BlockTime = cc_Time c\<rparr>]\<rparr>"

subsection \<open>Registered keys\<close>

definition GetBlsPubKey :: "bytes \<Rightarrow> ckpt_state \<Rightarrow> ckpt_error + bytes" where
  "GetBlsPubKey addr s = option_to_result ErrBlsKeyDoesNotExist (cs_addrToBlsKeys s addr)"

definition GetValAddr :: "bytes \<Rightarrow> ckpt_state \<Rightarrow> ckpt_error + bytes" where
  "GetValAddr key s = option_to_result ErrValAddrDoesNotExist (cs_blsKeysToAddr s key)"

definition CreateRegistration :: "bytes \<Rightarrow> bytes \<Rightarrow> ckpt_state \<Rightarrow> ckpt_error + ckpt_state" where
  "CreateRegistration key valAddr s =
     guardR (case GetBlsPubKey valAddr s of Inr blsPubKey \<Rightarrow> blsPubKey \<noteq> key | Inl _ \<Rightarrow> False) ErrBlsKeyAlreadyExist
    (guardR (case cs_blsKeysToAddr s key of Some rawAddr \<Rightarrow> rawAddr \<noteq> valAddr | None \<Rightarrow> False) ErrBlsKeyAlreadyExist
    (Inr (s\<lparr>cs_addrToBlsKeys := (cs_addrToBlsKeys s)(valAddr \<mapsto> key),
       cs_blsKeysToAddr := (cs_blsKeysToAddr s)(key \<mapsto> valAddr)\<rparr>)))"

text \<open>The loop of the proposer over the signatures that passed its checks, given as pairs of the address of the signer,
  if it is valid, and the signature. Errors of a signature are logged and the signature is skipped.\<close>

fun accumulate_sigs ::
  "ckpt_lib \<Rightarrow> Validator list \<Rightarrow> u64 \<Rightarrow> ckpt_state \<Rightarrow> (bytes option \<times> bytes) list \<Rightarrow> RawCheckpointWithMeta \<Rightarrow>
    ckpt_error + RawCheckpointWithMeta" where
  "accumulate_sigs L vals totalPower s [] ckpt = Inr ckpt"
| "accumulate_sigs L vals totalPower s ((signer, sig) # sigs) ckpt = (case signer of
       None \<Rightarrow> accumulate_sigs L vals totalPower s sigs ckpt
     | Some signerAddress \<Rightarrow> (case GetBlsPubKey signerAddress s of
         Inl _ \<Rightarrow> accumulate_sigs L vals totalPower s sigs ckpt
       | Inr signerBlsKey \<Rightarrow> (case Accumulate L vals signerAddress signerBlsKey sig totalPower ckpt of
           (Some (CkptPanic p), _) \<Rightarrow> Inl (CkptPanic p)
         | (Some _, ckpt1) \<Rightarrow> accumulate_sigs L vals totalPower s sigs ckpt1
         | (None, ckpt1) \<Rightarrow> if cm_Status ckpt1 = Sealed then Inr ckpt1 else accumulate_sigs L vals totalPower s sigs ckpt1)))"

text \<open>\<open>prevBlockID\<close> is what \<open>findLastBlockHash\<close> returned, and \<open>validBLSSigs\<close> what the validation function returned.\<close>

definition buildCheckpointFromVoteExtensions ::
  "ckpt_lib \<Rightarrow> epoching_view \<Rightarrow> ckpt_state \<Rightarrow> u64 \<Rightarrow> bytes \<Rightarrow> (bytes option \<times> bytes) list \<Rightarrow>
    ckpt_error + RawCheckpointWithMeta" where
  "buildCheckpointFromVoteExtensions L ev s epoch prevBlockID validBLSSigs =
     (let ckpt = NewCheckpointWithMeta (NewCheckpoint L epoch prevBlockID) Accumulating;
          vals = ev_ValidatorSet ev epoch
      in case ev_TotalVotingPower ev epoch of
           None \<Rightarrow> Inl (CkptPanic ''unknown total voting power'')
         | Some totalPower \<Rightarrow>
             bindR (accumulate_sigs L vals totalPower s validBLSSigs ckpt) (\<lambda>ckpt1.
             guardR (cm_Status ckpt1 \<noteq> Sealed) (CkptErrorf ''insufficient voting power to build the checkpoint'')
            (Inr ckpt1)))"

subsection \<open>Stored checkpoints\<close>

definition CreateRawCkptWithMeta :: "RawCheckpointWithMeta \<Rightarrow> ckpt_state \<Rightarrow> ckpt_error + ckpt_state" where
  "CreateRawCkptWithMeta cm s =
     guardR (cs_checkpoints s (ck_EpochNum (cm_Ckpt cm)) \<noteq> None) ErrCkptAlreadyExist
    (Inr (s\<lparr>cs_checkpoints := (cs_checkpoints s)(ck_EpochNum (cm_Ckpt cm) \<mapsto> cm)\<rparr>))"

definition GetRawCheckpoint :: "u64 \<Rightarrow> ckpt_state \<Rightarrow> ckpt_error + RawCheckpointWithMeta" where
  "GetRawCheckpoint epoch s = option_to_result ErrCkptDoesNotExist (cs_checkpoints s epoch)"

definition ckpt_GetStatus :: "u64 \<Rightarrow> ckpt_state \<Rightarrow> ckpt_error + CheckpointStatus" where
  "ckpt_GetStatus epoch s = bindR (GetRawCheckpoint epoch s) (\<lambda>cm. Inr (cm_Status cm))"

definition UpdateCheckpoint :: "RawCheckpointWithMeta \<Rightarrow> ckpt_state \<Rightarrow> ckpt_error + ckpt_state" where
  "UpdateCheckpoint cm s =
     bindR (GetRawCheckpoint (ck_EpochNum (cm_Ckpt cm)) s) (\<lambda>_.
     Inr (s\<lparr>cs_checkpoints := (cs_checkpoints s)(ck_EpochNum (cm_Ckpt cm) \<mapsto> cm)\<rparr>))"

definition BuildRawCheckpoint ::
  "ckpt_lib \<Rightarrow> ckpt_ctx \<Rightarrow> u64 \<Rightarrow> bytes \<Rightarrow> ckpt_state \<Rightarrow> ckpt_error + ckpt_state \<times> RawCheckpointWithMeta" where
  "BuildRawCheckpoint L c epochNum blockHash s =
     (let cm = RecordStateUpdate c Accumulating (NewCheckpointWithMeta (NewCheckpoint L epochNum blockHash) Accumulating)
      in bindR (CreateRawCkptWithMeta cm s) (\<lambda>s1. Inr (s1, cm)))"

subsection \<open>Verification\<close>

definition HashSize :: nat where "HashSize = 32"
definition SignatureSize :: nat where "SignatureSize = 48"

definition GetSignBytes :: "u64 \<Rightarrow> bytes \<Rightarrow> bytes" where
  "GetSignBytes epoch hash = U64ToBEBytes epoch @ hash"

definition FromBTCCkptToRawCkpt :: "RawBtcCheckpoint \<Rightarrow> ckpt_error + RawCheckpoint" where
  "FromBTCCkptToRawCkpt btcCkpt =
     guardR (length (rc_BlockHash btcCkpt) \<noteq> HashSize) (CkptErrorf ''invalid block hash length'')
    (guardR (length (rc_BlsSig btcCkpt) \<noteq> SignatureSize) (CkptErrorf ''invalid BLS signature length'')
    (Inr \<lparr>ck_EpochNum = rc_Epoch btcCkpt, ck_BlockHash = rc_BlockHash btcCkpt, ck_Bitmap = rc_BitMap btcCkpt,
       ck_BlsMultiSig = Some (rc_BlsSig btcCkpt)\<rparr>))"

definition FromRawCkptToBTCCkpt :: "RawCheckpoint \<Rightarrow> bytes \<Rightarrow> ckpt_error + RawBtcCheckpoint" where
  "FromRawCkptToBTCCkpt rawCkpt address = (case ck_BlsMultiSig rawCkpt of
       None \<Rightarrow> Inl (CkptPanic ''nil signature'')
     | Some sig \<Rightarrow> Inr \<lparr>rc_Epoch = ck_EpochNum rawCkpt, rc_BlockHash = ck_BlockHash rawCkpt,
         rc_BitMap = ck_Bitmap rawCkpt, rc_SubmitterAddress = address, rc_BlsSig = sig\<rparr>)"

definition RawCheckpoint_ValidateBasic :: "RawCheckpoint \<Rightarrow> ckpt_error + unit" where
  "RawCheckpoint_ValidateBasic ckpt =
     guardR (length (ck_BlockHash ckpt) \<noteq> HashSize) ErrInvalidRawCheckpoint
    (case ck_BlsMultiSig ckpt of
       None \<Rightarrow> Inl ErrInvalidRawCheckpoint
     | Some sig \<Rightarrow> guardR (length sig \<noteq> SignatureSize) ErrInvalidRawCheckpoint (Inr ()))"

definition VerifyRawCheckpoint :: "ckpt_lib \<Rightarrow> epoching_view \<Rightarrow> RawCheckpoint \<Rightarrow> ckpt_state \<Rightarrow> ckpt_error + unit" where
  "VerifyRawCheckpoint L ev ckpt s = (case ev_TotalVotingPower ev (ck_EpochNum ckpt) of
       None \<Rightarrow> Inl (CkptPanic ''unknown total voting power'')
     | Some totalPower \<Rightarrow>
         bindR (FindSubset L (ev_ValidatorSet ev (ck_EpochNum ckpt)) (ck_Bitmap ckpt)) (\<lambda>signerSet.
         bindR (foldR (\<lambda>(keys, sum) v. bindR (GetBlsPubKey (val_Addr v) s) (\<lambda>pk. Inr (keys @ [pk], sum + val_Power v)))
           ([], 0) signerSet) (\<lambda>(signersPubKeys, sum).
         guardR (sint (sum * 3) \<le> sint (totalPower * 2)) ErrInvalidRawCheckpoint
        (case ck_BlsMultiSig ckpt of
           None \<Rightarrow> Inl (CkptPanic ''nil signature'')
         | Some sig \<Rightarrow> (case cl_VerifyMultiSig L sig signersPubKeys (GetSignBytes (ck_EpochNum ckpt) (ck_BlockHash ckpt)) of
             None \<Rightarrow> Inl (CkptErrorf ''VerifyMultiSig'')
           | Some ok \<Rightarrow> guardR (\<not> ok) ErrInvalidRawCheckpoint (Inr ()))))))"

definition ckpt_emit :: "ckpt_event \<Rightarrow> 'x ckpt_world \<Rightarrow> 'x ckpt_world" where
  "ckpt_emit e w = w\<lparr>cw_events := cw_events w @ [e]\<rparr>"

text \<open>A call of the hooks whose error is only logged.\<close>

definition ckpt_hook :: "(ckpt_call \<Rightarrow> 'x \<Rightarrow> bool \<times> 'x) \<Rightarrow> ckpt_call \<Rightarrow> 'x ckpt_world \<Rightarrow> 'x ckpt_world" where
  "ckpt_hook hook call w = w\<lparr>cw_ext := snd (hook call (cw_ext w))\<rparr>"

definition SealCheckpoint ::
  "ckpt_lib \<Rightarrow> epoching_view \<Rightarrow> (ckpt_call \<Rightarrow> 'x \<Rightarrow> bool \<times> 'x) \<Rightarrow> ckpt_ctx \<Rightarrow> RawCheckpointWithMeta \<Rightarrow> 'x ckpt_world \<Rightarrow>
    ckpt_error + 'x ckpt_world" where
  "SealCheckpoint L ev hook c cm w =
     guardR (cm_Status cm \<noteq> Sealed) (CkptErrorf ''the checkpoint is not Sealed'')
    (bindR (VerifyRawCheckpoint L ev (cm_Ckpt cm) (cw_state w)) (\<lambda>_.
     bindR (CreateRawCkptWithMeta cm (cw_state w)) (\<lambda>s1.
     let cm1 = RecordStateUpdate c Sealed cm;
         w1 = ckpt_emit (EventCheckpointSealed cm1) (w\<lparr>cw_state := s1\<rparr>)
     in Inr (ckpt_hook hook (AfterRawCheckpointSealed (ck_EpochNum (cm_Ckpt cm1))) w1))))"

text \<open>The error, if any, and the world: a conflict is reported as an error, but what it recorded stays.\<close>

definition verifyCkptBytes ::
  "ckpt_lib \<Rightarrow> epoching_view \<Rightarrow> (ckpt_call \<Rightarrow> 'x \<Rightarrow> bool \<times> 'x) \<Rightarrow> RawBtcCheckpoint \<Rightarrow> 'x ckpt_world \<Rightarrow>
    ckpt_error option \<times> 'x ckpt_world" where
  "verifyCkptBytes L ev hook rawCheckpoint w =
     (case FromBTCCkptToRawCkpt rawCheckpoint of
        Inl e \<Rightarrow> (Some e, w)
      | Inr ckpt \<Rightarrow> (case RawCheckpoint_ValidateBasic ckpt of
          Inl e \<Rightarrow> (Some e, w)
        | Inr _ \<Rightarrow> (case GetRawCheckpoint (ck_EpochNum ckpt) (cw_state w) of
            Inl e \<Rightarrow> (Some e, w)
          | Inr cm \<Rightarrow>
              let (ok, x) = hook (AfterRawCheckpointBlsSigVerified ckpt) (cw_ext w); w1 = w\<lparr>cw_ext := x\<rparr> in
              if cm_Ckpt cm = ckpt \<and> cm_Status cm \<noteq> Accumulating
              then (if ok then (None, w1) else (Some (CkptErrorf ''failed to record verified checkpoint''), w1))
              else case VerifyRawCheckpoint L ev ckpt (cw_state w) of
                Inl e \<Rightarrow> (Some e, w)
              | Inr _ \<Rightarrow>
                  if \<not> ok then (Some (CkptErrorf ''failed to record verified checkpoint''), w1)
                  else if ck_BlockHash (cm_Ckpt cm) = ck_BlockHash ckpt then (None, w1)
                  else (Some ErrConflictingCheckpoint, ckpt_emit (EventConflictingCheckpoint ckpt cm) w1))))"

definition VerifyCheckpoint ::
  "ckpt_lib \<Rightarrow> epoching_view \<Rightarrow> (ckpt_call \<Rightarrow> 'x \<Rightarrow> bool \<times> 'x) \<Rightarrow> RawBtcCheckpoint \<Rightarrow> 'x ckpt_world \<Rightarrow>
    ckpt_error option \<times> 'x ckpt_world" where
  "VerifyCheckpoint L ev hook checkpoint w = (case verifyCkptBytes L ev hook checkpoint w of
       (Some ErrConflictingCheckpoint, w1) \<Rightarrow>
         (Some ErrConflictingCheckpoint, w1\<lparr>cw_state := (cw_state w1)\<lparr>cs_ConflictingCheckpointReceived := True\<rparr>\<rparr>)
     | (e, w1) \<Rightarrow> (e, w1))"

definition Checkpointing_EndBlocker :: "ckpt_state \<Rightarrow> ckpt_error + unit" where
  "Checkpointing_EndBlocker s =
     guardR (cs_ConflictingCheckpointReceived s) (CkptPanic ''Conflicting checkpoint is found'') (Inr ())"

subsection \<open>Status changes\<close>

definition validateCheckpointStatus :: "RawCheckpointWithMeta \<Rightarrow> CheckpointStatus list \<Rightarrow> ckpt_error + unit" where
  "validateCheckpointStatus cm allowedStatuses =
     (if cm_Status cm \<in> set allowedStatuses then Inr () else Inl ErrInvalidCkptStatus)"

definition setCheckpointStatus ::
  "ckpt_ctx \<Rightarrow> u64 \<Rightarrow> CheckpointStatus list \<Rightarrow> CheckpointStatus \<Rightarrow> ckpt_state \<Rightarrow> ckpt_error + ckpt_state \<times> RawCheckpointWithMeta" where
  "setCheckpointStatus c epoch expectedStatus to s =
     bindR (GetRawCheckpoint epoch s) (\<lambda>cm.
     bindR (validateCheckpointStatus cm expectedStatus) (\<lambda>_.
     let cm1 = RecordStateUpdate c to (cm\<lparr>cm_Status := to\<rparr>)
     in case UpdateCheckpoint cm1 s of
          Inl _ \<Rightarrow> Inl (CkptPanic ''failed to update checkpoint status'')
        | Inr s1 \<Rightarrow> Inr (s1, cm1)))"

text \<open>An error other than a panic is logged and leaves the world as it was.\<close>

definition on_status ::
  "(ckpt_error + ckpt_state \<times> RawCheckpointWithMeta) \<Rightarrow>
    (ckpt_state \<Rightarrow> RawCheckpointWithMeta \<Rightarrow> 'x ckpt_world) \<Rightarrow> 'x ckpt_world \<Rightarrow> ckpt_error + 'x ckpt_world" where
  "on_status r f w = (case r of
       Inl (CkptPanic p) \<Rightarrow> Inl (CkptPanic p) | Inl _ \<Rightarrow> Inr w | Inr (s1, cm) \<Rightarrow> Inr (f s1 cm))"

definition SetCheckpointSubmitted :: "ckpt_ctx \<Rightarrow> u64 \<Rightarrow> 'x ckpt_world \<Rightarrow> ckpt_error + 'x ckpt_world" where
  "SetCheckpointSubmitted c epoch w =
     on_status (setCheckpointStatus c epoch [Sealed] Submitted (cw_state w))
       (\<lambda>s1 cm. ckpt_emit (EventCheckpointSubmitted cm) (w\<lparr>cw_state := s1\<rparr>)) w"

definition SetCheckpointConfirmed ::
  "(ckpt_call \<Rightarrow> 'x \<Rightarrow> bool \<times> 'x) \<Rightarrow> ckpt_ctx \<Rightarrow> u64 \<Rightarrow> 'x ckpt_world \<Rightarrow> ckpt_error + 'x ckpt_world" where
  "SetCheckpointConfirmed hook c epoch w =
     on_status (setCheckpointStatus c epoch [Submitted] Confirmed (cw_state w))
       (\<lambda>s1 cm. ckpt_hook hook (AfterRawCheckpointConfirmed epoch)
          (ckpt_emit (EventCheckpointConfirmed cm) (w\<lparr>cw_state := s1\<rparr>))) w"

definition SetCheckpointFinalized ::
  "(ckpt_call \<Rightarrow> 'x \<Rightarrow> bool \<times> 'x) \<Rightarrow> ckpt_ctx \<Rightarrow> u64 \<Rightarrow> 'x ckpt_world \<Rightarrow> ckpt_error + 'x ckpt_world" where
  "SetCheckpointFinalized hook c epoch w =
     on_status (setCheckpointStatus c epoch [Confirmed] Finalized (cw_state w))
       (\<lambda>s1 cm. ckpt_hook hook (AfterRawCheckpointFinalized epoch)
          (ckpt_emit (EventCheckpointFinalized cm) (w\<lparr>cw_state := s1\<lparr>cs_LastFinalizedEpoch := epoch\<rparr>\<rparr>))) w"

definition SetCheckpointForgotten ::
  "(ckpt_call \<Rightarrow> 'x \<Rightarrow> bool \<times> 'x) \<Rightarrow> ckpt_ctx \<Rightarrow> u64 \<Rightarrow> 'x ckpt_world \<Rightarrow> ckpt_error + 'x ckpt_world" where
  "SetCheckpointForgotten hook c epoch w =
     on_status (setCheckpointStatus c epoch [Submitted, Confirmed] Sealed (cw_state w))
       (\<lambda>s1 cm. ckpt_hook hook (AfterRawCheckpointForgotten (cm_Ckpt cm))
          (ckpt_emit (EventCheckpointForgotten cm) (w\<lparr>cw_state := s1\<rparr>))) w"

subsection \<open>The search for a validator\<close>

lemma bsearch_loop_correct:
  assumes "sorted_wrt (<) (map val_Addr vs)" "0 \<le> lo" "hi < int (length vs)"
    "\<forall>i < length vs. int i < lo \<longrightarrow> val_Addr (vs ! i) < target" "\<forall>i < length vs. hi < int i \<longrightarrow> target < val_Addr (vs ! i)"
  shows "(let r = bsearch_loop vs target lo hi in
    if target \<in> val_Addr ` set vs then 0 \<le> r \<and> r < int (length vs) \<and> val_Addr (vs ! nat r) = target else r = - 1)"
  using assms
proof (induction vs target lo hi rule: bsearch_loop.induct)
  case (1 vs target lo hi)
  have mono: "val_Addr (vs ! i) < val_Addr (vs ! j)" if "i < j" "j < length vs" for i j
    using sorted_wrt_nth_less [OF 1(3), of i j] that by simp
  show ?case
  proof (cases "lo \<le> hi")
    case False
    have "val_Addr (vs ! i) \<noteq> target" if "i < length vs" for i
      using 1(6,7) that False by (cases "int i < lo") auto
    then have "target \<notin> val_Addr ` set vs" by (metis imageE in_set_conv_nth)
    then show ?thesis using False by (simp add: bsearch_loop.simps [of vs])
  next
    case True
    define mid where "mid = lo + (hi - lo) div 2"
    have m: "lo \<le> mid" "mid \<le> hi" using True by (simp_all add: mid_def)
    then have n: "nat mid < length vs" "int (nat mid) = mid" and b: "0 \<le> mid" "mid < int (length vs)" using 1(4,5) by auto
    consider "val_Addr (vs ! nat mid) = target" | "val_Addr (vs ! nat mid) > target" | "val_Addr (vs ! nat mid) < target"
      by force
    then show ?thesis
    proof cases
      case 1
      then have "target \<in> val_Addr ` set vs" using n(1) by force
      then show ?thesis
        using 1 True b by (simp add: bsearch_loop.simps [of vs target lo hi] mid_def [symmetric] Let_def)
    next
      case 2
      have up: "\<forall>i < length vs. mid - 1 < int i \<longrightarrow> target < val_Addr (vs ! i)"
      proof (intro allI impI)
        fix i assume i: "i < length vs" "mid - 1 < int i"
        show "target < val_Addr (vs ! i)"
        proof (cases "i = nat mid")
          case False
          then have "nat mid < i" using i n by linarith
          from mono [OF this i(1)] 2 show ?thesis by simp
        qed (use 2 in simp)
      qed
      have "bsearch_loop vs target lo hi = bsearch_loop vs target lo (mid - 1)"
        using 2 True by (subst bsearch_loop.simps) (auto simp: mid_def [symmetric] Let_def)
      then show ?thesis
        using "1.IH"(1) [OF True mid_def refl] 2 up "1.prems"(1,2,4) m(2) "1.prems"(3) by (simp add: mid_def [symmetric])
    next
      case 3
      have down: "\<forall>i < length vs. int i < mid + 1 \<longrightarrow> val_Addr (vs ! i) < target"
      proof (intro allI impI)
        fix i assume i: "i < length vs" "int i < mid + 1"
        show "val_Addr (vs ! i) < target"
        proof (cases "i = nat mid")
          case False
          then have "i < nat mid" using i n by linarith
          from mono [OF this n(1)] 3 show ?thesis by simp
        qed (use 3 in simp)
      qed
      have "bsearch_loop vs target lo hi = bsearch_loop vs target (mid + 1) hi"
        using 3 True by (subst bsearch_loop.simps) (auto simp: mid_def [symmetric] Let_def)
      then show ?thesis
        using "1.IH"(2) [OF True mid_def refl] 3 down "1.prems"(1,3,5) m(1) "1.prems"(2) by (auto simp: mid_def [symmetric])
    qed
  qed
qed

lemma FindValidatorWithIndex_correct:
  assumes "sorted_wrt (<) (map val_Addr vs)"
  shows "addr \<notin> val_Addr ` set vs \<Longrightarrow> \<exists>e. FindValidatorWithIndex vs addr = Inl (CkptErrorf e)"
    and "FindValidatorWithIndex vs addr = Inr (val, i) \<Longrightarrow> i < length vs \<and> val = vs ! i \<and> val_Addr val = addr"
    and "FindValidatorWithIndex vs addr = Inl e \<Longrightarrow> \<exists>m. e = CkptErrorf m"
  using bsearch_loop_correct [OF assms, of 0 "int (length vs) - 1" addr]
  by (auto simp: FindValidatorWithIndex_def binarySearch_def Let_def split: if_splits)

subsection \<open>What the libraries promise\<close>

text \<open>The aggregate of a list, one element after the other.\<close>

fun aggr :: "('a \<Rightarrow> 'a \<Rightarrow> 'a option) \<Rightarrow> 'a list \<Rightarrow> 'a option" where
  "aggr f [] = None"
| "aggr f (x # xs) = foldl (\<lambda>a y. Option.bind a (\<lambda>a'. f a' y)) (Some x) xs"

lemma aggr_snoc: "xs \<noteq> [] \<Longrightarrow> aggr f (xs @ [y]) = Option.bind (aggr f xs) (\<lambda>a. f a y)"
  by (cases xs) simp_all

text \<open>A new bitmap has no bits set and room for the given number; setting a bit sets that bit only.\<close>

definition bitmap_ok :: "ckpt_lib \<Rightarrow> bool" where
  "bitmap_ok L \<longleftrightarrow> (\<forall>n. n \<le> cl_bm_Len L (cl_bm_New L n)) \<and> (\<forall>n i. \<not> cl_bm_Get L (cl_bm_New L n) i) \<and>
     (\<forall>bm i j. i < cl_bm_Len L bm \<longrightarrow> cl_bm_Len L (cl_bm_Set L bm i) = cl_bm_Len L bm \<and>
        cl_bm_Get L (cl_bm_Set L bm i) j = (j = i \<or> cl_bm_Get L bm j))"

text \<open>Signatures of one message that verify, and their keys, can be aggregated, and the aggregate verifies under the
  keys in any order.\<close>

definition bls_ok :: "ckpt_lib \<Rightarrow> bool" where
  "bls_ok L \<longleftrightarrow> (\<forall>msg ps. ps \<noteq> [] \<and> (\<forall>(pk, sig)\<in>set ps. cl_Verify L sig pk msg = Some True) \<longrightarrow>
     aggr (cl_AggrPK L) (map fst ps) \<noteq> None \<and>
     (\<exists>agg. aggr (cl_AggrSig L) (map snd ps) = Some agg \<and>
        (\<forall>pks. mset pks = mset (map fst ps) \<longrightarrow> cl_VerifyMultiSig L agg pks msg = Some True)))"

lemma bls_okD:
  assumes "bls_ok L" "ps \<noteq> []" "\<forall>(pk, sig)\<in>set ps. cl_Verify L sig pk msg = Some True"
  shows "\<exists>a. aggr (cl_AggrPK L) (map fst ps) = Some a"
    "\<exists>agg. aggr (cl_AggrSig L) (map snd ps) = Some agg \<and>
      (\<forall>pks. mset pks = mset (map fst ps) \<longrightarrow> cl_VerifyMultiSig L agg pks msg = Some True)"
  using assms unfolding bls_ok_def by blast+

subsection \<open>Accumulation\<close>

text \<open>The checkpoint holds the aggregate of the signatures \<open>map snd ps\<close> of the validators at the distinct positions
  \<open>idxs\<close>, which are the bits of its bitmap, and the sum of their powers.\<close>

definition acc_inv where
  "acc_inv L vals s msg tp cm idxs ps \<longleftrightarrow>
     distinct idxs \<and> set idxs \<subseteq> {..<length vals} \<and>
     (\<forall>i. cl_bm_Get L (ck_Bitmap (cm_Ckpt cm)) i \<longleftrightarrow> i \<in> set idxs) \<and>
     length vals \<le> cl_bm_Len L (ck_Bitmap (cm_Ckpt cm)) \<and>
     map Some (map fst ps) = map (\<lambda>i. cs_addrToBlsKeys s (val_Addr (vals ! i))) idxs \<and>
     (\<forall>(pk, sig)\<in>set ps. cl_Verify L sig pk msg = Some True) \<and>
     ck_BlsMultiSig (cm_Ckpt cm) = aggr (cl_AggrSig L) (map snd ps) \<and>
     cm_BlsAggrPk cm = aggr (cl_AggrPK L) (map fst ps) \<and>
     cm_PowerSum cm = sum_list (map (\<lambda>i. val_Power (vals ! i)) idxs) \<and>
     (cm_Status cm = Accumulating \<or> cm_Status cm = Sealed \<and> sint (cm_PowerSum cm * 3) > sint (tp * 2 :: u64))"

definition same_checkpoint :: "RawCheckpointWithMeta \<Rightarrow> RawCheckpointWithMeta \<Rightarrow> bool" where
  "same_checkpoint cm cm' \<longleftrightarrow> ck_EpochNum (cm_Ckpt cm') = ck_EpochNum (cm_Ckpt cm) \<and>
     ck_BlockHash (cm_Ckpt cm') = ck_BlockHash (cm_Ckpt cm) \<and> cm_Lifecycle cm' = cm_Lifecycle cm"

lemma Accumulate_step:
  assumes lib: "bitmap_ok L" "bls_ok L" and vals: "sorted_wrt (<) (map val_Addr vals)"
    and inv: "acc_inv L vals s msg tp cm idxs ps" "cm_Status cm = Accumulating"
    and key: "cs_addrToBlsKeys s addr = Some pk" "cl_Verify L sig pk msg = Some True"
    and run: "Accumulate L vals addr pk sig tp cm = (e, cm')"
  shows "(\<exists>err. e = Some err \<and> (\<forall>p. err \<noteq> CkptPanic p) \<and> cm' = cm) \<or>
    (e = None \<and> same_checkpoint cm cm' \<and> (\<exists>i. acc_inv L vals s msg tp cm' (idxs @ [i]) (ps @ [(pk, sig)])))"
proof (cases "FindValidatorWithIndex vals addr")
  case (Inl err)
  then show ?thesis using run inv(2) FindValidatorWithIndex_correct(3) [OF vals Inl] by (auto simp: Accumulate_def)
next
  case (Inr vi)
  obtain val i where vi: "vi = (val, i)" by (cases vi)
  have f: "i < length vals" "val = vals ! i" "val_Addr val = addr"
    using FindValidatorWithIndex_correct(2) [OF vals] Inr vi by auto
  note I = inv(1) [unfolded acc_inv_def]
  let ?bm = "ck_Bitmap (cm_Ckpt cm)"
  have len: "i < cl_bm_Len L ?bm" using I f(1) by linarith
  show ?thesis
  proof (cases "cl_bm_Get L ?bm i")
    case True
    then show ?thesis using run inv(2) Inr vi len by (auto simp: Accumulate_def)
  next
    case False
    have ok: "\<forall>(pk, sig)\<in>set (ps @ [(pk, sig)]). cl_Verify L sig pk msg = Some True" using I key(2) by auto
    obtain agg where agg: "aggr (cl_AggrSig L) (map snd (ps @ [(pk, sig)])) = Some agg" using bls_okD(2) [OF lib(2) _ ok] by blast
    obtain apk where apk: "aggr (cl_AggrPK L) (map fst (ps @ [(pk, sig)])) = Some apk" using bls_okD(1) [OF lib(2) _ ok] by blast
    have s1: "(case ck_BlsMultiSig (cm_Ckpt cm) of Some s \<Rightarrow> cl_AggrSig L s sig | None \<Rightarrow> Some sig) = Some agg"
      using agg I bls_okD(2) [OF lib(2), of ps msg] by (cases "ps = []") (auto simp: aggr_snoc)
    have s2: "(case cm_BlsAggrPk cm of Some p \<Rightarrow> cl_AggrPK L p pk | None \<Rightarrow> Some pk) = Some apk"
      using apk I bls_okD(1) [OF lib(2), of ps msg] by (cases "ps = []") (auto simp: aggr_snoc)
    define cm1 where "cm1 = cm\<lparr>cm_Ckpt := (cm_Ckpt cm)\<lparr>ck_BlsMultiSig := Some agg\<rparr>\<rparr>"
    define cm2 where "cm2 = cm1\<lparr>cm_BlsAggrPk := Some apk,
      cm_Ckpt := (cm_Ckpt cm1)\<lparr>ck_Bitmap := cl_bm_Set L (ck_Bitmap (cm_Ckpt cm1)) i\<rparr>,
      cm_PowerSum := cm_PowerSum cm1 + val_Power val\<rparr>"
    have run': "e = None" "cm' = (if sint (cm_PowerSum cm2 * 3) > sint (tp * 2) then cm2\<lparr>cm_Status := Sealed\<rparr> else cm2)"
      using run inv(2) Inr vi len False s1 s2 by (auto simp: Accumulate_def Let_def cm2_def cm1_def)
    have bits: "cl_bm_Len L (cl_bm_Set L ?bm i) = cl_bm_Len L ?bm" "cl_bm_Get L (cl_bm_Set L ?bm i) j = (j = i \<or> cl_bm_Get L ?bm j)" for j
      using lib(1) len unfolding bitmap_ok_def by blast+
    have "acc_inv L vals s msg tp cm' (idxs @ [i]) (ps @ [(pk, sig)])"
      using I f key(1) False ok agg apk bits inv(2) unfolding acc_inv_def run'(2)
      by (auto simp: cm2_def cm1_def)
    moreover have "same_checkpoint cm cm'" unfolding run'(2) same_checkpoint_def by (simp add: cm2_def cm1_def)
    ultimately show ?thesis using run'(1) by blast
  qed
qed

lemma accumulate_sigs_inv:
  assumes lib: "bitmap_ok L" "bls_ok L" and vals: "sorted_wrt (<) (map val_Addr vals)"
    and "acc_inv L vals s msg tp cm idxs ps" "cm_Status cm = Accumulating"
    and "\<forall>(signer, sig)\<in>set sigs. \<forall>a pk. signer = Some a \<and> cs_addrToBlsKeys s a = Some pk \<longrightarrow> cl_Verify L sig pk msg = Some True"
  shows "\<exists>cm' idxs' ps'. accumulate_sigs L vals tp s sigs cm = Inr cm' \<and> same_checkpoint cm cm' \<and>
    acc_inv L vals s msg tp cm' idxs' ps'"
  using assms(4-)
proof (induction sigs arbitrary: cm idxs ps)
  case Nil
  then show ?case by (auto simp: same_checkpoint_def)
next
  case (Cons p sigs)
  obtain signer sig where p: "p = (signer, sig)" by (cases p)
  have IH: "\<exists>cm' idxs' ps'. accumulate_sigs L vals tp s sigs c = Inr cm' \<and> same_checkpoint c cm' \<and> acc_inv L vals s msg tp cm' idxs' ps'"
    if "acc_inv L vals s msg tp c is qs" "cm_Status c = Accumulating" for c "is" qs
    by (rule Cons.IH [OF that]) (use Cons.prems(3) in auto)
  show ?case
  proof (cases "\<exists>a pk. signer = Some a \<and> cs_addrToBlsKeys s a = Some pk")
    case False
    then show ?thesis
      using IH [OF Cons.prems(1,2)] p by (auto simp: GetBlsPubKey_def split: option.splits)
  next
    case True
    then obtain a pk where a: "signer = Some a" "cs_addrToBlsKeys s a = Some pk" by blast
    have v: "cl_Verify L sig pk msg = Some True" using Cons.prems(3) p a by auto
    obtain e c where run: "Accumulate L vals a pk sig tp cm = (e, c)" by (cases "Accumulate L vals a pk sig tp cm")
    from Accumulate_step [OF lib vals Cons.prems(1,2) a(2) v run] consider
        err where "e = Some err" "\<forall>q. err \<noteq> CkptPanic q" "c = cm"
      | i where "e = None" "same_checkpoint cm c" "acc_inv L vals s msg tp c (idxs @ [i]) (ps @ [(pk, sig)])" by blast
    then show ?thesis
    proof cases
      case 1
      then show ?thesis
        using IH [OF Cons.prems(1,2)] p a run by (cases err) (auto simp: GetBlsPubKey_def)
    next
      case 2
      show ?thesis
      proof (cases "cm_Status c = Sealed")
        case True
        then show ?thesis using 2 p a run by (auto simp: GetBlsPubKey_def)
      next
        case False
        then have "cm_Status c = Accumulating" using 2(3) by (simp add: acc_inv_def)
        from IH [OF 2(3) this] 2 p a run False show ?thesis by (auto simp: GetBlsPubKey_def same_checkpoint_def)
      qed
    qed
  qed
qed

text \<open>The keys and the power that \<open>VerifyRawCheckpoint\<close> collects.\<close>

lemma collect_signers:
  "map Some ks = map (\<lambda>v. cs_addrToBlsKeys s (val_Addr v)) vs \<Longrightarrow>
    foldR (\<lambda>(keys, sum) v. bindR (GetBlsPubKey (val_Addr v) s) (\<lambda>pk. Inr (keys @ [pk], sum + val_Power v))) (acc, p) vs =
      Inr (acc @ ks, p + sum_list (map val_Power vs))"
proof (induction vs arbitrary: ks acc p)
  case (Cons v vs)
  then obtain k ks' where ks: "ks = k # ks'" "cs_addrToBlsKeys s (val_Addr v) = Some k" by (cases ks) auto
  then show ?case using Cons.IH [of ks' "acc @ [k]" "p + val_Power v"] Cons.prems by (simp add: GetBlsPubKey_def add.assoc)
qed simp

lemma acc_inv_verifies:
  assumes "bls_ok L" "acc_inv L vals s (GetSignBytes (ck_EpochNum (cm_Ckpt cm)) (ck_BlockHash (cm_Ckpt cm))) tp cm idxs ps"
    "cm_Status cm = Sealed" "ev_ValidatorSet ev (ck_EpochNum (cm_Ckpt cm)) = vals"
    "ev_TotalVotingPower ev (ck_EpochNum (cm_Ckpt cm)) = Some tp" "sint (tp * 2) \<ge> 0"
  shows "VerifyRawCheckpoint L ev (cm_Ckpt cm) s = Inr ()"
proof -
  note I = assms(2) [unfolded acc_inv_def]
  define js where "js = filter (cl_bm_Get L (ck_Bitmap (cm_Ckpt cm))) [0..<length vals]"
  have "set js = set idxs" unfolding js_def using I by auto
  moreover have "distinct js" "distinct idxs" using I by (simp_all add: js_def)
  ultimately have m: "mset js = mset idxs" using set_eq_iff_mset_eq_distinct by blast
  have key: "cs_addrToBlsKeys s (val_Addr (vals ! i)) \<noteq> None" if "i \<in> set idxs" for i
  proof -
    have "cs_addrToBlsKeys s (val_Addr (vals ! i)) \<in> set (map Some (map fst ps))" using I that by auto
    then show ?thesis by auto
  qed
  define ks where "ks = map (\<lambda>i. the (cs_addrToBlsKeys s (val_Addr (vals ! i)))) js"
  have ks: "map Some ks = map (\<lambda>v. cs_addrToBlsKeys s (val_Addr v)) (map (\<lambda>i. vals ! i) js)"
    unfolding ks_def using key mset_eq_setD [OF m] by auto
  have fst: "map fst ps = map (\<lambda>i. the (cs_addrToBlsKeys s (val_Addr (vals ! i)))) idxs"
  proof -
    have "map Some (map fst ps) = map (\<lambda>i. cs_addrToBlsKeys s (val_Addr (vals ! i))) idxs" using I by (elim conjE)
    from arg_cong [OF this, of "map the"] show ?thesis by (simp add: comp_def)
  qed
  have "mset ks = mset (map fst ps)" unfolding fst ks_def using m by simp
  moreover have sum: "sum_list (map val_Power (map (\<lambda>i. vals ! i) js)) = cm_PowerSum cm"
  proof -
    have "mset (map (\<lambda>i. val_Power (vals ! i)) js) = mset (map (\<lambda>i. val_Power (vals ! i)) idxs)" using m by simp
    then have "sum_list (map (\<lambda>i. val_Power (vals ! i)) js) = sum_list (map (\<lambda>i. val_Power (vals ! i)) idxs)"
      by (metis sum_mset_sum_list)
    moreover have "cm_PowerSum cm = sum_list (map (\<lambda>i. val_Power (vals ! i)) idxs)" using I by (elim conjE)
    ultimately show ?thesis by (simp add: comp_def)
  qed
  moreover have "ps \<noteq> []"
  proof
    assume "ps = []"
    then have "cm_PowerSum cm = 0" using I by simp
    moreover have "sint (tp * 2) < sint (cm_PowerSum cm * 3)" using I assms(3) by auto
    ultimately show False using assms(6) by simp
  qed
  moreover have ok: "\<forall>(pk, sig)\<in>set ps. cl_Verify L sig pk (GetSignBytes (ck_EpochNum (cm_Ckpt cm)) (ck_BlockHash (cm_Ckpt cm))) = Some True"
    "ck_BlsMultiSig (cm_Ckpt cm) = aggr (cl_AggrSig L) (map snd ps)" "length vals \<le> cl_bm_Len L (ck_Bitmap (cm_Ckpt cm))"
    by (insert I, (elim conjE, assumption)+)
  ultimately obtain agg where agg: "ck_BlsMultiSig (cm_Ckpt cm) = Some agg"
    "cl_VerifyMultiSig L agg ks (GetSignBytes (ck_EpochNum (cm_Ckpt cm)) (ck_BlockHash (cm_Ckpt cm))) = Some True"
    using bls_okD(2) [OF assms(1) _ ok(1)] by auto
  have "\<not> sint (cm_PowerSum cm * 3) \<le> sint (tp * 2)" using I assms(3) by auto
  then show ?thesis
    unfolding VerifyRawCheckpoint_def FindSubset_def assms(4,5) js_def [symmetric]
    using collect_signers [OF ks, of "[]" 0] sum agg ok(3) by simp
qed

text \<open>C10. The checkpoint that a proposer builds is one that every validator seals. Whatever signatures of
  validators it is given, in any order and with repetitions, when they verify then the checkpoint counts each
  signer once and holds the aggregate of exactly the signatures of its bitmap, so that \<open>SealCheckpoint\<close>, which
  verifies power and aggregate from the bitmap alone, accepts and stores it. The stored checkpoint has no state
  update in its lifecycle: the update to \<open>Sealed\<close> is recorded after the checkpoint is written.\<close>

theorem built_checkpoint_seals:
  assumes lib: "bitmap_ok L" "bls_ok L" and vals: "sorted_wrt (<) (map val_Addr (ev_ValidatorSet ev epoch))"
      "length (ev_ValidatorSet ev epoch) \<le> BitmapBits"
    and power: "ev_TotalVotingPower ev epoch = Some tp" "sint (tp * 2) \<ge> 0"
    and sigs: "\<forall>(signer, sig)\<in>set validBLSSigs. \<forall>a pk. signer = Some a \<and> cs_addrToBlsKeys (cw_state w) a = Some pk \<longrightarrow>
      cl_Verify L sig pk (GetSignBytes epoch blockHash) = Some True"
    and build: "buildCheckpointFromVoteExtensions L ev (cw_state w) epoch blockHash validBLSSigs = Inr cm"
    and new: "cs_checkpoints (cw_state w) epoch = None"
  shows "\<exists>w'. SealCheckpoint L ev hook c cm w = Inr w' \<and> cs_checkpoints (cw_state w') epoch = Some cm \<and>
    cm_Status cm = Sealed \<and> cm_Lifecycle cm = []"
proof -
  let ?s = "cw_state w" and ?vals = "ev_ValidatorSet ev epoch" and ?msg = "GetSignBytes epoch blockHash"
  let ?start = "NewCheckpointWithMeta (NewCheckpoint L epoch blockHash) Accumulating"
  have "length ?vals \<le> cl_bm_Len L (cl_bm_New L BitmapBits)" using lib(1) vals(2) le_trans unfolding bitmap_ok_def by blast
  then have "acc_inv L ?vals ?s ?msg tp ?start [] []"
    using lib(1) by (auto simp: acc_inv_def NewCheckpointWithMeta_def NewCheckpoint_def bitmap_ok_def)
  moreover have "cm_Status ?start = Accumulating" by (simp add: NewCheckpointWithMeta_def)
  ultimately obtain cm' idxs ps where run: "accumulate_sigs L ?vals tp ?s validBLSSigs ?start = Inr cm'"
    "same_checkpoint ?start cm'" "acc_inv L ?vals ?s ?msg tp cm' idxs ps"
    using accumulate_sigs_inv [OF lib vals(1) _ _ sigs] by blast
  have cm: "cm' = cm" "cm_Status cm = Sealed"
    using build power(1) run(1) by (auto simp: buildCheckpointFromVoteExtensions_def result_simps)
  have ck: "ck_EpochNum (cm_Ckpt cm) = epoch" "ck_BlockHash (cm_Ckpt cm) = blockHash" "cm_Lifecycle cm = []"
    using run(2) cm(1) by (simp_all add: same_checkpoint_def NewCheckpointWithMeta_def NewCheckpoint_def)
  have "VerifyRawCheckpoint L ev (cm_Ckpt cm) ?s = Inr ()"
    by (rule acc_inv_verifies [OF lib(2) run(3) [unfolded cm(1), folded ck(1,2)] cm(2)]) (use ck(1) power in simp_all)
  then show ?thesis
    using cm(2) ck new by (simp add: SealCheckpoint_def CreateRawCkptWithMeta_def Let_def ckpt_emit_def ckpt_hook_def)
qed

text \<open>Keys and signatures are words, an aggregate their concatenation; bits are characters. Two validators, one of
  which signs twice.\<close>

definition word_lib :: ckpt_lib where
  "word_lib = \<lparr>cl_bm_New = (\<lambda>n. replicate n CHR ''0''), cl_bm_Len = length,
     cl_bm_Get = (\<lambda>bm i. i < length bm \<and> bm ! i = CHR ''1''), cl_bm_Set = (\<lambda>bm i. bm[i := CHR ''1'']),
     cl_AggrSig = (\<lambda>a b. Some (a @ b)), cl_AggrPK = (\<lambda>a b. Some (a @ b)),
     cl_Verify = (\<lambda>sig pk msg. Some (sig = pk)),
     cl_VerifyMultiSig = (\<lambda>agg pks msg. Some (sort agg = sort (concat pks)))\<rparr>"

definition two_validators :: epoching_view where
  "two_validators = \<lparr>ev_ValidatorSet = (\<lambda>_. [\<lparr>val_Addr = ''a'', val_Power = 1\<rparr>, \<lparr>val_Addr = ''b'', val_Power = 2\<rparr>]),
     ev_TotalVotingPower = (\<lambda>_. Some 3)\<rparr>"

definition two_keys :: "unit ckpt_world" where
  "two_keys = \<lparr>cw_state = \<lparr>cs_checkpoints = Map.empty, cs_addrToBlsKeys = [''a'' \<mapsto> ''A'', ''b'' \<mapsto> ''B''],
     cs_blsKeysToAddr = [''A'' \<mapsto> ''a'', ''B'' \<mapsto> ''b''], cs_LastFinalizedEpoch = 0,
     cs_ConflictingCheckpointReceived = False\<rparr>, cw_ext = (), cw_events = []\<rparr>"

definition two_sigs :: "(bytes option \<times> bytes) list" where
  "two_sigs = [(Some ''b'', ''B''), (None, ''x''), (Some ''b'', ''B''), (Some ''a'', ''A'')]"

lemma aggr_append: "aggr (\<lambda>a b. Some (a @ b)) (x # xs) = Some (x @ concat xs)"
proof -
  have "foldl (\<lambda>a y. Option.bind a (\<lambda>a'. Some (a' @ y))) (Some x) xs = Some (x @ concat xs)" for x :: "'a list"
    by (induction xs arbitrary: x) auto
  then show ?thesis by simp
qed

lemma word_lib_ok: "bitmap_ok word_lib" "bls_ok word_lib"
proof -
  show "bitmap_ok word_lib" by (auto simp: bitmap_ok_def word_lib_def nth_list_update)
  have "\<exists>agg. aggr (cl_AggrSig word_lib) (map snd ps) = Some agg \<and>
      (\<forall>pks. mset pks = mset (map fst ps) \<longrightarrow> cl_VerifyMultiSig word_lib agg pks msg = Some True)"
    if "ps \<noteq> []" "\<forall>(pk, sig)\<in>set ps. cl_Verify word_lib sig pk msg = Some True" for ps msg
  proof -
    have snd: "map snd ps = map fst ps" using that(2) by (auto simp: word_lib_def)
    have "mset (concat pks) = mset (concat (map fst ps))" if "mset pks = mset (map fst ps)" for pks
      using that unfolding mset_concat by (metis mset_map sum_mset_sum_list)
    then show ?thesis unfolding snd using that(1)
      by (cases ps) (auto simp: word_lib_def aggr_append simp del: aggr.simps intro!: properties_for_sort)
  qed
  moreover have "aggr (cl_AggrPK word_lib) (map fst ps) \<noteq> None" if "ps \<noteq> []" for ps :: "(bytes \<times> bytes) list"
    using that by (cases ps) (auto simp: word_lib_def aggr_append simp del: aggr.simps)
  ultimately show "bls_ok word_lib" unfolding bls_ok_def by blast
qed

theorem built_checkpoint_seals_witness:
  "\<exists>cm w'. buildCheckpointFromVoteExtensions word_lib two_validators (cw_state two_keys) 7 (replicate 32 CHR ''h'') two_sigs = Inr cm \<and>
    SealCheckpoint word_lib two_validators (\<lambda>_ x. (True, x)) \<lparr>cc_Height = 9, cc_Time = 0\<rparr> cm two_keys = Inr w'"
proof -
  let ?b = "buildCheckpointFromVoteExtensions word_lib two_validators (cw_state two_keys) 7 (replicate 32 CHR ''h'') two_sigs"
  have "case ?b of Inl _ \<Rightarrow> False | Inr _ \<Rightarrow> True" by code_simp
  then obtain cm where cm: "?b = Inr cm" by (auto split: sum.splits)
  show ?thesis
    using built_checkpoint_seals [OF word_lib_ok _ _ _ _ _ cm] cm
    by (fastforce simp: two_validators_def two_keys_def two_sigs_def word_lib_def BitmapBits_def BitMapLength_def)
qed

end
