(* ===== verification/BTC_Checkpoint.thy ===== *)
theory BTC_Checkpoint
  imports BTC_Light_Client SPV_Proof Checkpointing
begin

text \<open>
  Submissions of checkpoints to Bitcoin (\<open>x/btccheckpoint\<close>): the message that reports a submission, and the check
  at the end of a block that drops submissions which left the main chain and confirms or finalises epochs by
  the depth of their best submission (\<open>keeper/keeper.go\<close>, \<open>keeper/submissions.go\<close>, \<open>keeper/msg_server.go\<close>,
  \<open>keeper/hooks.go\<close>, \<open>keeper/params.go\<close>, \<open>types/types.go\<close>, \<open>types/msgs.go\<close>, \<open>types/params.go\<close>, \<open>abci.go\<close>).

  The light client is the model of \<open>BTC_Light_Client\<close> and checkpointing that of \<open>Checkpointing\<close>: their functions
  are called, not assumed. Hooks and the incentive module share the state of type \<open>'x\<close> of the checkpointing world.
\<close>

subsection \<open>Data\<close>

datatype bc_error =
    Bc_ErrInvalidCheckpointProof
  | Bc_ErrDuplicatedSubmission
  | Bc_ErrNoCheckpointsForPreviousEpoch
  | Bc_ErrInvalidHeader
  | Bc_ErrProvidedHeaderDoesNotHaveAncestor
  | Bc_ErrEpochAlreadyFinalized
  | Bc_ErrInvalidSigner
  | Bc_ErrInvalidProposalMsg
  | ErrSubmissionUnknown
  | BcCheckpointing ckpt_error
  | BcErrorf string
  | BcPanic string

datatype BtcStatus = Btc_Submitted | Btc_Confirmed | Btc_Finalized

fun btc_number :: "BtcStatus \<Rightarrow> nat" where
  "btc_number Btc_Submitted = 0"
| "btc_number Btc_Confirmed = 1"
| "btc_number Btc_Finalized = 2"

instantiation BtcStatus :: linorder
begin

definition less_eq_BtcStatus :: "BtcStatus \<Rightarrow> BtcStatus \<Rightarrow> bool" where
  "a \<le> b \<longleftrightarrow> btc_number a \<le> btc_number b"

definition less_BtcStatus :: "BtcStatus \<Rightarrow> BtcStatus \<Rightarrow> bool" where
  "a < b \<longleftrightarrow> btc_number a < btc_number b"

instance
proof
  fix a b :: BtcStatus
  show "a \<le> b \<Longrightarrow> b \<le> a \<Longrightarrow> a = b" by (cases a; cases b) (simp_all add: less_eq_BtcStatus_def)
qed (auto simp: less_eq_BtcStatus_def less_BtcStatus_def)

end

lemmas status_order = less_eq_BtcStatus_def less_BtcStatus_def

record TransactionKey =
  tk_Index :: u32
  tk_Hash :: bytes

type_synonym SubmissionKey = "TransactionKey list"

record TransactionInfo =
  ti_Key :: TransactionKey
  ti_Transaction :: bytes
  ti_Proof :: bytes

record CheckpointAddresses =
  ca_Submitter :: bytes
  ca_Reporter :: bytes

record SubmissionData =
  sd_VigilanteAddresses :: CheckpointAddresses
  sd_TxsInfo :: "TransactionInfo list"
  sd_Epoch :: u64

record EpochData =
  ed_Keys :: "SubmissionKey list"
  ed_Status :: BtcStatus

record SubmissionBtcInfo =
  si_SubmissionKey :: SubmissionKey
  si_OldestBlockDepth :: u32
  si_YoungestBlockDepth :: u32
  si_YoungestBlockHash :: bytes
  si_YoungestBlockLowestTxIdx :: u32

record 't RawCheckpointSubmission =
  rs_Reporter :: bytes
  rs_Proof1 :: "'t ParsedProof"
  rs_Proof2 :: "'t ParsedProof"
  rs_CheckpointData :: RawBtcCheckpoint

record bc_Params =
  bp_BtcConfirmationDepth :: u32
  bp_CheckpointFinalizationTimeout :: u32
  bp_CheckpointTag :: string

record 'b MsgInsertBTCSpvProof =
  mip_Submitter :: string
  mip_Proofs :: "'b BTCSpvProof list"

record epochChangesSummary =
  ec_SubmissionsToDelete :: "SubmissionKey list"
  ec_SubmissionsToKeep :: "SubmissionKey list"
  ec_EpochBestSubmission :: "SubmissionBtcInfo option"
  ec_BestSubmissionIdx :: nat

record BTCCheckpointInfo =
  ci_EpochNumber :: u64
  ci_BestSubmissionBtcBlockHeight :: u32
  ci_BestSubmissionBtcBlockHash :: bytes
  ci_BestSubmissionTransactions :: "TransactionInfo list"
  ci_BestSubmissionVigilanteAddressList :: "CheckpointAddresses list"

text \<open>The stores of the module. \<open>bc_LightClientUpdated\<close> is the key of the transient store, which is cleared after
  every block.\<close>

record bc_state =
  bc_submissions :: "SubmissionKey \<rightharpoonup> SubmissionData"
  bc_epochs :: "(u64, EpochData) kv"
  bc_lastFinalizedEpoch :: u64
  bc_LightClientUpdated :: bool
  bc_params :: bc_Params

record 'x bc_world =
  bw_state :: bc_state
  bw_ckpt :: "'x ckpt_world"

text \<open>What the message server is given: the libraries, \<open>AccAddressFromBech32\<close>, the view of epoching, the hooks of
  checkpointing and \<open>IndexRefundableMsg\<close> of the incentive module.\<close>

record ('t, 'b, 'x) bc_env =
  be_spv :: "('t, 'b) spv_lib"
  be_sha256 :: "bytes \<Rightarrow> bytes"
  be_addr_of :: "string \<Rightarrow> bytes option"
  be_ckpt_lib :: ckpt_lib
  be_epoching :: epoching_view
  be_hook :: "ckpt_call \<Rightarrow> 'x \<Rightarrow> bool \<times> 'x"
  be_refund :: "'b MsgInsertBTCSpvProof \<Rightarrow> 'x \<Rightarrow> 'x"

subsection \<open>Parameters\<close>

definition hex_digit :: "char \<Rightarrow> nat option" where
  "hex_digit c =
     (let n = of_char c in
      if 48 \<le> n \<and> n \<le> 57 then Some (n - 48)
      else if 97 \<le> n \<and> n \<le> 102 then Some (n - 87)
      else if 65 \<le> n \<and> n \<le> 70 then Some (n - 55)
      else None)"

fun hex_DecodeString :: "string \<Rightarrow> bytes option" where
  "hex_DecodeString [] = Some []"
| "hex_DecodeString [_] = None"
| "hex_DecodeString (a # b # s) = (case (hex_digit a, hex_digit b, hex_DecodeString s) of
     (Some x, Some y, Some bs) \<Rightarrow> Some (char_of (16 * x + y) # bs) | _ \<Rightarrow> None)"

definition validateCheckpointTag :: "string \<Rightarrow> bc_error + unit" where
  "validateCheckpointTag t = (case hex_DecodeString t of
       None \<Rightarrow> Inl (BcErrorf ''checkpoint tag should be in valid hex format'')
     | Some decoded \<Rightarrow> guardR (length decoded \<noteq> TagLength) (BcErrorf ''checkpoint tag length'') (Inr ()))"

definition bc_Params_Validate :: "bc_Params \<Rightarrow> bc_error + unit" where
  "bc_Params_Validate p =
     guardR (bp_BtcConfirmationDepth p \<le> 0) (BcErrorf ''BtcConfirmationDepth must be positive'')
    (guardR (bp_CheckpointFinalizationTimeout p \<le> 0) (BcErrorf ''CheckpointFinalizationTimeout must be positive'')
    (bindR (validateCheckpointTag (bp_CheckpointTag p)) (\<lambda>_.
     guardR (bp_BtcConfirmationDepth p \<ge> bp_CheckpointFinalizationTimeout p)
       (BcErrorf ''BtcConfirmationDepth should be smaller than CheckpointFinalizationTimeout'')
    (Inr ()))))"

definition bc_SetParams :: "bc_Params \<Rightarrow> bc_state \<Rightarrow> bc_error + bc_state" where
  "bc_SetParams p s = bindR (bc_Params_Validate p) (\<lambda>_. Inr (s\<lparr>bc_params := p\<rparr>))"

definition bc_UpdateParams :: "string \<Rightarrow> string \<Rightarrow> bc_Params \<Rightarrow> bc_state \<Rightarrow> bc_error + bc_state" where
  "bc_UpdateParams authority reqAuthority p s =
     guardR (authority \<noteq> reqAuthority) Bc_ErrInvalidSigner
    (case bc_Params_Validate p of
       Inl _ \<Rightarrow> Inl Bc_ErrInvalidProposalMsg
     | Inr _ \<Rightarrow>
         guardR (bp_CheckpointFinalizationTimeout p \<noteq> bp_CheckpointFinalizationTimeout (bc_params s)) Bc_ErrInvalidProposalMsg
        (bc_SetParams p s))"

definition GetExpectedTag :: "bc_state \<Rightarrow> bc_error + bytes" where
  "GetExpectedTag s =
     option_to_result (BcPanic ''Tag should always be valid'') (hex_DecodeString (bp_CheckpointTag (bc_params s)))"

subsection \<open>Where a submission is on Bitcoin\<close>

definition headerDepth :: "'b lc_state \<Rightarrow> bytes \<Rightarrow> bc_error + u32" where
  "headerDepth lc headerHash = (case MainChainDepth (Some headerHash) lc of
       Inl (LcPanic p) \<Rightarrow> Inl (BcPanic p) | Inl _ \<Rightarrow> Inl ErrSubmissionUnknown | Inr blockDepth \<Rightarrow> Inr blockDepth)"

text \<open>The loop over the transactions, with the depth and hash of the youngest block, the lowest index there and the
  depth of the oldest block.\<close>

definition block_step ::
  "'b lc_state \<Rightarrow> u32 \<times> bytes option \<times> u32 \<times> u32 \<Rightarrow> TransactionKey \<Rightarrow> bc_error + u32 \<times> bytes option \<times> u32 \<times> u32" where
  "block_step lc acc tk = (case acc of (youngestBlockDepth, youngestBlockHash, lowestIndex, oldestBlockDepth) \<Rightarrow>
     bindR (headerDepth lc (tk_Hash tk)) (\<lambda>currentBlockDepth.
     let (youngestBlockDepth, lowestIndex, youngestBlockHash) =
           (if currentBlockDepth < youngestBlockDepth then (currentBlockDepth, tk_Index tk, Some (tk_Hash tk))
            else (youngestBlockDepth, lowestIndex, youngestBlockHash));
         lowestIndex = (if currentBlockDepth = youngestBlockDepth \<and> tk_Index tk < lowestIndex then tk_Index tk else lowestIndex);
         oldestBlockDepth = (if currentBlockDepth > oldestBlockDepth then currentBlockDepth else oldestBlockDepth)
     in Inr (youngestBlockDepth, youngestBlockHash, lowestIndex, oldestBlockDepth)))"

definition GetSubmissionBtcInfo :: "'b lc_state \<Rightarrow> SubmissionKey \<Rightarrow> bc_error + SubmissionBtcInfo" where
  "GetSubmissionBtcInfo lc sk =
     bindR (foldR (block_step lc) (- 1, None, - 1, 0) sk) (\<lambda>(youngestBlockDepth, youngestBlockHash, lowestIndex, oldestBlockDepth).
     case youngestBlockHash of
       None \<Rightarrow> Inl (BcPanic ''nil pointer dereference'')
     | Some h \<Rightarrow> Inr \<lparr>si_SubmissionKey = sk, si_OldestBlockDepth = oldestBlockDepth, si_YoungestBlockDepth = youngestBlockDepth,
         si_YoungestBlockHash = h, si_YoungestBlockLowestTxIdx = lowestIndex\<rparr>)"

definition HappenedAfter :: "SubmissionBtcInfo \<Rightarrow> SubmissionBtcInfo \<Rightarrow> bool" where
  "HappenedAfter submission parentEpochSubmission =
     (si_OldestBlockDepth submission < si_YoungestBlockDepth parentEpochSubmission)"

definition SubmissionDepth :: "SubmissionBtcInfo \<Rightarrow> u32" where
  "SubmissionDepth submission = si_YoungestBlockDepth submission"

definition IsBetterThan :: "SubmissionBtcInfo \<Rightarrow> SubmissionBtcInfo \<Rightarrow> bool" where
  "IsBetterThan newSubmission currentBestSubmission =
     (if SubmissionDepth newSubmission > SubmissionDepth currentBestSubmission then True
      else if SubmissionDepth newSubmission < SubmissionDepth currentBestSubmission then False
      else si_YoungestBlockLowestTxIdx newSubmission < si_YoungestBlockLowestTxIdx currentBestSubmission)"

definition checkSubmissionStatus :: "bc_Params \<Rightarrow> SubmissionBtcInfo \<Rightarrow> BtcStatus" where
  "checkSubmissionStatus p info =
     (let subDepth = SubmissionDepth info in
      if subDepth \<ge> bp_CheckpointFinalizationTimeout p then Btc_Finalized
      else if subDepth \<ge> bp_BtcConfirmationDepth p then Btc_Confirmed
      else Btc_Submitted)"

subsection \<open>Stores\<close>

definition HasSubmission :: "SubmissionKey \<Rightarrow> bc_state \<Rightarrow> bool" where
  "HasSubmission sk s = (bc_submissions s sk \<noteq> None)"

definition saveSubmission :: "SubmissionKey \<Rightarrow> SubmissionData \<Rightarrow> bc_state \<Rightarrow> bc_state" where
  "saveSubmission sk sd s = s\<lparr>bc_submissions := (bc_submissions s)(sk \<mapsto> sd)\<rparr>"

definition deleteSubmission :: "SubmissionKey \<Rightarrow> bc_state \<Rightarrow> bc_state" where
  "deleteSubmission sk s = s\<lparr>bc_submissions := (bc_submissions s)(sk := None)\<rparr>"

definition GetSubmissionData :: "SubmissionKey \<Rightarrow> bc_state \<Rightarrow> SubmissionData option" where
  "GetSubmissionData sk s = bc_submissions s sk"

definition GetEpochData :: "u64 \<Rightarrow> bc_state \<Rightarrow> EpochData option" where
  "GetEpochData e s = kv_get (bc_epochs s) e"

definition saveEpochData :: "u64 \<Rightarrow> EpochData \<Rightarrow> bc_state \<Rightarrow> bc_state" where
  "saveEpochData e ed s = s\<lparr>bc_epochs := kv_set e ed (bc_epochs s)\<rparr>"

definition NewEmptyEpochData :: EpochData where
  "NewEmptyEpochData = \<lparr>ed_Keys = [], ed_Status = Btc_Submitted\<rparr>"

definition AppendKey :: "SubmissionKey \<Rightarrow> EpochData \<Rightarrow> EpochData" where
  "AppendKey k ed = ed\<lparr>ed_Keys := ed_Keys ed @ [k]\<rparr>"

definition clearEpochData :: "u64 \<Rightarrow> EpochData \<Rightarrow> bc_state \<Rightarrow> bc_state" where
  "clearEpochData epoch currentEpoch s =
     saveEpochData epoch (currentEpoch\<lparr>ed_Keys := []\<rparr>) (fold deleteSubmission (ed_Keys currentEpoch) s)"

definition GetBestSubmission :: "u64 \<Rightarrow> bc_state \<Rightarrow> bc_error + BtcStatus \<times> SubmissionKey" where
  "GetBestSubmission epochNumber s = (case GetEpochData epochNumber s of
       None \<Rightarrow> Inl Bc_ErrNoCheckpointsForPreviousEpoch
     | Some ed \<Rightarrow>
         guardR (ed_Status ed \<noteq> Btc_Finalized) (BcErrorf ''epoch has not been finalized yet'')
        (case ed_Keys ed of [] \<Rightarrow> Inl Bc_ErrNoCheckpointsForPreviousEpoch | sk # _ \<Rightarrow> Inr (ed_Status ed, sk)))"

text \<open>A call of checkpointing on the world: it fails only by a panic.\<close>

definition call_ckpt :: "('x ckpt_world \<Rightarrow> ckpt_error + 'x ckpt_world) \<Rightarrow> 'x bc_world \<Rightarrow> bc_error + 'x bc_world" where
  "call_ckpt f bw = (case f (bw_ckpt bw) of Inl e \<Rightarrow> Inl (BcCheckpointing e) | Inr w \<Rightarrow> Inr (bw\<lparr>bw_ckpt := w\<rparr>))"

definition on_state :: "(bc_state \<Rightarrow> bc_state) \<Rightarrow> 'x bc_world \<Rightarrow> 'x bc_world" where
  "on_state f bw = bw\<lparr>bw_state := f (bw_state bw)\<rparr>"

definition addEpochSubmission ::
  "ckpt_ctx \<Rightarrow> u64 \<Rightarrow> EpochData \<Rightarrow> SubmissionKey \<Rightarrow> SubmissionData \<Rightarrow> 'x bc_world \<Rightarrow> bc_error + 'x bc_world" where
  "addEpochSubmission c epochNum ed sk sd bw =
     bindR (if ed_Keys ed = [] then call_ckpt (SetCheckpointSubmitted c epochNum) bw else Inr bw) (\<lambda>bw1.
     Inr (on_state (saveSubmission sk sd \<circ> saveEpochData epochNum (AppendKey sk ed)) bw1))"

subsection \<open>The check of all epochs\<close>

text \<open>A panic of the light client is a panic here; the error that a block is unknown is handled by the caller.\<close>

definition submission_info :: "'b lc_state \<Rightarrow> SubmissionKey \<Rightarrow> bc_error + SubmissionBtcInfo option" where
  "submission_info lc sk = (case GetSubmissionBtcInfo lc sk of
       Inl (BcPanic p) \<Rightarrow> Inl (BcPanic p) | Inl _ \<Rightarrow> Inr None | Inr info \<Rightarrow> Inr (Some info))"

definition short_key :: bc_error where
  "short_key = BcPanic ''Submission key composed of less than 2 transactions keys in database''"

definition change_step ::
  "'b lc_state \<Rightarrow> SubmissionBtcInfo option \<Rightarrow> epochChangesSummary \<Rightarrow> nat \<times> SubmissionKey \<Rightarrow> bc_error + epochChangesSummary" where
  "change_step lc parentEpochBestSubmission ec isk = (case isk of (i, sk) \<Rightarrow>
     guardR (length sk < 2) short_key
    (bindR (submission_info lc sk) (\<lambda>r. Inr
      (case r of
         None \<Rightarrow> ec\<lparr>ec_SubmissionsToDelete := ec_SubmissionsToDelete ec @ [sk]\<rparr>
       | Some submissionInfo \<Rightarrow>
           if (case parentEpochBestSubmission of None \<Rightarrow> False | Some parent \<Rightarrow> \<not> HappenedAfter submissionInfo parent)
           then ec\<lparr>ec_SubmissionsToDelete := ec_SubmissionsToDelete ec @ [sk]\<rparr>
           else let ec1 = ec\<lparr>ec_SubmissionsToKeep := ec_SubmissionsToKeep ec @ [sk]\<rparr>
                in case ec_EpochBestSubmission ec1 of
                     None \<Rightarrow> ec1\<lparr>ec_EpochBestSubmission := Some submissionInfo\<rparr>
                   | Some best \<Rightarrow>
                       if IsBetterThan submissionInfo best
                       then ec1\<lparr>ec_EpochBestSubmission := Some submissionInfo, ec_BestSubmissionIdx := i\<rparr>
                       else ec1))))"

definition getEpochChanges ::
  "'b lc_state \<Rightarrow> SubmissionBtcInfo option \<Rightarrow> EpochData \<Rightarrow> bc_error + epochChangesSummary" where
  "getEpochChanges lc parentEpochBestSubmission ed =
     foldR (change_step lc parentEpochBestSubmission)
       \<lparr>ec_SubmissionsToDelete = [], ec_SubmissionsToKeep = [], ec_EpochBestSubmission = None, ec_BestSubmissionIdx = 0\<rparr>
       (List.enumerate 0 (ed_Keys ed))"

definition GetEpochBestSubmissionBtcInfo :: "'b lc_state \<Rightarrow> EpochData option \<Rightarrow> bc_error + SubmissionBtcInfo option" where
  "GetEpochBestSubmissionBtcInfo lc ed = (case ed of
       None \<Rightarrow> Inr None
     | Some ed \<Rightarrow> (case ed_Keys ed of
         [] \<Rightarrow> Inr None
       | [sk] \<Rightarrow> submission_info lc sk
       | _ \<Rightarrow> bindR (getEpochChanges lc None ed) (\<lambda>ec. Inr (ec_EpochBestSubmission ec))))"

text \<open>The query of a checkpoint: it reads the data of the best submission without a check for nil.\<close>

definition getCheckpointInfo :: "'b lc_state \<Rightarrow> u64 \<Rightarrow> EpochData option \<Rightarrow> bc_state \<Rightarrow> bc_error + BTCCheckpointInfo" where
  "getCheckpointInfo lc epochNum epochData s =
     bindR (GetEpochBestSubmissionBtcInfo lc epochData) (\<lambda>r. case r of
       None \<Rightarrow> Inl (BcErrorf ''checkpoint for given epoch not yet submitted'')
     | Some best \<Rightarrow> (case BlockHeight (Some (si_YoungestBlockHash best)) lc of
         Inl (LcPanic p) \<Rightarrow> Inl (BcPanic p)
       | Inl _ \<Rightarrow> Inl (BcErrorf ''error getting best submission height'')
       | Inr bestSubmissionHeight \<Rightarrow> (case GetSubmissionData (si_SubmissionKey best) s of
           None \<Rightarrow> Inl (BcPanic ''nil pointer dereference'')
         | Some sd \<Rightarrow> Inr \<lparr>ci_EpochNumber = epochNum, ci_BestSubmissionBtcBlockHeight = bestSubmissionHeight,
             ci_BestSubmissionBtcBlockHash = si_YoungestBlockHash best, ci_BestSubmissionTransactions = sd_TxsInfo sd,
             ci_BestSubmissionVigilanteAddressList = [sd_VigilanteAddresses sd]\<rparr>)))"

definition forget_epoch where
  "forget_epoch hook c epoch currentEpoch bw =
     call_ckpt (SetCheckpointForgotten hook c epoch) (on_state (clearEpochData epoch currentEpoch) bw)"

definition confirm_epoch where
  "confirm_epoch hook c epoch best currentEpoch bw =
     (if best > ed_Status currentEpoch \<and> ed_Status currentEpoch = Btc_Submitted
      then bindR (call_ckpt (SetCheckpointConfirmed hook c epoch) bw) (\<lambda>bw1.
           Inr (currentEpoch\<lparr>ed_Status := Btc_Confirmed\<rparr>, bw1))
      else Inr (currentEpoch, bw))"

definition finalize_epoch where
  "finalize_epoch hook c epoch best currentEpoch bw =
     (if best > ed_Status currentEpoch \<and> ed_Status currentEpoch = Btc_Confirmed
      then bindR (call_ckpt (SetCheckpointFinalized hook c epoch) bw) (\<lambda>bw1.
           Inr (currentEpoch\<lparr>ed_Status := Btc_Finalized\<rparr>, on_state (\<lambda>s. s\<lparr>bc_lastFinalizedEpoch := epoch\<rparr>) bw1))
      else Inr (currentEpoch, bw))"

text \<open>The keys that remain, and the state without the data of the others.\<close>

definition apply_changes :: "epochChangesSummary \<Rightarrow> SubmissionBtcInfo \<Rightarrow> EpochData \<Rightarrow> bc_state \<Rightarrow> EpochData \<times> bc_state" where
  "apply_changes ec best currentEpoch s =
     (if ed_Status currentEpoch = Btc_Finalized
      then (currentEpoch\<lparr>ed_Keys := [si_SubmissionKey best]\<rparr>,
            fold (\<lambda>(i, sk) s. if i \<noteq> ec_BestSubmissionIdx ec then deleteSubmission sk s else s)
              (List.enumerate 0 (ed_Keys currentEpoch)) s)
      else (currentEpoch\<lparr>ed_Keys := ec_SubmissionsToKeep ec\<rparr>, fold deleteSubmission (ec_SubmissionsToDelete ec) s))"

text \<open>The body of the loop for an epoch with submissions. The information on the parent is absent for the first
  epoch, and without a best submission when the parent lost all of its submissions.\<close>

definition check_epoch ::
  "'b lc_state \<Rightarrow> (ckpt_call \<Rightarrow> 'x \<Rightarrow> bool \<times> 'x) \<Rightarrow> ckpt_ctx \<Rightarrow> SubmissionBtcInfo option option \<Rightarrow> u64 \<Rightarrow> EpochData \<Rightarrow>
    'x bc_world \<Rightarrow> bc_error + SubmissionBtcInfo option option \<times> 'x bc_world" where
  "check_epoch lc hook c parentEpochInfo epoch currentEpoch bw =
     (if ed_Status currentEpoch = Btc_Finalized
      then (case ed_Keys currentEpoch of
          [sk] \<Rightarrow> (case GetSubmissionBtcInfo lc sk of
              Inl _ \<Rightarrow> Inl (BcPanic ''Finalized epoch submission must be on main chain'')
            | Inr subInfo \<Rightarrow> Inr (Some (Some subInfo), bw))
        | _ \<Rightarrow> Inl (BcPanic ''Finalized epoch must have only one valid submission''))
      else if parentEpochInfo = Some None
      then bindR (forget_epoch hook c epoch currentEpoch bw) (\<lambda>bw1. Inr (Some None, bw1))
      else bindR (getEpochChanges lc (Option.bind parentEpochInfo (\<lambda>p. p)) currentEpoch) (\<lambda>epochChanges.
        if ec_SubmissionsToKeep epochChanges = []
        then bindR (forget_epoch hook c epoch currentEpoch bw) (\<lambda>bw1. Inr (Some None, bw1))
        else case ec_EpochBestSubmission epochChanges of
          None \<Rightarrow> Inl (BcPanic ''nil pointer dereference'')
        | Some best \<Rightarrow>
            let status = checkSubmissionStatus (bc_params (bw_state bw)) best in
            bindR (confirm_epoch hook c epoch status currentEpoch bw) (\<lambda>(currentEpoch, bw1).
            bindR (finalize_epoch hook c epoch status currentEpoch bw1) (\<lambda>(currentEpoch, bw2).
            let (ed, s) = apply_changes epochChanges best currentEpoch (bw_state bw2)
            in Inr (Some (Some best), bw2\<lparr>bw_state := saveEpochData epoch ed s\<rparr>)))))"

fun check_loop where
  "check_loop lc hook c parentEpochInfo [] bw = Inr bw"
| "check_loop lc hook c parentEpochInfo ((epoch, currentEpoch) # es) bw =
     (if ed_Keys currentEpoch = [] then Inr bw
      else bindR (check_epoch lc hook c parentEpochInfo epoch currentEpoch bw) (\<lambda>(parentEpochInfo, bw1).
        check_loop lc hook c parentEpochInfo es bw1))"

definition epochs_from :: "bc_state \<Rightarrow> (u64, EpochData) kv" where
  "epochs_from s = filter (\<lambda>(e, _). bc_lastFinalizedEpoch s > 0 \<longrightarrow> bc_lastFinalizedEpoch s \<le> e) (bc_epochs s)"

definition checkCheckpoints ::
  "'b lc_state \<Rightarrow> (ckpt_call \<Rightarrow> 'x \<Rightarrow> bool \<times> 'x) \<Rightarrow> ckpt_ctx \<Rightarrow> 'x bc_world \<Rightarrow> bc_error + 'x bc_world" where
  "checkCheckpoints lc hook c bw = check_loop lc hook c None (epochs_from (bw_state bw)) bw"

definition BtcCheckpoint_EndBlocker ::
  "'b lc_state \<Rightarrow> (ckpt_call \<Rightarrow> 'x \<Rightarrow> bool \<times> 'x) \<Rightarrow> ckpt_ctx \<Rightarrow> 'x bc_world \<Rightarrow> bc_error + 'x bc_world" where
  "BtcCheckpoint_EndBlocker lc hook c bw =
     (if bc_LightClientUpdated (bw_state bw) then checkCheckpoints lc hook c bw else Inr bw)"

text \<open>The hooks of the light client.\<close>

definition bc_hooks :: "'b lc_call \<Rightarrow> bc_state \<Rightarrow> bc_state" where
  "bc_hooks call s = (case call of
       AfterBTCHeaderInserted _ \<Rightarrow> s
     | AfterBTCRollBack _ _ \<Rightarrow> s\<lparr>bc_LightClientUpdated := True\<rparr>
     | AfterBTCRollForward _ \<Rightarrow> s\<lparr>bc_LightClientUpdated := True\<rparr>)"

subsection \<open>The message that reports a submission\<close>

fun ancestor_loop :: "'b lc_state \<Rightarrow> SubmissionBtcInfo \<Rightarrow> SubmissionKey list \<Rightarrow> bc_error + bool" where
  "ancestor_loop lc newSubmissionInfo [] = Inr False"
| "ancestor_loop lc newSubmissionInfo (sk # ks) =
     guardR (length sk < 2) short_key
    (bindR (submission_info lc sk) (\<lambda>r. case r of
       None \<Rightarrow> ancestor_loop lc newSubmissionInfo ks
     | Some parent \<Rightarrow>
         if HappenedAfter newSubmissionInfo parent then Inr True else ancestor_loop lc newSubmissionInfo ks))"

definition checkAncestors :: "'b lc_state \<Rightarrow> u64 \<Rightarrow> SubmissionBtcInfo \<Rightarrow> bc_state \<Rightarrow> bc_error + unit" where
  "checkAncestors lc submissionEpoch newSubmissionInfo s =
     (if submissionEpoch \<le> 1 then Inr ()
      else case GetEpochData (submissionEpoch - 1) s of
        None \<Rightarrow> Inl Bc_ErrNoCheckpointsForPreviousEpoch
      | Some ed \<Rightarrow>
          guardR (ed_Keys ed = []) Bc_ErrNoCheckpointsForPreviousEpoch
         (bindR (ancestor_loop lc newSubmissionInfo (ed_Keys ed)) (\<lambda>haveDescendant.
          guardR (\<not> haveDescendant) Bc_ErrProvidedHeaderDoesNotHaveAncestor (Inr ()))))"

definition ParseTwoProofs ::
  "('t, 'b) spv_lib \<Rightarrow> (bytes \<Rightarrow> bytes) \<Rightarrow> bytes \<Rightarrow> 'b BTCSpvProof list \<Rightarrow> bytes \<Rightarrow> format_error + 't RawCheckpointSubmission" where
  "ParseTwoProofs S sha256 submitter proofs expectedTag =
     guardR (length proofs \<noteq> unat NumberOfParts) (FormatErrorf ''expected at exactly valid op return transactions'')
    (bindR (foldR (\<lambda>ps p. bindR (ParseProof S (sp_BtcTransaction p) (sp_BtcTransactionIndex p) (sp_MerkleNodes p)
        (sp_ConfirmingBtcHeader p)) (\<lambda>q. Inr (ps @ [q]))) [] proofs) (\<lambda>parsedProofs.
     bindR (foldR (\<lambda>ds (i, p). guardR (i > 255) (FormatErrorf ''expected at most 255 proofs'')
        (bindR (GetCheckpointData expectedTag CurrentVersion (word_of_nat i) (pp_OpReturnData p)) (\<lambda>d. Inr (ds @ [d]))))
        [] (List.enumerate 0 parsedProofs)) (\<lambda>checkpointData.
     case (parsedProofs, checkpointData) of
       (p1 # p2 # _, d1 # d2 # _) \<Rightarrow>
         bindR (ConnectParts sha256 CurrentVersion d1 d2) (\<lambda>rawCkptData.
         bindR (DecodeRawCheckpoint CurrentVersion rawCkptData) (\<lambda>rawCheckpoint.
         Inr \<lparr>rs_Reporter = submitter, rs_Proof1 = p1, rs_Proof2 = p2, rs_CheckpointData = rawCheckpoint\<rparr>))
     | _ \<Rightarrow> Inl (FormatPanic ''index out of range''))))"

definition ParseSubmission ::
  "('t, 'b) spv_lib \<Rightarrow> (bytes \<Rightarrow> bytes) \<Rightarrow> (string \<Rightarrow> bytes option) \<Rightarrow> 'b MsgInsertBTCSpvProof \<Rightarrow> bytes \<Rightarrow>
    format_error + 't RawCheckpointSubmission" where
  "ParseSubmission S sha256 addr_of m expectedTag =
     bindR (option_to_result (FormatErrorf ''invalid submitter address'') (addr_of (mip_Submitter m))) (\<lambda>address.
     ParseTwoProofs S sha256 address (mip_Proofs m) expectedTag)"

definition toTransactionKey :: "'t ParsedProof \<Rightarrow> TransactionKey" where
  "toTransactionKey p = \<lparr>tk_Index = pp_TransactionIdx p, tk_Hash = pp_BlockHash p\<rparr>"

definition GetSubmissionKey :: "'t RawCheckpointSubmission \<Rightarrow> SubmissionKey" where
  "GetSubmissionKey s = [toTransactionKey (rs_Proof1 s), toTransactionKey (rs_Proof2 s)]"

definition submission_GetSubmissionData :: "u64 \<Rightarrow> TransactionInfo list \<Rightarrow> 't RawCheckpointSubmission \<Rightarrow> SubmissionData" where
  "submission_GetSubmissionData epochNum txsInfo s =
     \<lparr>sd_VigilanteAddresses = \<lparr>ca_Submitter = rc_SubmitterAddress (rs_CheckpointData s), ca_Reporter = rs_Reporter s\<rparr>,
       sd_TxsInfo = txsInfo, sd_Epoch = epochNum\<rparr>"

definition NewTransactionInfo :: "TransactionKey \<Rightarrow> bytes \<Rightarrow> bytes \<Rightarrow> TransactionInfo" where
  "NewTransactionInfo txKey txBytes proof = \<lparr>ti_Key = txKey, ti_Transaction = txBytes, ti_Proof = proof\<rparr>"

text \<open>The part of the message after its checks: a conflict is recorded and ends with success, any other error of
  the verification refuses the submission.\<close>

definition accept_submission ::
  "('t, 'b, 'x) bc_env \<Rightarrow> 'b lc_state \<Rightarrow> ckpt_ctx \<Rightarrow> 'b MsgInsertBTCSpvProof \<Rightarrow> 't RawCheckpointSubmission \<Rightarrow> SubmissionBtcInfo \<Rightarrow>
    EpochData \<Rightarrow> 'x bc_world \<Rightarrow> bc_error + 'x bc_world" where
  "accept_submission env lc c req rawSubmission newSubmissionInfo ed bw =
     (let submissionKey = GetSubmissionKey rawSubmission; epochNum = rc_Epoch (rs_CheckpointData rawSubmission) in
      case VerifyCheckpoint (be_ckpt_lib env) (be_epoching env) (be_hook env) (rs_CheckpointData rawSubmission) (bw_ckpt bw) of
        (Some e, w1) \<Rightarrow> if e = ErrConflictingCheckpoint then Inr (bw\<lparr>bw_ckpt := w1\<rparr>) else Inl (BcCheckpointing e)
      | (None, w1) \<Rightarrow>
          bindR (checkAncestors lc epochNum newSubmissionInfo (bw_state bw)) (\<lambda>_.
          let txsInfo = map2 (\<lambda>txKey p. NewTransactionInfo txKey (sp_BtcTransaction p) (sp_MerkleNodes p))
                submissionKey (mip_Proofs req);
              submissionData = submission_GetSubmissionData epochNum txsInfo rawSubmission
          in bindR (addEpochSubmission c epochNum ed submissionKey submissionData (bw\<lparr>bw_ckpt := w1\<rparr>)) (\<lambda>bw1.
             Inr (bw1\<lparr>bw_ckpt := (bw_ckpt bw1)\<lparr>cw_ext := be_refund env req (cw_ext (bw_ckpt bw1))\<rparr>\<rparr>))))"

definition InsertBTCSpvProof ::
  "('t, 'b, 'x) bc_env \<Rightarrow> 'b lc_state \<Rightarrow> ckpt_ctx \<Rightarrow> 'b MsgInsertBTCSpvProof \<Rightarrow> 'x bc_world \<Rightarrow> bc_error + 'x bc_world" where
  "InsertBTCSpvProof env lc c req bw =
     bindR (GetExpectedTag (bw_state bw)) (\<lambda>tag.
     case ParseSubmission (be_spv env) (be_sha256 env) (be_addr_of env) req tag of
       Inl e \<Rightarrow> Inl (case e of FormatPanic p \<Rightarrow> BcPanic p | FormatErrorf _ \<Rightarrow> Bc_ErrInvalidCheckpointProof)
     | Inr rawSubmission \<Rightarrow>
         guardR (HasSubmission (GetSubmissionKey rawSubmission) (bw_state bw)) Bc_ErrDuplicatedSubmission
        (bindR (submission_info lc (GetSubmissionKey rawSubmission)) (\<lambda>r. case r of
           None \<Rightarrow> Inl Bc_ErrInvalidHeader
         | Some newSubmissionInfo \<Rightarrow>
             let ed = (case GetEpochData (rc_Epoch (rs_CheckpointData rawSubmission)) (bw_state bw) of
                         None \<Rightarrow> NewEmptyEpochData | Some ed \<Rightarrow> ed)
             in guardR (ed_Status ed = Btc_Finalized) Bc_ErrEpochAlreadyFinalized
               (accept_submission env lc c req rawSubmission newSubmissionInfo ed bw))))"

subsection \<open>What the check of an epoch keeps\<close>

lemmas world_simps = call_ckpt_def on_state_def clearEpochData_def saveEpochData_def saveSubmission_def deleteSubmission_def

lemma fold_deleteSubmission [simp]:
  "bc_epochs (fold deleteSubmission ks s) = bc_epochs s" "bc_params (fold deleteSubmission ks s) = bc_params s"
  "bc_lastFinalizedEpoch (fold deleteSubmission ks s) = bc_lastFinalizedEpoch s"
  by (induction ks arbitrary: s) (simp_all add: deleteSubmission_def)

lemma fold_delete_others [simp]:
  fixes s :: bc_state
  defines "f \<equiv> \<lambda>n (i, sk) s. if i \<noteq> (n :: nat) then deleteSubmission sk s else s"
  shows "bc_epochs (fold (f n) ks s) = bc_epochs s" "bc_params (fold (f n) ks s) = bc_params s"
    "bc_lastFinalizedEpoch (fold (f n) ks s) = bc_lastFinalizedEpoch s"
  unfolding f_def by (induction ks arbitrary: s) (auto simp: deleteSubmission_def)

text \<open>A submission counts when all of its blocks are on the main chain and after the best submission of the
  epoch before.\<close>

definition usable :: "'b lc_state \<Rightarrow> SubmissionBtcInfo option \<Rightarrow> SubmissionKey \<Rightarrow> bool" where
  "usable lc parent sk = (case GetSubmissionBtcInfo lc sk of
       Inl _ \<Rightarrow> False
     | Inr info \<Rightarrow> (case parent of None \<Rightarrow> True | Some q \<Rightarrow> HappenedAfter info q))"

definition best_of :: "'b lc_state \<Rightarrow> SubmissionKey list \<Rightarrow> SubmissionBtcInfo \<Rightarrow> bool" where
  "best_of lc ks best \<longleftrightarrow> (\<exists>sk\<in>set ks. GetSubmissionBtcInfo lc sk = Inr best) \<and>
     (\<forall>sk\<in>set ks. \<forall>info. GetSubmissionBtcInfo lc sk = Inr info \<longrightarrow> \<not> IsBetterThan info best)"

definition changes_ok :: "'b lc_state \<Rightarrow> SubmissionBtcInfo option \<Rightarrow> SubmissionKey list \<Rightarrow> epochChangesSummary \<Rightarrow> bool" where
  "changes_ok lc parent ks ec \<longleftrightarrow> ec_SubmissionsToKeep ec = filter (usable lc parent) ks \<and>
     ec_SubmissionsToDelete ec = filter (\<lambda>sk. \<not> usable lc parent sk) ks \<and>
     (case ec_EpochBestSubmission ec of None \<Rightarrow> ec_SubmissionsToKeep ec = [] | Some best \<Rightarrow> best_of lc (ec_SubmissionsToKeep ec) best)"

lemma IsBetterThan_order:
  "\<not> IsBetterThan a a"
  "\<not> IsBetterThan a b \<Longrightarrow> IsBetterThan c b \<Longrightarrow> \<not> IsBetterThan a c"
  by (auto simp: IsBetterThan_def split: if_splits)

lemma best_of_snoc:
  assumes "best_of lc ks b" "GetSubmissionBtcInfo lc sk = Inr info"
  shows "best_of lc (ks @ [sk]) (if IsBetterThan info b then info else b)"
proof (cases "IsBetterThan info b")
  case True
  then have "\<not> IsBetterThan i info" if "sk' \<in> set ks" "GetSubmissionBtcInfo lc sk' = Inr i" for sk' i
    using assms(1) that IsBetterThan_order(2) [of i b info] by (auto simp: best_of_def)
  then show ?thesis using True assms(2) IsBetterThan_order(1) by (auto simp: best_of_def)
next
  case False
  then show ?thesis using assms by (auto simp: best_of_def)
qed

lemma submission_info_cases:
  assumes "submission_info lc sk = Inr r"
  shows "(case r of None \<Rightarrow> \<exists>e. GetSubmissionBtcInfo lc sk = Inl e | Some info \<Rightarrow> GetSubmissionBtcInfo lc sk = Inr info)"
  using assms by (auto simp: submission_info_def split: sum.splits bc_error.splits)

lemma change_step_run:
  assumes "change_step lc parent ec (i, sk) = Inr ec'"
  obtains "\<not> usable lc parent sk" "ec' = ec\<lparr>ec_SubmissionsToDelete := ec_SubmissionsToDelete ec @ [sk]\<rparr>"
  | info where "usable lc parent sk" "GetSubmissionBtcInfo lc sk = Inr info"
      "ec_SubmissionsToKeep ec' = ec_SubmissionsToKeep ec @ [sk]" "ec_SubmissionsToDelete ec' = ec_SubmissionsToDelete ec"
      "ec_EpochBestSubmission ec' = Some (case ec_EpochBestSubmission ec of
         None \<Rightarrow> info | Some best \<Rightarrow> if IsBetterThan info best then info else best)"
proof -
  from assms obtain r where r: "submission_info lc sk = Inr r"
    by (cases "submission_info lc sk") (auto simp: change_step_def guardR_def split: if_splits)
  note info = submission_info_cases [OF r]
  show ?thesis
  proof (cases r)
    case None
    then show ?thesis using assms r info that(1) by (auto simp: change_step_def guardR_def usable_def split: if_splits)
  next
    case (Some i0)
    then have i0: "GetSubmissionBtcInfo lc sk = Inr i0" using info by simp
    show ?thesis
    proof (cases "usable lc parent sk")
      case True
      then have "\<not> (case parent of None \<Rightarrow> False | Some q \<Rightarrow> \<not> HappenedAfter i0 q)" using i0 by (auto simp: usable_def split: option.splits)
      then show ?thesis using that(2) [OF True i0] assms r Some
        by (auto simp: change_step_def guardR_def Let_def split: if_splits option.splits)
    next
      case False
      then have "(case parent of None \<Rightarrow> False | Some q \<Rightarrow> \<not> HappenedAfter i0 q)" using i0 by (auto simp: usable_def split: option.splits)
      then show ?thesis using that(1) [OF False] assms r Some by (auto simp: change_step_def guardR_def split: if_splits)
    qed
  qed
qed

lemma change_step_ok:
  assumes "changes_ok lc parent ks ec" "change_step lc parent ec (i, sk) = Inr ec'"
  shows "changes_ok lc parent (ks @ [sk]) ec'"
  using assms(2)
proof (cases rule: change_step_run)
  case 1
  then show ?thesis using assms(1) by (cases "ec_EpochBestSubmission ec") (auto simp: changes_ok_def)
next
  case (2 info)
  have "best_of lc [sk] info" using 2(2) IsBetterThan_order(1) by (auto simp: best_of_def)
  moreover have "best_of lc (filter (usable lc parent) ks @ [sk]) (if IsBetterThan info b then info else b)"
    if "ec_EpochBestSubmission ec = Some b" for b
    using assms(1) that by (intro best_of_snoc [OF _ 2(2)]) (auto simp: changes_ok_def)
  ultimately show ?thesis using 2 assms(1) by (cases "ec_EpochBestSubmission ec") (auto simp: changes_ok_def)
qed

lemma change_loop_ok:
  "changes_ok lc parent ks ec \<Longrightarrow> foldR (change_step lc parent) ec (List.enumerate n ks') = Inr ec' \<Longrightarrow>
    changes_ok lc parent (ks @ ks') ec'"
proof (induction ks' arbitrary: n ks ec)
  case (Cons sk ks')
  from Cons.prems(2) obtain ec1 where ec1: "change_step lc parent ec (n, sk) = Inr ec1"
      "foldR (change_step lc parent) ec1 (List.enumerate (Suc n) ks') = Inr ec'"
    by (cases "change_step lc parent ec (n, sk)") simp_all
  show ?case using Cons.IH [OF change_step_ok [OF Cons.prems(1) ec1(1)] ec1(2)] by simp
qed simp

lemma getEpochChanges_ok:
  assumes "getEpochChanges lc parent ed = Inr ec"
  shows "changes_ok lc parent (ed_Keys ed) ec"
  using change_loop_ok [OF _ assms [unfolded getEpochChanges_def], of "[]"] by (simp add: changes_ok_def)

lemma submission_key: "GetSubmissionBtcInfo lc sk = Inr info \<Longrightarrow> si_SubmissionKey info = sk"
  by (auto simp: GetSubmissionBtcInfo_def result_simps split: option.splits)

lemma call_ckpt_state: "call_ckpt f bw = Inr bw' \<Longrightarrow> bw_state bw' = bw_state bw"
  by (auto simp: call_ckpt_def split: sum.splits)

text \<open>The status of an epoch becomes the status of its best submission, and never decreases.\<close>

lemma status_run:
  assumes "confirm_epoch hook c e st ed bw = Inr (ed1, bw1)" "finalize_epoch hook c e st ed1 bw1 = Inr (ed2, bw2)"
    "ed_Status ed \<noteq> Btc_Finalized"
  shows "ed_Status ed2 = max (ed_Status ed) st" "ed_Keys ed2 = ed_Keys ed"
    "bw_state bw2 = (bw_state bw)\<lparr>bc_lastFinalizedEpoch :=
       if st = Btc_Finalized then e else bc_lastFinalizedEpoch (bw_state bw)\<rparr>"
proof -
  have 1: "ed1 = (if st > Btc_Submitted \<and> ed_Status ed = Btc_Submitted then ed\<lparr>ed_Status := Btc_Confirmed\<rparr> else ed)"
    "bw_state bw1 = bw_state bw"
    using assms(1) by (auto simp: confirm_epoch_def result_simps dest: call_ckpt_state split: if_splits)
  have 2: "ed2 = (if st > Btc_Confirmed \<and> ed_Status ed1 = Btc_Confirmed then ed1\<lparr>ed_Status := Btc_Finalized\<rparr> else ed1)"
    "bw_state bw2 = (if st > Btc_Confirmed \<and> ed_Status ed1 = Btc_Confirmed
       then (bw_state bw1)\<lparr>bc_lastFinalizedEpoch := e\<rparr> else bw_state bw1)"
    using assms(2) by (auto simp: finalize_epoch_def on_state_def result_simps dest: call_ckpt_state split: if_splits)
  show "ed_Status ed2 = max (ed_Status ed) st" "ed_Keys ed2 = ed_Keys ed"
    "bw_state bw2 = (bw_state bw)\<lparr>bc_lastFinalizedEpoch :=
       if st = Btc_Finalized then e else bc_lastFinalizedEpoch (bw_state bw)\<rparr>"
    using 1 2 assms(3) by (cases st; cases "ed_Status ed"; simp add: status_order max_def)+
qed

lemma forget_run:
  assumes "forget_epoch hook c e ed bw = Inr bw'"
  shows "bc_epochs (bw_state bw') = kv_set e (ed\<lparr>ed_Keys := []\<rparr>) (bc_epochs (bw_state bw))"
    "bc_lastFinalizedEpoch (bw_state bw') = bc_lastFinalizedEpoch (bw_state bw)"
    "bc_params (bw_state bw') = bc_params (bw_state bw)"
  using call_ckpt_state [OF assms [unfolded forget_epoch_def]]
  by (simp_all add: on_state_def clearEpochData_def saveEpochData_def)

lemma apply_changes_run:
  assumes "apply_changes ec best ed s = (ed', s')"
  shows "ed_Status ed' = ed_Status ed" "bc_epochs s' = bc_epochs s" "bc_params s' = bc_params s"
    "bc_lastFinalizedEpoch s' = bc_lastFinalizedEpoch s"
    "ed_Keys ed' = (if ed_Status ed = Btc_Finalized then [si_SubmissionKey best] else ec_SubmissionsToKeep ec)"
  using assms by (auto simp: apply_changes_def split: if_splits)

text \<open>The three outcomes of the check of an epoch: it was finalised before, it lost its submissions, or it keeps
  those that are usable.\<close>

lemma check_epoch_run:
  assumes "check_epoch lc hook c par e ed bw = Inr (par', bw')"
  obtains (final) sk info where "ed_Status ed = Btc_Finalized" "ed_Keys ed = [sk]" "GetSubmissionBtcInfo lc sk = Inr info"
      "par' = Some (Some info)" "bw' = bw"
  | (forgotten) "ed_Status ed \<noteq> Btc_Finalized" "par' = Some None" "forget_epoch hook c e ed bw = Inr bw'"
      "par = Some None \<or> filter (usable lc (Option.bind par (\<lambda>p. p))) (ed_Keys ed) = []"
  | (kept) best ed' where "ed_Status ed \<noteq> Btc_Finalized" "par \<noteq> Some None" "par' = Some (Some best)"
      "best_of lc (filter (usable lc (Option.bind par (\<lambda>p. p))) (ed_Keys ed)) best"
      "ed_Status ed' = max (ed_Status ed) (checkSubmissionStatus (bc_params (bw_state bw)) best)"
      "ed_Keys ed' = (if ed_Status ed' = Btc_Finalized then [si_SubmissionKey best]
         else filter (usable lc (Option.bind par (\<lambda>p. p))) (ed_Keys ed))"
      "bc_epochs (bw_state bw') = kv_set e ed' (bc_epochs (bw_state bw))"
      "bc_params (bw_state bw') = bc_params (bw_state bw)"
      "bc_lastFinalizedEpoch (bw_state bw') = (if ed_Status ed' = Btc_Finalized then e else bc_lastFinalizedEpoch (bw_state bw))"
proof (cases "ed_Status ed = Btc_Finalized")
  case True
  then show ?thesis using assms final by (auto simp: check_epoch_def split: list.splits sum.splits)
next
  case False
  show ?thesis
  proof (cases "par = Some None")
    case True
    then show ?thesis using assms False forgotten by (auto simp: check_epoch_def result_simps)
  next
    case par: False
    from assms False par obtain ec where ec: "getEpochChanges lc (Option.bind par (\<lambda>p. p)) ed = Inr ec"
      by (auto simp: check_epoch_def result_simps)
    note ok = getEpochChanges_ok [OF ec, unfolded changes_ok_def]
    show ?thesis
    proof (cases "ec_SubmissionsToKeep ec = []")
      case True
      then show ?thesis using assms False par ec ok forgotten by (auto simp: check_epoch_def result_simps)
    next
      case keep: False
      then obtain best where best: "ec_EpochBestSubmission ec = Some best" using ok by (cases "ec_EpochBestSubmission ec") auto
      have k: "ec_SubmissionsToKeep ec = filter (usable lc (Option.bind par (\<lambda>p. p))) (ed_Keys ed)" using ok by (rule conjunct1)
      have b: "best_of lc (filter (usable lc (Option.bind par (\<lambda>p. p))) (ed_Keys ed)) best"
        using ok best by (simp only: option.case k [symmetric])
      define st where "st = checkSubmissionStatus (bc_params (bw_state bw)) best"
      from assms False par ec keep best obtain ed1 bw1 ed2 bw2 where
        run: "confirm_epoch hook c e st ed bw = Inr (ed1, bw1)" "finalize_epoch hook c e st ed1 bw1 = Inr (ed2, bw2)"
        and res: "par' = Some (Some best)" "bw' = bw2\<lparr>bw_state :=
            case_prod (saveEpochData e) (apply_changes ec best ed2 (bw_state bw2))\<rparr>"
        by (auto simp: check_epoch_def result_simps Let_def st_def case_prod_beta)
      obtain ed' s' where app: "apply_changes ec best ed2 (bw_state bw2) = (ed', s')" by fastforce
      note a = apply_changes_run [OF app] and st = status_run [OF run False]
      have "max (ed_Status ed) st = Btc_Finalized \<longleftrightarrow> st = Btc_Finalized"
        using False by (cases st; cases "ed_Status ed"; simp add: max_def status_order)
      then show ?thesis
        using False par res a st k b app by (intro kept [of best ed']) (simp_all add: st_def saveEpochData_def)
    qed
  qed
qed

subsection \<open>What the check of all epochs establishes\<close>

text \<open>An epoch agrees with the light client when all of its submissions are on the main chain, after the best
  submission of the epoch before, and its status is at least the status that the depth of its best submission
  gives; a finalised epoch has one submission. The epochs agree up to one without submissions, and then no
  later one has any.\<close>

definition epoch_tracks :: "'b lc_state \<Rightarrow> bc_Params \<Rightarrow> SubmissionBtcInfo option \<Rightarrow> EpochData \<Rightarrow> SubmissionBtcInfo \<Rightarrow> bool" where
  "epoch_tracks lc p parent ed best \<longleftrightarrow> (\<forall>sk\<in>set (ed_Keys ed). usable lc parent sk) \<and> best_of lc (ed_Keys ed) best \<and>
     checkSubmissionStatus p best \<le> ed_Status ed \<and> (ed_Status ed = Btc_Finalized \<longrightarrow> length (ed_Keys ed) = 1)"

fun tracks :: "'b lc_state \<Rightarrow> bc_Params \<Rightarrow> SubmissionBtcInfo option \<Rightarrow> EpochData list \<Rightarrow> bool" where
  "tracks lc p parent [] = True"
| "tracks lc p parent (ed # eds) =
     (if ed_Keys ed = [] then \<forall>ed'\<in>set eds. ed_Keys ed' = []
      else \<exists>best. epoch_tracks lc p parent ed best \<and> tracks lc p (Some best) eds)"

text \<open>The epochs with submissions come first, and none but the first is finalised.\<close>

definition no_gap :: "EpochData list \<Rightarrow> bool" where
  "no_gap eds = sorted_wrt (\<lambda>a b. ed_Keys a = [] \<longrightarrow> ed_Keys b = []) eds"

definition open_epochs :: "EpochData list \<Rightarrow> bool" where
  "open_epochs eds \<longleftrightarrow> (\<forall>ed\<in>set eds. ed_Status ed \<noteq> Btc_Finalized)"

abbreviation epoch_after :: "'x bc_world \<Rightarrow> u64 \<times> EpochData \<Rightarrow> EpochData" where
  "epoch_after bw ee \<equiv> the (kv_get (bc_epochs (bw_state bw)) (fst ee))"

lemma no_gap_empty: "\<forall>ed\<in>set eds. ed_Keys ed = [] \<Longrightarrow> no_gap eds"
  by (induction eds) (simp_all add: no_gap_def)

lemma no_gap_Cons: "no_gap (ed # eds) \<longleftrightarrow> (ed_Keys ed = [] \<longrightarrow> (\<forall>ed'\<in>set eds. ed_Keys ed' = [])) \<and> no_gap eds"
  by (auto simp: no_gap_def)

lemma tracks_no_gap: "tracks lc p parent eds \<Longrightarrow> no_gap eds"
  by (induction lc p parent eds rule: tracks.induct) (auto simp: no_gap_Cons no_gap_empty split: if_splits)

lemma check_epoch_frame:
  assumes "check_epoch lc hook c par e ed bw = Inr (par', bw')"
  shows "e' \<noteq> e \<Longrightarrow> kv_get (bc_epochs (bw_state bw')) e' = kv_get (bc_epochs (bw_state bw)) e'"
    "bc_params (bw_state bw') = bc_params (bw_state bw)"
    "kv_wf (bc_epochs (bw_state bw)) \<Longrightarrow> kv_wf (bc_epochs (bw_state bw'))"
    "kv_get (bc_epochs (bw_state bw)) e \<noteq> None \<Longrightarrow>
      (kv_get (bc_epochs (bw_state bw')) e' = None \<longleftrightarrow> kv_get (bc_epochs (bw_state bw)) e' = None)"
  using assms by (cases rule: check_epoch_run; auto simp: forget_run)+

lemma check_epoch_others:
  assumes "check_epoch lc hook c par e ed bw = Inr (par', bw')" "e \<notin> fst ` set es"
    "\<forall>ee\<in>set es. kv_get (bc_epochs (bw_state bw)) (fst ee) = Some (snd ee)"
  shows "\<forall>ee\<in>set es. kv_get (bc_epochs (bw_state bw')) (fst ee) = Some (snd ee)"
proof
  fix ee assume ee: "ee \<in> set es"
  then have "fst ee \<noteq> e" using assms(2) by auto
  from check_epoch_frame(1) [OF assms(1) this] show "kv_get (bc_epochs (bw_state bw')) (fst ee) = Some (snd ee)"
    using assms(3) ee by simp
qed

lemma check_loop_Cons:
  assumes "check_loop lc hook c par ((e, ed) # es) bw = Inr bw'" "ed_Keys ed \<noteq> []"
  obtains par1 bw1 where "check_epoch lc hook c par e ed bw = Inr (par1, bw1)" "check_loop lc hook c par1 es bw1 = Inr bw'"
  using assms by (auto simp: result_simps)

lemma check_loop_frame:
  assumes "check_loop lc hook c par es bw = Inr bw'"
  shows "(e' \<notin> fst ` set es \<longrightarrow> kv_get (bc_epochs (bw_state bw')) e' = kv_get (bc_epochs (bw_state bw)) e') \<and>
    bc_params (bw_state bw') = bc_params (bw_state bw) \<and>
    (kv_wf (bc_epochs (bw_state bw)) \<longrightarrow> kv_wf (bc_epochs (bw_state bw')))"
  using assms
proof (induction es arbitrary: par bw)
  case (Cons ee es)
  obtain e ed where ee: "ee = (e, ed)" by fastforce
  show ?case
  proof (cases "ed_Keys ed = []")
    case False
    from check_loop_Cons [OF Cons.prems [unfolded ee] this] obtain par1 bw1 where
      st: "check_epoch lc hook c par e ed bw = Inr (par1, bw1)" "check_loop lc hook c par1 es bw1 = Inr bw'" .
    show ?thesis using Cons.IH [OF st(2)] check_epoch_frame(1-3) [OF st(1)] ee by simp
  qed (use Cons.prems ee in simp)
qed simp

lemma check_loop_lost:
  assumes "check_loop lc hook c (Some None) es bw = Inr bw'" "no_gap (map snd es)" "open_epochs (map snd es)"
    "distinct (map fst es)" "\<forall>ee\<in>set es. kv_get (bc_epochs (bw_state bw)) (fst ee) = Some (snd ee)"
  shows "\<forall>ee\<in>set es. ed_Keys (epoch_after bw' ee) = []"
  using assms
proof (induction es arbitrary: bw)
  case (Cons ee es)
  obtain e ed where ee: "ee = (e, ed)" by fastforce
  show ?case
  proof (cases "ed_Keys ed = []")
    case True
    then show ?thesis using Cons.prems ee by (auto simp: no_gap_Cons)
  next
    case False
    from check_loop_Cons [OF Cons.prems(1) [unfolded ee] this] obtain par1 bw1 where
      st: "check_epoch lc hook c (Some None) e ed bw = Inr (par1, bw1)" "check_loop lc hook c par1 es bw1 = Inr bw'" .
    have "ed_Status ed \<noteq> Btc_Finalized" using Cons.prems(3) ee by (simp add: open_epochs_def)
    with st(1) have lost: "par1 = Some None" "kv_get (bc_epochs (bw_state bw1)) e = Some (ed\<lparr>ed_Keys := []\<rparr>)"
      by (cases rule: check_epoch_run; simp add: forget_run)+
    have rest: "no_gap (map snd es)" "open_epochs (map snd es)" "distinct (map fst es)" "e \<notin> fst ` set es"
      using Cons.prems(2-4) ee by (simp_all add: no_gap_Cons open_epochs_def)
    have get: "\<forall>ee\<in>set es. kv_get (bc_epochs (bw_state bw1)) (fst ee) = Some (snd ee)"
      by (rule check_epoch_others [OF st(1) rest(4)]) (use Cons.prems(5) in simp)
    have "\<forall>ee\<in>set es. ed_Keys (epoch_after bw' ee) = []" by (rule Cons.IH [OF st(2) [unfolded lost(1)] rest(1-3) get])
    moreover have "kv_get (bc_epochs (bw_state bw')) e = Some (ed\<lparr>ed_Keys := []\<rparr>)"
      using check_loop_frame [OF st(2), of e] lost(2) rest(4) by simp
    ultimately show ?thesis using ee by simp
  qed
qed simp

lemma kept_tracks:
  assumes "best_of lc (filter (usable lc parent) (ed_Keys ed)) best"
    "ed_Status ed' = max (ed_Status ed) (checkSubmissionStatus p best)"
    "ed_Keys ed' = (if ed_Status ed' = Btc_Finalized then [si_SubmissionKey best] else filter (usable lc parent) (ed_Keys ed))"
  shows "epoch_tracks lc p parent ed' best" "ed_Keys ed' \<noteq> []"
proof -
  from assms(1) obtain sk where sk: "sk \<in> set (ed_Keys ed)" "usable lc parent sk" "GetSubmissionBtcInfo lc sk = Inr best"
    by (auto simp: best_of_def)
  note key = submission_key [OF sk(3)]
  have "best_of lc [sk] best" using sk(3) IsBetterThan_order(1) by (auto simp: best_of_def)
  then show "epoch_tracks lc p parent ed' best" using assms sk key by (auto simp: epoch_tracks_def)
  show "ed_Keys ed' \<noteq> []" using assms(3) sk by (auto simp: filter_empty_conv)
qed

lemma check_loop_tracks:
  assumes "check_loop lc hook c par es bw = Inr bw'" "par \<noteq> Some None" "no_gap (map snd es)"
    "open_epochs (map snd (if par = None then tl es else es))" "distinct (map fst es)"
    "\<forall>ee\<in>set es. kv_get (bc_epochs (bw_state bw)) (fst ee) = Some (snd ee)"
  shows "tracks lc (bc_params (bw_state bw)) (Option.bind par (\<lambda>p. p)) (map (epoch_after bw') es)"
  using assms
proof (induction es arbitrary: par bw)
  case (Cons ee es)
  obtain e ed where ee: "ee = (e, ed)" by fastforce
  show ?case
  proof (cases "ed_Keys ed = []")
    case True
    then show ?thesis using Cons.prems ee by (auto simp: no_gap_Cons)
  next
    case False
    from check_loop_Cons [OF Cons.prems(1) [unfolded ee] this] obtain par1 bw1 where
      st: "check_epoch lc hook c par e ed bw = Inr (par1, bw1)" "check_loop lc hook c par1 es bw1 = Inr bw'" .
    have rest: "no_gap (map snd es)" "open_epochs (map snd es)" "distinct (map fst es)" "e \<notin> fst ` set es"
      using Cons.prems ee by (auto simp: no_gap_Cons open_epochs_def split: if_splits)
    have get: "\<forall>ee\<in>set es. kv_get (bc_epochs (bw_state bw1)) (fst ee) = Some (snd ee)"
      by (rule check_epoch_others [OF st(1) rest(4)]) (use Cons.prems(6) in simp)
    have same: "kv_get (bc_epochs (bw_state bw')) e = kv_get (bc_epochs (bw_state bw1)) e"
      using check_loop_frame [OF st(2), of e] rest(4) by simp
    have tl: "tracks lc (bc_params (bw_state bw)) (Some best) (map (epoch_after bw') es)" if "par1 = Some (Some best)" for best
      using Cons.IH [OF st(2) _ rest(1) _ rest(3) get] rest(2) that check_epoch_frame(2) [OF st(1)]
      by (auto simp: open_epochs_def)
    from st(1) show ?thesis
    proof (cases rule: check_epoch_run)
      case (final sk info)
      then have "epoch_tracks lc (bc_params (bw_state bw)) None ed info"
        using IsBetterThan_order(1) by (auto simp: epoch_tracks_def best_of_def usable_def checkSubmissionStatus_def status_order Let_def)
      moreover have "par = None" using final(1) Cons.prems(4) ee by (auto simp: open_epochs_def split: if_splits)
      ultimately show ?thesis using tl [OF final(4)] same final(2,5) Cons.prems(6) ee by auto
    next
      case forgotten
      have "\<forall>ee\<in>set es. ed_Keys (epoch_after bw' ee) = []"
        by (rule check_loop_lost [OF st(2) [unfolded forgotten(2)] rest(1-3) get])
      then show ?thesis using same forget_run(1) [OF forgotten(3)] ee by simp
    next
      case (kept best ed')
      from kept_tracks [OF kept(4-6)] show ?thesis using tl [OF kept(3)] same kept(7) ee by auto
    qed
  qed
qed simp

subsection \<open>The invariant of the module\<close>

text \<open>From the last finalised epoch on, no epoch with submissions follows one without. The last finalised epoch is
  finalised, and no later one is. There is no submission for the epoch zero, which has no checkpoint.\<close>

definition later_ok :: "u64 \<times> EpochData \<Rightarrow> u64 \<times> EpochData \<Rightarrow> bool" where
  "later_ok a b \<longleftrightarrow> (ed_Keys (snd a) = [] \<longrightarrow> ed_Keys (snd b) = [])"

definition bc_ok :: "bc_state \<Rightarrow> bool" where
  "bc_ok s \<longleftrightarrow> kv_wf (bc_epochs s) \<and> kv_get (bc_epochs s) 0 = None \<and> sorted_wrt later_ok (epochs_from s) \<and>
     (\<forall>(e, ed)\<in>set (bc_epochs s). ed_Status ed = Btc_Finalized \<longrightarrow> e \<le> bc_lastFinalizedEpoch s) \<and>
     (bc_lastFinalizedEpoch s > 0 \<longrightarrow>
       (case kv_get (bc_epochs s) (bc_lastFinalizedEpoch s) of None \<Rightarrow> False | Some ed \<Rightarrow> ed_Status ed = Btc_Finalized))"

lemma sorted_wrt_by_key:
  "sorted_wrt (<) (map fst xs) \<Longrightarrow>
    sorted_wrt P xs \<longleftrightarrow> (\<forall>a\<in>set xs. \<forall>b\<in>set xs. fst a < (fst b :: 'k::linorder) \<longrightarrow> P a b)"
proof (induction xs)
  case (Cons x xs)
  then have "\<forall>y\<in>set xs. fst x < fst y" by simp
  then show ?case using Cons by (auto dest: order.asym)
qed simp

lemma epochs_from_mem:
  "kv_wf (bc_epochs s) \<Longrightarrow> (e, ed) \<in> set (epochs_from s) \<longleftrightarrow>
    kv_get (bc_epochs s) e = Some ed \<and> bc_lastFinalizedEpoch s \<le> e"
  by (auto simp: epochs_from_def kv_entries word_less_nat_alt word_le_nat_alt)

lemma epochs_from_sorted: "kv_wf (bc_epochs s) \<Longrightarrow> sorted_wrt (<) (map fst (epochs_from s))"
  by (simp add: epochs_from_def kv_wf_def sorted_wrt_map sorted_wrt_filter)

text \<open>After the check the last finalised epoch is the latest one that is.\<close>

lemma check_loop_final:
  assumes "check_loop lc hook c par es bw = Inr bw'" "sorted_wrt (<) (map fst es)"
    "\<forall>ee\<in>set es. kv_get (bc_epochs (bw_state bw)) (fst ee) = Some (snd ee)"
  shows "(bc_lastFinalizedEpoch (bw_state bw') = bc_lastFinalizedEpoch (bw_state bw) \<and>
      (\<forall>ee\<in>set es. ed_Status (epoch_after bw' ee) = Btc_Finalized \<longrightarrow> ed_Status (snd ee) = Btc_Finalized)) \<or>
    (\<exists>ee\<in>set es. fst ee = bc_lastFinalizedEpoch (bw_state bw') \<and> ed_Status (epoch_after bw' ee) = Btc_Finalized \<and>
      (\<forall>ee'\<in>set es. fst ee < fst ee' \<and> ed_Status (epoch_after bw' ee') = Btc_Finalized \<longrightarrow> ed_Status (snd ee') = Btc_Finalized))"
  using assms
proof (induction es arbitrary: par bw)
  case (Cons ee es)
  obtain e ed where ee: "ee = (e, ed)" by fastforce
  show ?case
  proof (cases "ed_Keys ed = []")
    case True
    then show ?thesis using Cons.prems ee by auto
  next
    case False
    from check_loop_Cons [OF Cons.prems(1) [unfolded ee] this] obtain par1 bw1 where
      st: "check_epoch lc hook c par e ed bw = Inr (par1, bw1)" "check_loop lc hook c par1 es bw1 = Inr bw'" .
    have low: "\<forall>ee'\<in>set es. e < fst ee'" and so: "sorted_wrt (<) (map fst es)" using Cons.prems(2) ee by simp_all
    then have "e \<notin> fst ` set es" by auto
    have get: "\<forall>ee\<in>set es. kv_get (bc_epochs (bw_state bw1)) (fst ee) = Some (snd ee)"
      by (rule check_epoch_others [OF st(1) \<open>e \<notin> fst ` set es\<close>]) (use Cons.prems(3) in simp)
    have same: "kv_get (bc_epochs (bw_state bw')) e = kv_get (bc_epochs (bw_state bw1)) e"
      using check_loop_frame [OF st(2), of e] \<open>e \<notin> fst ` set es\<close> by simp
    have "(bc_lastFinalizedEpoch (bw_state bw1) = bc_lastFinalizedEpoch (bw_state bw) \<and>
        (ed_Status (epoch_after bw' ee) = Btc_Finalized \<longrightarrow> ed_Status ed = Btc_Finalized)) \<or>
      (bc_lastFinalizedEpoch (bw_state bw1) = e \<and> ed_Status (epoch_after bw' ee) = Btc_Finalized)"
      using st(1) by (cases rule: check_epoch_run) (use same Cons.prems(3) ee in \<open>auto simp: forget_run\<close>)
    then consider (old) "bc_lastFinalizedEpoch (bw_state bw1) = bc_lastFinalizedEpoch (bw_state bw)"
        "ed_Status (epoch_after bw' ee) = Btc_Finalized \<longrightarrow> ed_Status ed = Btc_Finalized"
      | (new) "bc_lastFinalizedEpoch (bw_state bw1) = e" "ed_Status (epoch_after bw' ee) = Btc_Finalized" by blast
    note head = this
    from Cons.IH [OF st(2) so get] show ?thesis
    proof (elim disjE conjE bexE)
      fix ee0 assume "ee0 \<in> set es" "fst ee0 = bc_lastFinalizedEpoch (bw_state bw')" "ed_Status (epoch_after bw' ee0) = Btc_Finalized"
        "\<forall>ee'\<in>set es. fst ee0 < fst ee' \<and> ed_Status (epoch_after bw' ee') = Btc_Finalized \<longrightarrow> ed_Status (snd ee') = Btc_Finalized"
      moreover from this(1) have "\<not> fst ee0 < fst ee" using low ee by (auto simp: not_less intro: less_imp_le)
      ultimately show ?thesis by (intro disjI2 bexI [of _ ee0]) auto
    next
      assume "bc_lastFinalizedEpoch (bw_state bw') = bc_lastFinalizedEpoch (bw_state bw1)"
        "\<forall>ee\<in>set es. ed_Status (epoch_after bw' ee) = Btc_Finalized \<longrightarrow> ed_Status (snd ee) = Btc_Finalized"
      then show ?thesis using ee by (cases rule: head) simp_all
    qed
  qed
qed simp

lemma bc_okI:
  assumes "kv_wf (bc_epochs s)" "kv_get (bc_epochs s) 0 = None"
    "\<And>e e' ed ed'. kv_get (bc_epochs s) e = Some ed \<Longrightarrow> kv_get (bc_epochs s) e' = Some ed' \<Longrightarrow>
      bc_lastFinalizedEpoch s \<le> e \<Longrightarrow> e < e' \<Longrightarrow> ed_Keys ed = [] \<Longrightarrow> ed_Keys ed' = []"
    "\<And>e ed. kv_get (bc_epochs s) e = Some ed \<Longrightarrow> ed_Status ed = Btc_Finalized \<Longrightarrow> e \<le> bc_lastFinalizedEpoch s"
    "bc_lastFinalizedEpoch s > 0 \<Longrightarrow>
      \<exists>ed. kv_get (bc_epochs s) (bc_lastFinalizedEpoch s) = Some ed \<and> ed_Status ed = Btc_Finalized"
  shows "bc_ok s"
  using assms(3-5) unfolding bc_ok_def sorted_wrt_by_key [OF epochs_from_sorted [OF assms(1)]]
  by (auto simp: assms(1,2) epochs_from_mem [OF assms(1)] later_ok_def kv_entries [OF assms(1)])

lemma bc_okD:
  assumes "bc_ok s"
  shows "kv_wf (bc_epochs s)" "kv_get (bc_epochs s) 0 = None"
    "kv_get (bc_epochs s) e = Some ed \<Longrightarrow> kv_get (bc_epochs s) e' = Some ed' \<Longrightarrow>
      bc_lastFinalizedEpoch s \<le> e \<Longrightarrow> e < e' \<Longrightarrow> ed_Keys ed = [] \<Longrightarrow> ed_Keys ed' = []"
    "kv_get (bc_epochs s) e = Some ed \<Longrightarrow> ed_Status ed = Btc_Finalized \<Longrightarrow> e \<le> bc_lastFinalizedEpoch s"
    "bc_lastFinalizedEpoch s > 0 \<Longrightarrow>
      \<exists>ed. kv_get (bc_epochs s) (bc_lastFinalizedEpoch s) = Some ed \<and> ed_Status ed = Btc_Finalized"
proof -
  show wf: "kv_wf (bc_epochs s)" and "kv_get (bc_epochs s) 0 = None" using assms by (simp_all add: bc_ok_def)
  have "sorted_wrt later_ok (epochs_from s)" using assms by (simp add: bc_ok_def)
  note bspec [OF bspec [OF this [unfolded sorted_wrt_by_key [OF epochs_from_sorted [OF wf]]], of "(e, ed)"], of "(e', ed')"]
  then show "kv_get (bc_epochs s) e = Some ed \<Longrightarrow> kv_get (bc_epochs s) e' = Some ed' \<Longrightarrow>
      bc_lastFinalizedEpoch s \<le> e \<Longrightarrow> e < e' \<Longrightarrow> ed_Keys ed = [] \<Longrightarrow> ed_Keys ed' = []"
    by (simp add: epochs_from_mem [OF wf] later_ok_def)
  show "kv_get (bc_epochs s) e = Some ed \<Longrightarrow> ed_Status ed = Btc_Finalized \<Longrightarrow> e \<le> bc_lastFinalizedEpoch s"
    using assms kv_entries [OF wf, of e ed] by (auto simp: bc_ok_def)
  show "bc_lastFinalizedEpoch s > 0 \<Longrightarrow>
      \<exists>ed. kv_get (bc_epochs s) (bc_lastFinalizedEpoch s) = Some ed \<and> ed_Status ed = Btc_Finalized"
    using assms by (auto simp: bc_ok_def split: option.splits)
qed

lemma bc_ok_epochs:
  assumes "bc_ok s"
  shows "no_gap (map snd (epochs_from s))" "open_epochs (map snd (tl (epochs_from s)))"
proof -
  note wf = bc_okD(1) [OF assms]
  show "no_gap (map snd (epochs_from s))" using assms by (simp add: bc_ok_def no_gap_def sorted_wrt_map later_ok_def [abs_def])
  have "ed_Status ed \<noteq> Btc_Finalized" if "(e, ed) \<in> set (tl (epochs_from s))" for e ed
  proof -
    from that obtain e0 ed0 es where es: "epochs_from s = (e0, ed0) # es" "(e, ed) \<in> set es" by (cases "epochs_from s") auto
    then have "e0 < e" using epochs_from_sorted [OF wf] by force
    moreover have "bc_lastFinalizedEpoch s \<le> e0" "kv_get (bc_epochs s) e = Some ed"
      using epochs_from_mem [OF wf, of e0 ed0] epochs_from_mem [OF wf, of e ed] es by simp_all
    ultimately show ?thesis using bc_okD(4) [OF assms, of e ed] by auto
  qed
  then show "open_epochs (map snd (tl (epochs_from s)))" by (auto simp: open_epochs_def)
qed

lemma epochs_from_get:
  "kv_wf (bc_epochs s) \<Longrightarrow> \<forall>ee\<in>set (epochs_from s). kv_get (bc_epochs s) (fst ee) = Some (snd ee)"
  using epochs_from_mem by fastforce

lemma tracks_check:
  assumes "bc_ok (bw_state bw)" "checkCheckpoints lc hook c bw = Inr bw'"
  shows "tracks lc (bc_params (bw_state bw)) None (map (epoch_after bw') (epochs_from (bw_state bw)))"
proof -
  let ?es = "epochs_from (bw_state bw)"
  note wf = bc_okD(1) [OF assms(1)]
  note s = bc_ok_epochs [OF assms(1)]
  have "distinct (map fst ?es)" using epochs_from_sorted [OF wf] by (simp add: strict_sorted_iff)
  from check_loop_tracks [OF assms(2) [unfolded checkCheckpoints_def] _ s(1) _ this epochs_from_get [OF wf]]
  show ?thesis using s(2) by simp
qed

lemma check_loop_present:
  assumes "check_loop lc hook c par es bw = Inr bw'" "\<forall>ee\<in>set es. kv_get (bc_epochs (bw_state bw)) (fst ee) \<noteq> None"
  shows "kv_get (bc_epochs (bw_state bw')) e = None \<longleftrightarrow> kv_get (bc_epochs (bw_state bw)) e = None"
  using assms
proof (induction es arbitrary: par bw)
  case (Cons ee es)
  obtain e1 ed where ee: "ee = (e1, ed)" by fastforce
  show ?case
  proof (cases "ed_Keys ed = []")
    case False
    from check_loop_Cons [OF Cons.prems(1) [unfolded ee] this] obtain par1 bw1 where
      st: "check_epoch lc hook c par e1 ed bw = Inr (par1, bw1)" "check_loop lc hook c par1 es bw1 = Inr bw'" .
    have "kv_get (bc_epochs (bw_state bw)) e1 \<noteq> None" using Cons.prems(2) ee by simp
    note fr = check_epoch_frame(4) [OF st(1) this]
    have "\<forall>ee\<in>set es. kv_get (bc_epochs (bw_state bw1)) (fst ee) \<noteq> None" unfolding fr using Cons.prems(2) by simp
    from Cons.IH [OF st(2) this] show ?thesis unfolding fr .
  qed (use Cons.prems ee in simp)
qed simp

text \<open>The status of an epoch never decreases.\<close>

lemma check_loop_status:
  assumes "check_loop lc hook c par es bw = Inr bw'" "distinct (map fst es)"
    "\<forall>ee\<in>set es. kv_get (bc_epochs (bw_state bw)) (fst ee) = Some (snd ee)"
  shows "\<forall>ee\<in>set es. ed_Status (snd ee) \<le> ed_Status (epoch_after bw' ee)"
  using assms
proof (induction es arbitrary: par bw)
  case (Cons ee es)
  obtain e ed where ee: "ee = (e, ed)" by fastforce
  show ?case
  proof (cases "ed_Keys ed = []")
    case True
    then show ?thesis using Cons.prems ee by auto
  next
    case False
    from check_loop_Cons [OF Cons.prems(1) [unfolded ee] this] obtain par1 bw1 where
      st: "check_epoch lc hook c par e ed bw = Inr (par1, bw1)" "check_loop lc hook c par1 es bw1 = Inr bw'" .
    have e: "e \<notin> fst ` set es" and d: "distinct (map fst es)" using Cons.prems(2) ee by simp_all
    have get: "\<forall>ee\<in>set es. kv_get (bc_epochs (bw_state bw1)) (fst ee) = Some (snd ee)"
      by (rule check_epoch_others [OF st(1) e]) (use Cons.prems(3) in simp)
    have same: "kv_get (bc_epochs (bw_state bw')) e = kv_get (bc_epochs (bw_state bw1)) e"
      using check_loop_frame [OF st(2), of e] e by simp
    from st(1) have "ed_Status ed \<le> ed_Status (epoch_after bw' ee)"
      by (cases rule: check_epoch_run) (use same Cons.prems(3) ee in \<open>auto simp: forget_run\<close>)
    then show ?thesis using Cons.IH [OF st(2) d get] ee by simp
  qed
qed simp

lemma check_entries:
  assumes "bc_ok (bw_state bw)" "checkCheckpoints lc hook c bw = Inr bw'"
  shows "kv_get (bc_epochs (bw_state bw')) e = None \<longleftrightarrow> kv_get (bc_epochs (bw_state bw)) e = None"
    "kv_get (bc_epochs (bw_state bw')) e = Some b \<Longrightarrow> bc_lastFinalizedEpoch (bw_state bw) \<le> e \<Longrightarrow>
      \<exists>b0. (e, b0) \<in> set (epochs_from (bw_state bw))"
proof -
  note ok = bc_okD [OF assms(1)] and mem = epochs_from_mem [OF bc_okD(1) [OF assms(1)]]
  show pres: "kv_get (bc_epochs (bw_state bw')) e = None \<longleftrightarrow> kv_get (bc_epochs (bw_state bw)) e = None"
    by (rule check_loop_present [OF assms(2) [unfolded checkCheckpoints_def]]) (use epochs_from_get [OF ok(1)] in simp)
  show "\<exists>b0. (e, b0) \<in> set (epochs_from (bw_state bw))"
    if "kv_get (bc_epochs (bw_state bw')) e = Some b" "bc_lastFinalizedEpoch (bw_state bw) \<le> e"
    using pres that by (simp add: mem)
qed

lemma check_gap:
  assumes "bc_ok (bw_state bw)" "checkCheckpoints lc hook c bw = Inr bw'"
    "kv_get (bc_epochs (bw_state bw')) e = Some a" "kv_get (bc_epochs (bw_state bw')) e' = Some b" "ed_Keys a = []"
    "bc_lastFinalizedEpoch (bw_state bw) \<le> e" "e < e'"
  shows "ed_Keys b = []"
proof -
  have "bc_lastFinalizedEpoch (bw_state bw) \<le> e'" using assms(6,7) by simp
  then obtain a0 b0 where "(e, a0) \<in> set (epochs_from (bw_state bw))" "(e', b0) \<in> set (epochs_from (bw_state bw))"
    using check_entries(2) [OF assms(1,2)] assms(3,4,6) by meson
  moreover have "sorted_wrt (\<lambda>x y. ed_Keys (epoch_after bw' x) = [] \<longrightarrow> ed_Keys (epoch_after bw' y) = []) (epochs_from (bw_state bw))"
    using tracks_no_gap [OF tracks_check [OF assms(1,2)]] by (simp add: no_gap_def sorted_wrt_map)
  note this [unfolded sorted_wrt_by_key [OF epochs_from_sorted [OF bc_okD(1) [OF assms(1)]]], rule_format]
  ultimately show ?thesis using assms(3-5,7) by fastforce
qed

lemma check_last_kept:
  assumes "bc_ok (bw_state bw)" "checkCheckpoints lc hook c bw = Inr bw'" "bc_lastFinalizedEpoch (bw_state bw) > 0"
  shows "\<exists>ed. kv_get (bc_epochs (bw_state bw')) (bc_lastFinalizedEpoch (bw_state bw)) = Some ed \<and> ed_Status ed = Btc_Finalized"
proof -
  let ?l = "bc_lastFinalizedEpoch (bw_state bw)"
  note ok = bc_okD [OF assms(1)]
  from ok(5) [OF assms(3)] obtain ed where ed: "kv_get (bc_epochs (bw_state bw)) ?l = Some ed" "ed_Status ed = Btc_Finalized" by blast
  have d: "distinct (map fst (epochs_from (bw_state bw)))" using epochs_from_sorted [OF ok(1)] by (simp add: strict_sorted_iff)
  have "(?l, ed) \<in> set (epochs_from (bw_state bw))" using ed(1) by (simp add: epochs_from_mem [OF ok(1)])
  from bspec [OF check_loop_status [OF assms(2) [unfolded checkCheckpoints_def] d epochs_from_get [OF ok(1)]] this]
  have "Btc_Finalized \<le> ed_Status (epoch_after bw' (?l, ed))" using ed(2) by simp
  moreover obtain b where "kv_get (bc_epochs (bw_state bw')) ?l = Some b"
    using check_entries(1) [OF assms(1,2), of ?l] ed(1) by auto
  ultimately show ?thesis by (cases "ed_Status b") (auto simp: status_order)
qed

lemma check_last:
  assumes "bc_ok (bw_state bw)" "checkCheckpoints lc hook c bw = Inr bw'"
  shows "bc_lastFinalizedEpoch (bw_state bw) \<le> bc_lastFinalizedEpoch (bw_state bw')"
    "kv_get (bc_epochs (bw_state bw')) e = Some b \<Longrightarrow> ed_Status b = Btc_Finalized \<Longrightarrow> e \<le> bc_lastFinalizedEpoch (bw_state bw')"
    "bc_lastFinalizedEpoch (bw_state bw') > 0 \<Longrightarrow>
       \<exists>ed. kv_get (bc_epochs (bw_state bw')) (bc_lastFinalizedEpoch (bw_state bw')) = Some ed \<and> ed_Status ed = Btc_Finalized"
proof -
  note ok = bc_okD [OF assms(1)] and ent = check_entries [OF assms]
  note run = check_loop_final [OF assms(2) [unfolded checkCheckpoints_def] epochs_from_sorted [OF ok(1)] epochs_from_get [OF ok(1)]]
  from run have "bc_lastFinalizedEpoch (bw_state bw') = bc_lastFinalizedEpoch (bw_state bw) \<or>
    (\<exists>ed. (bc_lastFinalizedEpoch (bw_state bw'), ed) \<in> set (epochs_from (bw_state bw)) \<and>
      ed_Status (epoch_after bw' (bc_lastFinalizedEpoch (bw_state bw'), ed)) = Btc_Finalized)"
    by (metis prod.collapse)
  then show le: "bc_lastFinalizedEpoch (bw_state bw) \<le> bc_lastFinalizedEpoch (bw_state bw')"
    and "bc_lastFinalizedEpoch (bw_state bw') > 0 \<Longrightarrow>
       \<exists>ed. kv_get (bc_epochs (bw_state bw')) (bc_lastFinalizedEpoch (bw_state bw')) = Some ed \<and> ed_Status ed = Btc_Finalized"
    using check_last_kept [OF assms] ent(1) [of "bc_lastFinalizedEpoch (bw_state bw')"]
    by (auto simp: epochs_from_mem [OF ok(1)])
  assume b: "kv_get (bc_epochs (bw_state bw')) e = Some b" "ed_Status b = Btc_Finalized"
  show "e \<le> bc_lastFinalizedEpoch (bw_state bw')"
  proof (rule ccontr)
    assume "\<not> e \<le> bc_lastFinalizedEpoch (bw_state bw')"
    then have e: "bc_lastFinalizedEpoch (bw_state bw') < e" "bc_lastFinalizedEpoch (bw_state bw) \<le> e" using le by simp_all
    from ent(2) [OF b(1) e(2)] obtain b0 where b0: "(e, b0) \<in> set (epochs_from (bw_state bw))" by blast
    have "ed_Status b0 = Btc_Finalized" using run b0 b e(1) by fastforce
    then have "e \<le> bc_lastFinalizedEpoch (bw_state bw)" using ok(4) b0 by (simp add: epochs_from_mem [OF ok(1)])
    then show False using e(1) le by simp
  qed
qed

lemma bc_ok_check:
  assumes "bc_ok (bw_state bw)" "checkCheckpoints lc hook c bw = Inr bw'"
  shows "bc_ok (bw_state bw')"
proof (rule bc_okI)
  note last = check_last [OF assms]
  show "kv_wf (bc_epochs (bw_state bw'))"
    using check_loop_frame [OF assms(2) [unfolded checkCheckpoints_def]] bc_okD(1) [OF assms(1)] by blast
  show "kv_get (bc_epochs (bw_state bw')) 0 = None" using check_entries(1) [OF assms] bc_okD(2) [OF assms(1)] by simp
  fix e e' a b assume g: "kv_get (bc_epochs (bw_state bw')) e = Some a" "kv_get (bc_epochs (bw_state bw')) e' = Some b"
    "bc_lastFinalizedEpoch (bw_state bw') \<le> e" "e < e'" "ed_Keys a = []"
  show "ed_Keys b = []" by (rule check_gap [OF assms g(1,2,5) order.trans [OF last(1) g(3)] g(4)])
qed (use check_last [OF assms] in blast)+

text \<open>A report is accepted only for a known checkpoint of an epoch that is not finalised, and either flags a
  conflict or appends the submission.\<close>

lemma verify_known:
  assumes "VerifyCheckpoint L ev hook raw w = (None, w')"
  shows "cs_checkpoints (cw_state w) (rc_Epoch raw) \<noteq> None"
proof -
  obtain r where "verifyCkptBytes L ev hook raw w = r" "fst r = None"
    using assms by (cases "verifyCkptBytes L ev hook raw w") (auto simp: VerifyCheckpoint_def split: option.splits ckpt_error.splits)
  then show ?thesis
    by (auto simp: verifyCkptBytes_def FromBTCCkptToRawCkpt_def GetRawCheckpoint_def result_simps split: sum.splits option.splits)
qed

lemma add_submission_state:
  assumes "addEpochSubmission c e ed sk sd bw = Inr bw'"
  shows "bw_state bw' = saveSubmission sk sd (saveEpochData e (AppendKey sk ed) (bw_state bw))"
  using assms by (auto simp: addEpochSubmission_def result_simps on_state_def dest: call_ckpt_state split: if_splits)

lemma accept_run:
  assumes "accept_submission env lc c req raw info ed bw = Inr bw'"
  obtains "bw_state bw' = bw_state bw"
  | sd where "cs_checkpoints (cw_state (bw_ckpt bw)) (rc_Epoch (rs_CheckpointData raw)) \<noteq> None"
      "checkAncestors lc (rc_Epoch (rs_CheckpointData raw)) info (bw_state bw) = Inr ()"
      "bw_state bw' = saveSubmission (GetSubmissionKey raw) sd
         (saveEpochData (rc_Epoch (rs_CheckpointData raw)) (AppendKey (GetSubmissionKey raw) ed) (bw_state bw))"
proof -
  obtain eo w1 where v: "VerifyCheckpoint (be_ckpt_lib env) (be_epoching env) (be_hook env) (rs_CheckpointData raw) (bw_ckpt bw) = (eo, w1)"
    by fastforce
  show ?thesis
  proof (cases eo)
    case (Some e1)
    then show ?thesis using assms v that(1) by (auto simp: accept_submission_def Let_def split: if_splits)
  next
    case None
    with assms v obtain sd bw1 where
      r: "checkAncestors lc (rc_Epoch (rs_CheckpointData raw)) info (bw_state bw) = Inr ()"
      "addEpochSubmission c (rc_Epoch (rs_CheckpointData raw)) ed (GetSubmissionKey raw) sd (bw\<lparr>bw_ckpt := w1\<rparr>) = Inr bw1"
      "bw_state bw' = bw_state bw1"
      by (auto simp: accept_submission_def result_simps Let_def)
    show ?thesis
      using that(2) [OF verify_known [OF v [unfolded None]] r(1), of sd] add_submission_state [OF r(2)] r(3) by simp
  qed
qed

lemma insert_run:
  assumes "InsertBTCSpvProof env lc c req bw = Inr bw'"
  obtains "bw_state bw' = bw_state bw"
  | e ed sk sd info where "ed = (case GetEpochData e (bw_state bw) of None \<Rightarrow> NewEmptyEpochData | Some ed \<Rightarrow> ed)"
      "ed_Status ed \<noteq> Btc_Finalized" "cs_checkpoints (cw_state (bw_ckpt bw)) e \<noteq> None"
      "GetSubmissionBtcInfo lc sk = Inr info" "checkAncestors lc e info (bw_state bw) = Inr ()" "length sk = 2"
      "bw_state bw' = saveSubmission sk sd (saveEpochData e (AppendKey sk ed) (bw_state bw))"
proof -
  from assms obtain tag raw info where "GetExpectedTag (bw_state bw) = Inr tag"
    "ParseSubmission (be_spv env) (be_sha256 env) (be_addr_of env) req tag = Inr raw"
    and info: "submission_info lc (GetSubmissionKey raw) = Inr (Some info)" and
    ed: "ed_Status (case GetEpochData (rc_Epoch (rs_CheckpointData raw)) (bw_state bw) of
        None \<Rightarrow> NewEmptyEpochData | Some ed \<Rightarrow> ed) \<noteq> Btc_Finalized" and
    acc: "accept_submission env lc c req raw info (case GetEpochData (rc_Epoch (rs_CheckpointData raw)) (bw_state bw) of
        None \<Rightarrow> NewEmptyEpochData | Some ed \<Rightarrow> ed) bw = Inr bw'"
    unfolding InsertBTCSpvProof_def Let_def bindR_eq_Inr
    by (elim exE conjE) (auto simp: guardR_eq_Inr bindR_eq_Inr split: option.split_asm sum.split_asm)
  from acc show ?thesis
  proof (cases rule: accept_run)
    case 1
    then show ?thesis by (rule that(1))
  next
    case (2 sd)
    have "length (GetSubmissionKey raw) = 2" by (simp add: GetSubmissionKey_def)
    then show ?thesis using that(2) [OF refl ed 2(1) _ 2(2)] 2(3) submission_info_cases [OF info] by simp
  qed
qed

lemma bc_ok_insert:
  assumes "bc_ok (bw_state bw)" "InsertBTCSpvProof env lc c req bw = Inr bw'" "cs_checkpoints (cw_state (bw_ckpt bw)) 0 = None"
  shows "bc_ok (bw_state bw')"
  using assms(2)
proof (cases rule: insert_run)
  case 1
  then show ?thesis using assms(1) by simp
next
  case (2 e ed sk sd info)
  let ?s = "bw_state bw"
  note ok = bc_okD [OF assms(1)]
  have s': "bc_epochs (bw_state bw') = kv_set e (AppendKey sk ed) (bc_epochs ?s)"
    "bc_lastFinalizedEpoch (bw_state bw') = bc_lastFinalizedEpoch ?s"
    by (simp_all add: 2(7) saveSubmission_def saveEpochData_def)
  have e0: "e \<noteq> 0" using 2(3) assms(3) by auto
  have app: "ed_Keys (AppendKey sk ed) \<noteq> []" "ed_Status (AppendKey sk ed) \<noteq> Btc_Finalized" using 2(2) by (simp_all add: AppendKey_def)
  have before: "ed_Keys a \<noteq> []" if "kv_get (bc_epochs ?s) x = Some a" "bc_lastFinalizedEpoch ?s \<le> x" "x < e" for x a
  proof (cases "e \<le> 1")
    case True
    then have "unat x = 0" using that(3) by (simp add: word_less_nat_alt word_le_nat_alt)
    then have "x = 0" by (simp add: unat_eq_zero)
    then show ?thesis using that(1) ok(2) by simp
  next
    case False
    then obtain p where p: "kv_get (bc_epochs ?s) (e - 1) = Some p" "ed_Keys p \<noteq> []"
      using 2(5) by (auto simp: checkAncestors_def GetEpochData_def guardR_eq_Inr split: option.splits)
    have "x \<le> e - 1" using that(3) unat_minus_one [OF e0] by (simp add: word_less_nat_alt word_le_nat_alt)
    then consider "x = e - 1" | "x < e - 1" by fastforce
    then show ?thesis using ok(3) [OF that(1) p(1) that(2)] p that(1) by cases auto
  qed
  have neq: "e \<noteq> bc_lastFinalizedEpoch ?s" if "bc_lastFinalizedEpoch ?s > 0"
    using ok(5) [OF that] 2(1,2) by (auto simp: GetEpochData_def)
  show ?thesis
    by (rule bc_okI) (use ok app before neq e0 in \<open>auto simp: s' split: if_splits\<close>)
qed

subsection \<open>Checkpoints follow Bitcoin\<close>

text \<open>C9. After the check at the end of a block, the epochs from the last finalised one on agree with the main chain
  of the light client: every submission that remains has all of its blocks on the main chain and after the best
  submission of the epoch before, the status of an epoch is at least what the depth of its best submission gives,
  a finalised epoch has one submission, and no epoch with submissions follows one without. No status decreases,
  earlier epochs do not change, and the invariant of the module is kept, also by every message.\<close>

theorem checkpoints_track_bitcoin:
  assumes "bc_ok (bw_state bw)"
  shows "(bc_LightClientUpdated (bw_state bw) \<and> BtcCheckpoint_EndBlocker lc hook c bw = Inr bw1 \<longrightarrow>
      bc_ok (bw_state bw1) \<and>
      tracks lc (bc_params (bw_state bw)) None
        (map (\<lambda>(e, _). the (GetEpochData e (bw_state bw1))) (epochs_from (bw_state bw))) \<and>
      (\<forall>(e, ed)\<in>set (epochs_from (bw_state bw)). ed_Status ed \<le> ed_Status (the (GetEpochData e (bw_state bw1)))) \<and>
      (\<forall>e. e < bc_lastFinalizedEpoch (bw_state bw) \<longrightarrow> GetEpochData e (bw_state bw1) = GetEpochData e (bw_state bw))) \<and>
    (cs_checkpoints (cw_state (bw_ckpt bw)) 0 = None \<and> InsertBTCSpvProof env lc c req bw = Inr bw2 \<longrightarrow> bc_ok (bw_state bw2))"
proof (intro conjI impI)
  note wf = bc_okD(1) [OF assms]
  assume "bc_LightClientUpdated (bw_state bw) \<and> BtcCheckpoint_EndBlocker lc hook c bw = Inr bw1"
  then have run: "checkCheckpoints lc hook c bw = Inr bw1" by (auto simp: BtcCheckpoint_EndBlocker_def)
  show "bc_ok (bw_state bw1)" by (rule bc_ok_check [OF assms run])
  show "tracks lc (bc_params (bw_state bw)) None
      (map (\<lambda>(e, _). the (GetEpochData e (bw_state bw1))) (epochs_from (bw_state bw)))"
    using tracks_check [OF assms run] by (simp add: GetEpochData_def case_prod_beta')
  have "distinct (map fst (epochs_from (bw_state bw)))" using epochs_from_sorted [OF wf] by (simp add: strict_sorted_iff)
  from check_loop_status [OF run [unfolded checkCheckpoints_def] this epochs_from_get [OF wf]]
  show "\<forall>(e, ed)\<in>set (epochs_from (bw_state bw)). ed_Status ed \<le> ed_Status (the (GetEpochData e (bw_state bw1)))"
    by (auto simp: GetEpochData_def)
  show "\<forall>e. e < bc_lastFinalizedEpoch (bw_state bw) \<longrightarrow> GetEpochData e (bw_state bw1) = GetEpochData e (bw_state bw)"
  proof (intro allI impI)
    fix e assume "e < bc_lastFinalizedEpoch (bw_state bw)"
    then have "e \<notin> fst ` set (epochs_from (bw_state bw))" by (auto simp: epochs_from_mem [OF wf])
    then show "GetEpochData e (bw_state bw1) = GetEpochData e (bw_state bw)"
      using check_loop_frame [OF run [unfolded checkCheckpoints_def], of e] by (simp add: GetEpochData_def)
  qed
next
  assume "cs_checkpoints (cw_state (bw_ckpt bw)) 0 = None \<and> InsertBTCSpvProof env lc c req bw = Inr bw2"
  then show "bc_ok (bw_state bw2)" using bc_ok_insert [OF assms] by blast
qed

subsection \<open>A finalised epoch whose submission is deleted\<close>

lemma fold_delete_submissions:
  "bc_submissions (fold deleteSubmission ks s) sk = (if sk \<in> set ks then None else bc_submissions s sk)"
  by (induction ks arbitrary: s) (auto simp: deleteSubmission_def)

lemma delete_except_first:
  "fold (\<lambda>(i, sk) s. if i \<noteq> 0 then deleteSubmission sk s else s) (List.enumerate 0 (k # ks)) s = fold deleteSubmission ks s"
proof -
  have "fold (\<lambda>(i, sk) s. if i \<noteq> 0 then deleteSubmission sk s else s) (List.enumerate (Suc n) ks) s = fold deleteSubmission ks s" for n s
    by (induction ks arbitrary: n s) simp_all
  then show ?thesis by simp
qed

definition dead :: "'b lc_state \<Rightarrow> SubmissionKey \<Rightarrow> bool" where
  "dead lc sk \<longleftrightarrow> length sk \<ge> 2 \<and> GetSubmissionBtcInfo lc sk = Inl ErrSubmissionUnknown"

lemma change_step_dead:
  "dead lc sk \<Longrightarrow> change_step lc parent ec (i, sk) = Inr (ec\<lparr>ec_SubmissionsToDelete := ec_SubmissionsToDelete ec @ [sk]\<rparr>)"
  by (simp add: dead_def change_step_def submission_info_def)

lemma changes_dead:
  "\<forall>sk\<in>set ks. dead lc sk \<Longrightarrow> foldR (change_step lc parent) ec (List.enumerate n ks) =
    Inr (ec\<lparr>ec_SubmissionsToDelete := ec_SubmissionsToDelete ec @ ks\<rparr>)"
  by (induction ks arbitrary: n ec) (simp_all add: change_step_dead)

lemma youngest_block_known:
  assumes "GetSubmissionBtcInfo lc sk = Inr info"
  shows "\<exists>h. BlockHeight (Some (si_YoungestBlockHash info)) lc = Inr h"
proof -
  from assms obtain d h l ol where f: "foldR (block_step lc) (- 1, None, - 1, 0) sk = Inr (d, Some h, l, ol)" "si_YoungestBlockHash info = h"
    by (auto simp: GetSubmissionBtcInfo_def result_simps split: option.splits)
  have known: "\<exists>n. BlockHeight (Some h) lc = Inr n" if "headerDepth lc h = Inr d" for h d
    using that by (auto simp: headerDepth_def MainChainDepth_def BlockHeight_def result_simps split: sum.splits lc_error.splits)
  have "case (d, Some h, l, ol) of (_, hs, _) \<Rightarrow> \<forall>h. hs = Some h \<longrightarrow> (\<exists>n. BlockHeight (Some h) lc = Inr n)"
    by (rule foldR_invariant [OF f(1)])
      (auto simp: block_step_def result_simps Let_def split: if_splits dest: known)
  then show ?thesis using f(2) by simp
qed

lemma status_change:
  assumes "cs_checkpoints s e = Some cm" "ck_EpochNum (cm_Ckpt cm) = e"
  shows "setCheckpointStatus c e expected to s = (let cm1 = RecordStateUpdate c to (cm\<lparr>cm_Status := to\<rparr>) in
    if cm_Status cm \<in> set expected then Inr (s\<lparr>cs_checkpoints := (cs_checkpoints s)(e \<mapsto> cm1)\<rparr>, cm1) else Inl ErrInvalidCkptStatus)"
  using assms by (simp add: setCheckpointStatus_def GetRawCheckpoint_def UpdateCheckpoint_def validateCheckpointStatus_def
      RecordStateUpdate_def Let_def)

lemma ckpt_world_simps [simp]:
  "cw_state (ckpt_emit ev w) = cw_state w" "cw_state (ckpt_hook hook call w) = cw_state w"
  by (simp_all add: ckpt_emit_def ckpt_hook_def)

lemmas set_status_defs =
  SetCheckpointSubmitted_def SetCheckpointConfirmed_def SetCheckpointFinalized_def SetCheckpointForgotten_def on_status_def

lemma epochs_from_single: "bc_lastFinalizedEpoch s \<le> e \<Longrightarrow> bc_epochs s = [(e, ed)] \<Longrightarrow> epochs_from s = [(e, ed)]"
  by (simp add: epochs_from_def)


subsection \<open>A confirmed epoch that is forgotten\<close>

lemma check_lost_epoch:
  assumes "bc_epochs (bw_state bw) = [(e, ed)]" "bc_lastFinalizedEpoch (bw_state bw) \<le> e" "ed_Status ed \<noteq> Btc_Finalized"
    "ed_Keys ed \<noteq> []" "\<forall>sk\<in>set (ed_Keys ed). dead lc sk"
  shows "checkCheckpoints lc hook c bw = forget_epoch hook c e ed bw"
proof -
  have "getEpochChanges lc None ed = Inr \<lparr>ec_SubmissionsToDelete = ed_Keys ed, ec_SubmissionsToKeep = [],
      ec_EpochBestSubmission = None, ec_BestSubmissionIdx = 0\<rparr>"
    using changes_dead [OF assms(5), of None] by (simp add: getEpochChanges_def)
  then show ?thesis
    using assms(3,4) by (cases "forget_epoch hook c e ed bw")
      (simp_all add: checkCheckpoints_def epochs_from_single [OF assms(2,1)] check_epoch_def)
qed

lemma check_single_submission:
  assumes "bc_epochs (bw_state bw) = [(e, \<lparr>ed_Keys = [sk], ed_Status = Btc_Confirmed\<rparr>)]" "bc_lastFinalizedEpoch (bw_state bw) \<le> e"
    "length sk \<ge> 2" "GetSubmissionBtcInfo lc sk = Inr info" "checkSubmissionStatus (bc_params (bw_state bw)) info = Btc_Finalized"
    "SetCheckpointFinalized hook c e (bw_ckpt bw) = Inr w"
  shows "checkCheckpoints lc hook c bw = Inr (bw\<lparr>bw_ckpt := w, bw_state := saveEpochData e
    \<lparr>ed_Keys = [sk], ed_Status = Btc_Finalized\<rparr> ((bw_state bw)\<lparr>bc_lastFinalizedEpoch := e\<rparr>)\<rparr>)"
proof -
  have "getEpochChanges lc None \<lparr>ed_Keys = [sk], ed_Status = Btc_Confirmed\<rparr> = Inr \<lparr>ec_SubmissionsToDelete = [],
      ec_SubmissionsToKeep = [sk], ec_EpochBestSubmission = Some info, ec_BestSubmissionIdx = 0\<rparr>"
    using assms(3,4) by (simp add: getEpochChanges_def change_step_def submission_info_def)
  then show ?thesis
    using assms(5,6) submission_key [OF assms(4)]
    by (simp add: checkCheckpoints_def epochs_from_single [OF assms(2,1)] check_epoch_def confirm_epoch_def finalize_epoch_def
        status_order call_ckpt_def on_state_def apply_changes_def Let_def)
qed

lemma forgotten_statuses:
  assumes "cs_checkpoints (cw_state w) e = Some cm" "ck_EpochNum (cm_Ckpt cm) = e" "cm_Status cm = Confirmed"
  obtains w1 cm1 w2 cm2 where "SetCheckpointForgotten hook c1 e w = Inr w1" "cs_checkpoints (cw_state w1) e = Some cm1"
    "cm_Status cm1 = Sealed" "SetCheckpointSubmitted c2 e w1 = Inr w2" "cs_checkpoints (cw_state w2) e = Some cm2"
    "cm_Status cm2 = Submitted" "cs_LastFinalizedEpoch (cw_state w2) = cs_LastFinalizedEpoch (cw_state w)"
    "SetCheckpointFinalized hook c3 e w2 = Inr w2"
proof -
  obtain w1 cm1 where w1: "SetCheckpointForgotten hook c1 e w = Inr w1" "cs_checkpoints (cw_state w1) e = Some cm1"
      "ck_EpochNum (cm_Ckpt cm1) = e" "cm_Status cm1 = Sealed"
      "cs_LastFinalizedEpoch (cw_state w1) = cs_LastFinalizedEpoch (cw_state w)"
    using status_change [OF assms(1,2)] assms(2,3) by (auto simp: set_status_defs Let_def RecordStateUpdate_def)
  obtain w2 cm2 where w2: "SetCheckpointSubmitted c2 e w1 = Inr w2" "cs_checkpoints (cw_state w2) e = Some cm2"
      "ck_EpochNum (cm_Ckpt cm2) = e" "cm_Status cm2 = Submitted"
      "cs_LastFinalizedEpoch (cw_state w2) = cs_LastFinalizedEpoch (cw_state w1)"
    using status_change [OF w1(2,3)] w1(3,4) by (auto simp: set_status_defs Let_def RecordStateUpdate_def)
  have w3: "SetCheckpointFinalized hook c3 e w2 = Inr w2"
    using status_change [OF w2(2,3)] w2(4) by (simp add: set_status_defs Let_def)
  with w1 w2 show ?thesis by (intro that) simp_all
qed


subsection \<open>Instances\<close>

text \<open>A chain of four headers, of which the first is three deep, submissions with both transactions in one block, and
  a world with the given epochs in which the checkpoint of the first epoch is confirmed.\<close>

definition four_headers :: "string lc_state" where
  "four_headers = (let cs = [word_info [] 5 1, word_info ''a'' 6 2, word_info ''ba'' 7 3, word_info ''cba'' 8 4] in
     \<lparr>lc_headers = map (\<lambda>i. (hi_Height i, i)) cs, lc_hashToHeight = map_of (map (\<lambda>i. (hi_Hash i, hi_Height i)) cs),
       lc_InsertHeadersAllowList = []\<rparr>)"

definition in_block :: "string \<Rightarrow> SubmissionKey" where
  "in_block h = [\<lparr>tk_Index = 1, tk_Hash = h\<rparr>, \<lparr>tk_Index = 2, tk_Hash = h\<rparr>]"

definition sample_world :: "(u64, EpochData) kv \<Rightarrow> unit bc_world" where
  "sample_world epochs = \<lparr>bw_state = \<lparr>bc_submissions = Map.empty, bc_epochs = epochs, bc_lastFinalizedEpoch = 0,
       bc_LightClientUpdated = True, bc_params = \<lparr>bp_BtcConfirmationDepth = 1, bp_CheckpointFinalizationTimeout = 2,
         bp_CheckpointTag = ''01020304''\<rparr>\<rparr>,
     bw_ckpt = two_keys\<lparr>cw_state := (cw_state two_keys)\<lparr>cs_checkpoints :=
       [1 \<mapsto> NewCheckpointWithMeta (NewCheckpoint word_lib 1 ''hash'') Confirmed]\<rparr>\<rparr>\<rparr>"

definition sample_epochs :: "(u64, EpochData) kv" where
  "sample_epochs = [(1, \<lparr>ed_Keys = [in_block ''h''], ed_Status = Btc_Confirmed\<rparr>),
     (2, \<lparr>ed_Keys = [in_block ''hx'', in_block ''hba''], ed_Status = Btc_Submitted\<rparr>)]"

lemma sample_info:
  "GetSubmissionBtcInfo four_headers (in_block ''h'') = Inr \<lparr>si_SubmissionKey = in_block ''h'', si_OldestBlockDepth = 3,
     si_YoungestBlockDepth = 3, si_YoungestBlockHash = ''h'', si_YoungestBlockLowestTxIdx = 1\<rparr>"
  "dead four_headers (in_block ''hx'')"
  by code_simp+

theorem checkpoints_track_bitcoin_witness:
  "\<exists>bw. BtcCheckpoint_EndBlocker four_headers (\<lambda>_ x. (True, x)) \<lparr>cc_Height = 9, cc_Time = 0\<rparr> (sample_world sample_epochs) = Inr bw \<and>
    bc_ok (bw_state bw)"
proof -
  let ?r = "BtcCheckpoint_EndBlocker four_headers (\<lambda>_ x. (True, x)) \<lparr>cc_Height = 9, cc_Time = 0\<rparr> (sample_world sample_epochs)"
  have "case ?r of Inl _ \<Rightarrow> False | Inr _ \<Rightarrow> True" by code_simp
  then obtain bw where bw: "?r = Inr bw" by (auto split: sum.splits)
  have ok: "bc_ok (bw_state (sample_world sample_epochs))" by code_simp
  have "bc_LightClientUpdated (bw_state (sample_world sample_epochs))" by (simp add: sample_world_def)
  from checkpoints_track_bitcoin [OF ok, THEN conjunct1, rule_format, OF conjI [OF this bw]] bw show ?thesis by blast
qed



end
