(* ===== verification/Spec2Isabelle.thy ===== *)
theory Spec2Isabelle
  imports Key_Extraction BTC_Checkpoint
begin

text \<open>
  Babylon is a chain of the Cosmos SDK whose blocks are finalised by finality providers that hold Bitcoin
  stake, and whose epochs are timestamped on Bitcoin. This development models the modules that decide about
  stake, votes and slashing and those that checkpoint epochs on Bitcoin, and proves what they promise.

  \<^bold>\<open>Parts of the program and how they interact.\<close>
  \<^item> \<open>x/btcstaking\<close> keeps finality providers, Bitcoin delegations and the versioned parameters. Every change
    of the stake of a provider is queued as an event at a Bitcoin height.
  \<^item> \<open>x/finality\<close> consumes these events when a block begins and computes the voting power of the block,
    accepts commitments to public randomness and votes, slashes providers that vote twice, and when
    a block ends tallies votes, finalises blocks, jails providers that miss votes and rewards the others.
  \<^item> \<open>crypto/eots\<close> is the signature scheme of the votes: two signatures for one height reveal the key.
  \<^item> \<open>x/btclightclient\<close> keeps the main chain of Bitcoin headers and chooses between forks by work.
  \<^item> \<open>x/checkpointing\<close> builds the checkpoint of an epoch from BLS signatures of validators, seals it and follows its
    status; \<open>btctxformatter\<close> writes it into two Bitcoin transactions.
  \<^item> \<open>x/btccheckpoint\<close> accepts proofs that these transactions are on Bitcoin and, whenever the light client changes,
    confirms, finalises or forgets epochs by the depth of their submissions; it calls the two modules above.
  \<^item> Staking and finality see the other modules through their interfaces: the tip and the base of the light client,
    epochs and checkpoints through the record \<open>ctx\<close>, hooks and the incentive module through the record \<open>env\<close>, library
    functions (signature checks, Merkle proofs, scripts) through the record \<open>ext\<close>.

  \<^bold>\<open>Conventions.\<close> \<open>uint32\<close> and \<open>uint64\<close> are words, so that sums wrap as in Go; satoshi changes are 64-bit words
  read as signed; other \<open>int64\<close> values and times (nanoseconds) are integers; a \<open>LegacyDec\<close> is an integer scaled by
  \<open>10 ^ 18\<close>. A public key is its lower-case hexadecimal string. A function that may fail returns \<open>error + 'a\<close>;
  a panic is the error \<open>Panic\<close>. A store that the code iterates is a sorted association list (\<open>kv\<close>), any other
  store a map. Loops over heights are recursions over \<open>heights_upto\<close>, which ends since the list does; the loop
  of \<open>createBranch\<close> is a partial function that is proved to return. No definition uses fuel. Logging and metrics
  are left out.

  \<^bold>\<open>Theories.\<close>
  \<^item> \<open>Prelude\<close>: results, sorted stores, lists, words. The locale \<open>ordered_store\<close> and its interpretation carry the lookup
    laws of stores.
  \<^item> \<open>Data_Model\<close>: the messages, stored types and errors of both modules (\<open>*.pb.go\<close>, \<open>errors.go\<close>), the state records
    \<open>bs_state\<close> and \<open>fin_state\<close>, and the parameters \<open>ctx\<close>, \<open>env\<close>, \<open>ext\<close>.
  \<^item> \<open>BTCStaking_Params\<close>: validation and versions of the parameters (\<open>types/params.go\<close>, \<open>keeper/params.go\<close>).
  \<^item> \<open>BTCStaking\<close>: finality providers, the event queue, height index and reorganisation halt
    (\<open>finality_providers.go\<close>, \<open>power_dist_change.go\<close>, \<open>btc_reorg.go\<close>, \<open>abci.go\<close>, messages of providers).
  \<^item> \<open>BTC_Delegation\<close>: status of a delegation, covenant signatures, inclusion proofs, selective slashing
    (\<open>btc_delegation.go\<close>, \<open>btc_delegations.go\<close>, \<open>msg_server.go\<close>).
  \<^item> \<open>Power_Table\<close>: selection of the active providers and differences of active sets (\<open>types/power_table.go\<close>).
  \<^item> \<open>Finality_State\<close>: blocks, votes, evidence, power tables, parameters (\<open>indexed_blocks.go\<close>, \<open>votes.go\<close>, \<open>evidence.go\<close>,
    \<open>power_table.go\<close>, \<open>params.go\<close>).
  \<^item> \<open>Pub_Rand\<close>: commitments to public randomness and their index (\<open>public_randomness.go\<close>).
  \<^item> \<open>Power_Dist\<close>, \<open>Power_Dist_Refinement\<close>, \<open>Begin_Block\<close>: event processing, its abstract specification as sums of satoshis per
    provider, and the begin blocker (\<open>keeper/power_dist_change.go\<close>).
  \<^item> \<open>Tallying\<close>, \<open>Liveness\<close>, \<open>Rewarding\<close>: the three parts of the end blocker (\<open>tallying.go\<close>, \<open>liveness.go\<close>, \<open>signing_info.go\<close>,
    \<open>rewarding.go\<close>). \<open>Resume_Finality\<close>: the governance proposal (\<open>gov.go\<close>). \<open>Voting\<close>: the vote message (\<open>msg_server.go\<close>).
  \<^item> \<open>Chain\<close>: the end blocker (\<open>x/finality/abci.go\<close>) and the step relation \<open>chain_step\<close>, in which blocks begin and end and the
    messages of both modules arrive in any order.
  \<^item> \<open>EOTS\<close> and \<open>Key_Extraction\<close>: the signature scheme over a curve library that is a parameter, and its use in
    votes and evidence (\<open>crypto/eots/eots.go\<close>, \<open>types/finality.go\<close>).
  \<^item> \<open>BTC_Light_Client\<close>: the store of headers, insertion with rollback, depth (\<open>btc_light_client.go\<close>, \<open>keeper/state.go\<close>,
    \<open>keeper/keeper.go\<close> of \<open>x/btclightclient\<close>).
  \<^item> \<open>Checkpoint_Format\<close>: checkpoints in OP_RETURN data (\<open>btctxformatter/formatter.go\<close>). \<open>SPV_Proof\<close>: Merkle proofs and the
    parser of a proof (\<open>x/btccheckpoint/types/btcutils.go\<close>).
  \<^item> \<open>Checkpointing\<close>: accumulation of signatures, sealing, verification, status changes (\<open>x/checkpointing\<close>) and the
    search in a validator set (\<open>x/epoching/types/validator.go\<close>).
  \<^item> \<open>BTC_Checkpoint\<close>: submissions, the check of all epochs, and the message (\<open>keeper.go\<close>, \<open>submissions.go\<close>, \<open>msg_server.go\<close>
    of \<open>x/btccheckpoint\<close>).

  \<^bold>\<open>What the lemmas show.\<close> Each component has an invariant that its operations keep (sorted stores, disjoint
  and indexed commitments, counters that equal bitmaps, valid version maps) and lemmas for the outcome of each
  operation, errors included. Three results compose them. The power distribution refines sums over events
  and the selection of the strongest providers. A tally finalises exactly the heights with more than two
  thirds of the power. Over all reachable states of \<open>chain_step\<close>, conflicting quorums leave more than a
  third of the power slashed, and each slashed voter's key can be computed from the stored evidence.
  On the Bitcoin side, the light client keeps one chain and leaves it only for more work; a checkpoint survives
  its encoding, a Merkle proof that is built is accepted, and a checkpoint that is built is sealed; after each
  check the epochs agree with the main chain. Several theorems state defects of the code, among them that a
  confirmed epoch which is forgotten is never finalised in checkpointing.

  \<^bold>\<open>Hypotheses.\<close> \<open>curve_ok\<close> states the group laws of the curve library, \<open>merkle_binding\<close> that a position of a Merkle root
  has one leaf. \<open>btcd_ok\<close> states that no header is its own ancestor, none has the hash zero, and one that passes the sanity check has work,
  \<open>merkle_store_ok\<close> the layout of the Merkle tree of btcd, \<open>bitmap_ok\<close> the laws of the bitmap and \<open>bls_ok\<close> that an aggregate
  of valid signatures verifies for their keys. \<open>power_bound\<close> says that sums of voting power fit in 64 bits: there are at most \<open>2.1 * 10 ^ 15\<close> satoshis.
  The rule \<open>resume\<close> of \<open>chain_step\<close> has as guard that no height from the halting height on is finalised; the code
  leaves this to governance.

  \<^bold>\<open>Not modelled.\<close> Queries, genesis, migrations and the command line, since no block executes them. Bitcoin scripts
  and transactions, whose checks are third-party code; with them the creation of a delegation, its expansion and its
  unbonding message, which consist of such checks. Vote extensions and the ABCI handlers around the construction of
  a checkpoint, which encode and decode messages. The queue of epoching, incentives, mint and costaking, which
  the modelled modules see through the interfaces above. Application wiring and IBC.
\<close>

end
